(* ===== verification/Prelude.thy ===== *)
theory Prelude
  imports Complex_Main "HOL-Library.AList" "HOL-Library.Multiset" "HOL-Library.Sublist"
begin

text \<open>
  Shared vocabulary of the development: Python text as a list of Unicode code points,
  insertion-ordered dictionaries as association lists, the result type of code that may
  raise, and the generic list facts that the component theories reuse.
\<close>

section \<open>Hint collections\<close>

named_theorems text_simps \<open>facts about Python text used by the sanitiser and the schemas\<close>
named_theorems node_defs \<open>definitions of the pipeline nodes, unfolded together\<close>

section \<open>Text\<close>

text \<open>
  A Python \<open>str\<close> is a sequence of Unicode code points, so it is a list of naturals here;
  \<open>lit\<close> turns an ASCII literal into such a list. Korean literals are written as code points.
\<close>

type_synonym pystr = "nat list"

definition lit :: "string \<Rightarrow> pystr" where
  "lit s = map of_char s"

text \<open>
  The code points that both \<open>str.isspace\<close> and the class \<open>\\s\<close> of a Python text
  pattern accept.
\<close>

definition is_space :: "nat \<Rightarrow> bool" where
  "is_space c \<longleftrightarrow>
     (9 \<le> c \<and> c \<le> 13) \<or> (28 \<le> c \<and> c \<le> 31) \<or> c = 32 \<or> c = 133 \<or> c = 160 \<or> c = 5760
     \<or> (8192 \<le> c \<and> c \<le> 8202) \<or> c = 8232 \<or> c = 8233 \<or> c = 8239 \<or> c = 8287 \<or> c = 12288"

definition strip :: "pystr \<Rightarrow> pystr" where
  "strip s = rev (dropWhile is_space (rev (dropWhile is_space s)))"

text \<open>
  \<open>str.lower\<close> on ASCII letters; every use compares the result with an ASCII word that has
  neither k nor a dotted i, for which the other case mappings of Unicode make no difference.
\<close>

definition ascii_lower :: "pystr \<Rightarrow> pystr" where
  "ascii_lower s = map (\<lambda>c. if 65 \<le> c \<and> c \<le> 90 then c + 32 else c) s"

definition contains_text :: "pystr \<Rightarrow> pystr \<Rightarrow> bool" where
  "contains_text needle hay \<longleftrightarrow> sublist needle hay"

lemma set_strip [text_simps]: "set (strip s) \<subseteq> set s"
  unfolding strip_def by (auto dest!: set_dropWhileD)

lemma length_strip: "length (strip s) \<le> length s"
  unfolding strip_def
  by (metis length_dropWhile_le length_rev order.trans)

lemma hd_dropWhile_not: "dropWhile P xs = y # ys \<Longrightarrow> \<not> P y"
  by (metis hd_dropWhile list.distinct(1) list.sel(1))

section \<open>Results of code that may raise\<close>

text \<open>\<open>Inl\<close> carries the exception, \<open>Inr\<close> the value; \<open>bindE\<close> is sequencing.\<close>

definition bindE :: "'e + 'a \<Rightarrow> ('a \<Rightarrow> 'e + 'b) \<Rightarrow> 'e + 'b" where
  "bindE m f = (case m of Inl e \<Rightarrow> Inl e | Inr a \<Rightarrow> f a)"

lemma bindE_simps [simp]:
  "bindE (Inl e) f = Inl e"
  "bindE (Inr a) f = f a"
  by (simp_all add: bindE_def)

lemma bindE_Inr_iff:
  "bindE m f = Inr b \<longleftrightarrow> (\<exists>a. m = Inr a \<and> f a = Inr b)"
  by (cases m) auto

text \<open>The ways a case distinction can give a value; used instead of splitting it.\<close>

lemma case_sum_Inr_iff:
  "(case m of Inl e \<Rightarrow> f e | Inr v \<Rightarrow> g v) = Inr y
   \<longleftrightarrow> (\<exists>e. m = Inl e \<and> f e = Inr y) \<or> (\<exists>v. m = Inr v \<and> g v = Inr y)"
  by (cases m) auto

lemma case_option_Inr_iff:
  "(case m of None \<Rightarrow> f | Some v \<Rightarrow> g v) = Inr y
   \<longleftrightarrow> (m = None \<and> f = Inr y) \<or> (\<exists>v. m = Some v \<and> g v = Inr y)"
  by (cases m) auto

lemma if_Inr_iff: "(if b then f else g) = Inr y \<longleftrightarrow> (b \<and> f = Inr y) \<or> (\<not> b \<and> g = Inr y)"
  by auto

lemmas run_iffs = bindE_Inr_iff case_sum_Inr_iff case_option_Inr_iff if_Inr_iff

fun mapE :: "('a \<Rightarrow> 'e + 'b) \<Rightarrow> 'a list \<Rightarrow> 'e + 'b list" where
  "mapE f [] = Inr []"
| "mapE f (x # xs) = bindE (f x) (\<lambda>y. bindE (mapE f xs) (\<lambda>ys. Inr (y # ys)))"

lemma mapE_Inr:
  "mapE f xs = Inr ys \<Longrightarrow> list_all2 (\<lambda>x y. f x = Inr y) xs ys"
  by (induction xs arbitrary: ys) (auto simp: bindE_Inr_iff)

section \<open>Dictionaries in insertion order\<close>

text \<open>
  \<open>d[k] = v\<close> keeps the position of an existing key and appends a new one, which is what
  \<open>AList.update\<close> does; a dict display or comprehension folds it over the pairs.
\<close>

definition dict_of_pairs :: "('k \<times> 'v) list \<Rightarrow> ('k \<times> 'v) list" where
  "dict_of_pairs kvs = foldl (\<lambda>d kv. AList.update (fst kv) (snd kv) d) [] kvs"

lemma set_AList_update: "set (AList.update k v d) \<subseteq> insert (k, v) (set d)"
  by (induction d) auto

lemma set_foldl_update:
  "set (foldl (\<lambda>d kv. AList.update (fst kv) (snd kv) d) d0 kvs) \<subseteq> set d0 \<union> set kvs"
proof (induction kvs arbitrary: d0)
  case Nil
  then show ?case by simp
next
  case (Cons kv kvs)
  have "set (foldl (\<lambda>d kv. AList.update (fst kv) (snd kv) d) d0 (kv # kvs))
        \<subseteq> set (AList.update (fst kv) (snd kv) d0) \<union> set kvs"
    using Cons.IH [of "AList.update (fst kv) (snd kv) d0"] by simp
  also have "\<dots> \<subseteq> insert kv (set d0) \<union> set kvs"
    using set_AList_update [of "fst kv" "snd kv" d0] by auto
  finally show ?case by auto
qed

lemma set_dict_of_pairs: "set (dict_of_pairs kvs) \<subseteq> set kvs"
  unfolding dict_of_pairs_def using set_foldl_update [of "[]" kvs] by simp

lemma distinct_foldl_update:
  "distinct (map fst d0)
   \<Longrightarrow> distinct (map fst (foldl (\<lambda>d kv. AList.update (fst kv) (snd kv) d) d0 kvs))"
  by (induction kvs arbitrary: d0) (simp_all add: distinct_update)

lemma distinct_dict_of_pairs [simp]: "distinct (map fst (dict_of_pairs kvs))"
  unfolding dict_of_pairs_def by (rule distinct_foldl_update) simp

lemma map_of_foldl_update:
  "map_of (foldl (\<lambda>d kv. AList.update (fst kv) (snd kv) d) d0 kvs) k
     = (case map_of (rev kvs) k of Some v \<Rightarrow> Some v | None \<Rightarrow> map_of d0 k)"
  by (induction kvs arbitrary: d0)
     (auto simp: update_conv' map_add_def split: option.splits)

lemma map_of_dict_of_pairs: "map_of (dict_of_pairs kvs) k = map_of (rev kvs) k"
  unfolding dict_of_pairs_def
  by (simp add: map_of_foldl_update split: option.splits)

section \<open>Order-preserving removal of repetitions\<close>

text \<open>The loop \<open>for x in xs: if x not in seen: seen.append(x)\<close>.\<close>

fun uniq_onto :: "'a list \<Rightarrow> 'a list \<Rightarrow> 'a list" where
  "uniq_onto seen [] = seen"
| "uniq_onto seen (x # xs) =
     (if x \<in> set seen then uniq_onto seen xs else uniq_onto (seen @ [x]) xs)"

lemma set_uniq_onto [simp]: "set (uniq_onto seen xs) = set seen \<union> set xs"
  by (induction seen xs rule: uniq_onto.induct) auto

lemma distinct_uniq_onto: "distinct seen \<Longrightarrow> distinct (uniq_onto seen xs)"
  by (induction seen xs rule: uniq_onto.induct) auto

lemma length_uniq_onto: "length (uniq_onto seen xs) \<le> length seen + length xs"
  by (induction seen xs rule: uniq_onto.induct) auto

section \<open>Sorting\<close>

text \<open>
  \<open>sort_key\<close> is a stable sort, as Python's is. A list that is already sorted by the key is
  unchanged, and the elements of one key keep their order (\<open>sort_key_stable\<close>).
\<close>

lemma sorted_map_sort_key [simp]: "sorted (map f (sort_key f xs))"
  by simp

lemma length_filter_all: "list_all P xs \<Longrightarrow> filter P xs = xs"
  by (induction xs) auto

section \<open>Rounding\<close>

text \<open>Python's \<open>round(x)\<close>: to the nearest integer, ties to the even one.\<close>

definition round_half_even :: "real \<Rightarrow> int" where
  "round_half_even x =
     (let f = \<lfloor>x\<rfloor>; d = x - of_int f
      in if d < 1 / 2 then f
         else if d > 1 / 2 then f + 1
         else if even f then f else f + 1)"

definition round_digits :: "nat \<Rightarrow> real \<Rightarrow> real" where
  "round_digits n x = of_int (round_half_even (x * 10 ^ n)) / 10 ^ n"

lemma round_half_even_bounds:
  "x - 1 / 2 \<le> of_int (round_half_even x) \<and> of_int (round_half_even x) \<le> x + 1 / 2"
  unfolding round_half_even_def Let_def
  using floor_correct [of x] by (auto; linarith)

lemma round_half_even_nonneg: "0 \<le> x \<Longrightarrow> 0 \<le> round_half_even x"
  unfolding round_half_even_def Let_def by (auto simp: zero_le_floor)

lemma round_digits_nonneg: "0 \<le> x \<Longrightarrow> 0 \<le> round_digits n x"
  unfolding round_digits_def by (simp add: round_half_even_nonneg)

end
