(* ===== verification/PyValue.thy ===== *)
theory PyValue
  imports Prelude
begin

text \<open>
  The JSON-like Python values that reach the service from the hub and the model: floats with
  their infinities and NaN, the nested value type, truthiness, \<open>dict.get\<close> and the numeric
  tests (\<open>isinstance(v, (int, float)) and not isinstance(v, bool)\<close>, range comparisons,
  \<open>int(v)\<close>) that the code applies before it trusts a value. A finite float is an exact real
  number: rounding of the binary format is not modelled.
\<close>

section \<open>Floats\<close>

datatype pyfloat = NegInf | Fin real | PosInf | NaN

text \<open>
  The usual order on numbers, made total by putting NaN last. Python's own comparisons with a NaN
  are false, so a list with one has no sorted order; where the code sorts values that can be NaN
  (\<open>rank_by\<close>), this order is used only when there is none.
\<close>

instantiation pyfloat :: linorder
begin

fun less_eq_pyfloat :: "pyfloat \<Rightarrow> pyfloat \<Rightarrow> bool" where
  "less_eq_pyfloat NegInf _ = True"
| "less_eq_pyfloat (Fin r) NegInf = False"
| "less_eq_pyfloat (Fin r) (Fin s) = (r \<le> s)"
| "less_eq_pyfloat (Fin r) _ = True"
| "less_eq_pyfloat PosInf PosInf = True"
| "less_eq_pyfloat PosInf NaN = True"
| "less_eq_pyfloat PosInf _ = False"
| "less_eq_pyfloat NaN NaN = True"
| "less_eq_pyfloat NaN _ = False"

definition less_pyfloat :: "pyfloat \<Rightarrow> pyfloat \<Rightarrow> bool" where
  "less_pyfloat a b \<longleftrightarrow> a \<le> b \<and> \<not> b \<le> a"

instance
proof
  fix a b c :: pyfloat
  show "a < b \<longleftrightarrow> a \<le> b \<and> \<not> b \<le> a" by (simp add: less_pyfloat_def)
  show "a \<le> a" by (cases a) auto
  show "a \<le> b \<Longrightarrow> b \<le> c \<Longrightarrow> a \<le> c" by (cases a; cases b; cases c) auto
  show "a \<le> b \<Longrightarrow> b \<le> a \<Longrightarrow> a = b" by (cases a; cases b) auto
  show "a \<le> b \<or> b \<le> a" by (cases a; cases b) auto
qed

end

definition is_finite :: "pyfloat \<Rightarrow> bool" where
  "is_finite f \<longleftrightarrow> (case f of Fin _ \<Rightarrow> True | _ \<Rightarrow> False)"

definition in_range :: "real \<Rightarrow> real \<Rightarrow> pyfloat \<Rightarrow> bool" where
  "in_range lo hi f \<longleftrightarrow> (case f of Fin r \<Rightarrow> lo \<le> r \<and> r \<le> hi | _ \<Rightarrow> False)"

fun neg_float :: "pyfloat \<Rightarrow> pyfloat" where
  "neg_float NegInf = PosInf"
| "neg_float (Fin r) = Fin (- r)"
| "neg_float PosInf = NegInf"
| "neg_float NaN = NaN"

lemma in_range_iff: "in_range lo hi f \<longleftrightarrow> (\<exists>r. f = Fin r \<and> lo \<le> r \<and> r \<le> hi)"
  by (cases f) (auto simp: in_range_def)

section \<open>Values\<close>

datatype pyval =
    PNone
  | PBool bool
  | PInt int
  | PFloat pyfloat
  | PStr pystr
  | PList "pyval list"
  | PDict "(pystr \<times> pyval) list"

definition dget :: "(pystr \<times> pyval) list \<Rightarrow> string \<Rightarrow> pyval" where
  "dget d k = (case map_of d (lit k) of Some v \<Rightarrow> v | None \<Rightarrow> PNone)"

fun truthy :: "pyval \<Rightarrow> bool" where
  "truthy PNone = False"
| "truthy (PBool b) = b"
| "truthy (PInt n) = (n \<noteq> 0)"
| "truthy (PFloat f) = (f \<noteq> Fin 0)"
| "truthy (PStr s) = (s \<noteq> [])"
| "truthy (PList xs) = (xs \<noteq> [])"
| "truthy (PDict d) = (d \<noteq> [])"

fun as_dict :: "pyval \<Rightarrow> (pystr \<times> pyval) list option" where
  "as_dict (PDict d) = Some d"
| "as_dict _ = None"

fun as_list :: "pyval \<Rightarrow> pyval list option" where
  "as_list (PList xs) = Some xs"
| "as_list _ = None"

fun as_str :: "pyval \<Rightarrow> pystr option" where
  "as_str (PStr s) = Some s"
| "as_str _ = None"

lemma as_dict_Some [simp]: "as_dict v = Some d \<longleftrightarrow> v = PDict d"
  by (cases v) auto

lemma as_list_Some [simp]: "as_list v = Some xs \<longleftrightarrow> v = PList xs"
  by (cases v) auto

lemma as_str_Some [simp]: "as_str v = Some s \<longleftrightarrow> v = PStr s"
  by (cases v) auto

text \<open>
  \<open>isinstance(v, (int, float)) and not isinstance(v, bool)\<close>: the number, if it is one.
\<close>

fun number_of :: "pyval \<Rightarrow> pyfloat option" where
  "number_of (PInt n) = Some (Fin (of_int n))"
| "number_of (PFloat f) = Some f"
| "number_of _ = None"

text \<open>\<open>isinstance(v, (int, float))\<close> alone also lets a bool through, as 0 or 1.\<close>

fun number_or_bool :: "pyval \<Rightarrow> pyfloat option" where
  "number_or_bool (PBool b) = Some (Fin (if b then 1 else 0))"
| "number_or_bool v = number_of v"

definition int_trunc :: "real \<Rightarrow> int" where
  "int_trunc r = (if 0 \<le> r then \<lfloor>r\<rfloor> else \<lceil>r\<rceil>)"

text \<open>The numbers of a value that lie in a closed range, truncated by \<open>int(v)\<close>.\<close>

definition int_in_range :: "real \<Rightarrow> real \<Rightarrow> pyval \<Rightarrow> int option" where
  "int_in_range lo hi v =
     (case number_of v of
        Some (Fin r) \<Rightarrow> if lo \<le> r \<and> r \<le> hi then Some (int_trunc r) else None
      | _ \<Rightarrow> None)"

lemma int_trunc_bounds:
  "of_int lo \<le> r \<Longrightarrow> r \<le> of_int hi \<Longrightarrow> lo \<le> int_trunc r \<and> int_trunc r \<le> hi"
  unfolding int_trunc_def by (auto simp: le_floor_iff ceiling_le_iff intro: floor_le_iff [THEN iffD2]) linarith+

lemma int_in_range_bounds:
  "int_in_range (of_int lo) (of_int hi) v = Some n \<Longrightarrow> lo \<le> n \<and> n \<le> hi"
  by (auto simp: int_in_range_def split: option.splits pyfloat.splits if_splits
           dest: int_trunc_bounds)

text \<open>Values whose strings and dictionary keys all satisfy a predicate, at every depth.\<close>

fun all_strings :: "(pystr \<Rightarrow> bool) \<Rightarrow> pyval \<Rightarrow> bool" where
  "all_strings P (PStr s) = P s"
| "all_strings P (PList xs) = (\<forall>x \<in> set xs. all_strings P x)"
| "all_strings P (PDict d) = (\<forall>kv \<in> set d. P (fst kv) \<and> all_strings P (snd kv))"
| "all_strings P PNone = True"
| "all_strings P (PBool b) = True"
| "all_strings P (PInt n) = True"
| "all_strings P (PFloat f) = True"

lemma all_strings_mono:
  "(\<And>s. P s \<Longrightarrow> Q s) \<Longrightarrow> all_strings P v \<Longrightarrow> all_strings Q v"
  by (induction P v rule: all_strings.induct) auto

text \<open>How many containers are nested.\<close>

fun nest_depth :: "pyval \<Rightarrow> nat" where
  "nest_depth (PList xs) = Suc (Max (insert 0 (nest_depth ` set xs)))"
| "nest_depth (PDict d) = Suc (Max (insert 0 ((\<lambda>kv. nest_depth (snd kv)) ` set d)))"
| "nest_depth PNone = 0"
| "nest_depth (PBool b) = 0"
| "nest_depth (PInt n) = 0"
| "nest_depth (PFloat f) = 0"
| "nest_depth (PStr s) = 0"

end
