(* ===== verification/Sanitize.thy ===== *)
theory Sanitize
  imports PyValue
begin

text \<open>
  app/security/sanitize.py: the removal of control and invisible code points, the escaping of
  tag characters for prompt views (\<open>sanitize_text\<close>, \<open>sanitize_struct\<close>) and their
  replacement in display fields (\<open>neutralize_tags\<close>). The locale \<open>char_filter\<close> states what
  the callers rely on, and both text operations are interpreted in it.
\<close>

section \<open>Character classes\<close>

definition is_control :: "nat \<Rightarrow> bool" where
  "is_control c \<longleftrightarrow>
     c \<le> 8 \<or> c = 11 \<or> c = 12 \<or> (14 \<le> c \<and> c \<le> 31) \<or> (127 \<le> c \<and> c \<le> 159)
     \<or> (0x200B \<le> c \<and> c \<le> 0x200F) \<or> c = 0x2028 \<or> c = 0x2029
     \<or> (0x202A \<le> c \<and> c \<le> 0x202E) \<or> (0x2066 \<le> c \<and> c \<le> 0x2069)
     \<or> (0x2060 \<le> c \<and> c \<le> 0x2064) \<or> c = 0xFEFF
     \<or> (0xE0000 \<le> c \<and> c \<le> 0xE007F)"

definition is_tag_char :: "nat \<Rightarrow> bool" where
  "is_tag_char c \<longleftrightarrow> c = 60 \<or> c = 62 \<or> c = 0xFF1C \<or> c = 0xFF1E"

definition strip_control :: "pystr \<Rightarrow> pystr" where
  "strip_control s = filter (\<lambda>c. \<not> is_control c) s"

section \<open>Display fields\<close>

definition neutralize_text :: "pystr \<Rightarrow> pystr" where
  "neutralize_text s = map (\<lambda>c. if is_tag_char c then 47 else c) (strip_control s)"

text \<open>Values that are not strings pass through.\<close>

definition neutralize_tags :: "pyval \<Rightarrow> pyval" where
  "neutralize_tags v = (case v of PStr s \<Rightarrow> PStr (neutralize_text s) | _ \<Rightarrow> v)"

section \<open>Prompt views\<close>

text \<open>Every run of white space becomes one blank.\<close>

function collapse_ws :: "pystr \<Rightarrow> pystr" where
  "collapse_ws [] = []"
| "collapse_ws (c # cs) =
     (if is_space c then 32 # collapse_ws (dropWhile is_space cs) else c # collapse_ws cs)"
  by pat_completeness auto
termination
  by (relation "measure length") (auto simp: le_imp_less_Suc length_dropWhile_le)

definition replace_char :: "nat \<Rightarrow> pystr \<Rightarrow> pystr \<Rightarrow> pystr" where
  "replace_char ch rep s = concat (map (\<lambda>c. if c = ch then rep else [c]) s)"

definition sanitize_text :: "pystr \<Rightarrow> nat \<Rightarrow> pystr" where
  "sanitize_text value max_len =
     (let cleaned = strip (collapse_ws (strip_control value));
          cleaned = replace_char 62 (lit ''&gt;'') (replace_char 60 (lit ''&lt;'') cleaned);
          cleaned = replace_char 0xFF1E (lit ''&gt;'')
                      (replace_char 0xFF1C (lit ''&lt;'') cleaned)
      in take max_len cleaned)"

definition depth_placeholder :: pystr where
  "depth_placeholder = [0x2026]"

text \<open>
  The recursion over containers; the depth is an integer as in the source, where a negative
  depth also yields the placeholder. Keys made equal by sanitising keep the last value.
\<close>

fun sanitize_struct :: "nat \<Rightarrow> int \<Rightarrow> pyval \<Rightarrow> pyval" where
  "sanitize_struct str_max depth_max (PStr s) =
     (if depth_max < 0 then PStr depth_placeholder else PStr (sanitize_text s str_max))"
| "sanitize_struct str_max depth_max (PDict d) =
     (if depth_max \<le> 0 then PStr depth_placeholder
      else PDict (dict_of_pairs
             (map (\<lambda>kv. (sanitize_text (fst kv) str_max,
                         sanitize_struct str_max (depth_max - 1) (snd kv))) d)))"
| "sanitize_struct str_max depth_max (PList xs) =
     (if depth_max \<le> 0 then PStr depth_placeholder
      else PList (map (sanitize_struct str_max (depth_max - 1)) xs))"
| "sanitize_struct str_max depth_max v =
     (if depth_max < 0 then PStr depth_placeholder else v)"

section \<open>What the text operations leave\<close>

text \<open>The characters that must not reach a prompt's data section or a display field.\<close>

definition unsafe_char :: "nat \<Rightarrow> bool" where
  "unsafe_char c \<longleftrightarrow> is_control c \<or> is_tag_char c"

definition safe_text :: "pystr \<Rightarrow> bool" where
  "safe_text s \<longleftrightarrow> (\<forall>c \<in> set s. \<not> unsafe_char c)"

lemma safe_text_simps [simp]:
  "safe_text []"
  "safe_text (c # s) \<longleftrightarrow> \<not> unsafe_char c \<and> safe_text s"
  "safe_text (s @ t) \<longleftrightarrow> safe_text s \<and> safe_text t"
  by (auto simp: safe_text_def)

lemma safe_text_subset: "set s \<subseteq> set t \<Longrightarrow> safe_text t \<Longrightarrow> safe_text s"
  by (auto simp: safe_text_def)

lemma set_strip_control [simp]: "set (strip_control s) = {c \<in> set s. \<not> is_control c}"
  by (auto simp: strip_control_def)

lemma set_collapse_ws: "set (collapse_ws s) \<subseteq> insert 32 {c \<in> set s. \<not> is_space c}"
proof (induction s rule: collapse_ws.induct)
  case 1
  then show ?case by simp
next
  case (2 c cs)
  then show ?case by (auto dest: set_dropWhileD)
qed

lemma set_replace_char:
  "set (replace_char ch rep s) \<subseteq> (set s - {ch}) \<union> set rep"
  by (auto simp: replace_char_def)

lemma entity_chars [simp]:
  "set (lit ''&lt;'') = {38, 108, 116, 59}"
  "set (lit ''&gt;'') = {38, 103, 116, 59}"
  by (simp_all add: lit_def)

lemma set_sanitize_text:
  "set (sanitize_text s n) \<subseteq>
     insert 32 {c \<in> set s. \<not> is_space c \<and> \<not> is_control c \<and> \<not> is_tag_char c}
     \<union> {38, 59, 103, 108, 116}"
proof -
  define t where "t = strip (collapse_ws (strip_control s))"
  have t: "set t \<subseteq> insert 32 {c \<in> set s. \<not> is_space c \<and> \<not> is_control c}"
    unfolding t_def using set_strip set_collapse_ws [of "strip_control s"] by fastforce
  define u where "u = replace_char 62 (lit ''&gt;'') (replace_char 60 (lit ''&lt;'') t)"
  have u: "set u \<subseteq> (set t - {60, 62}) \<union> {38, 59, 103, 108, 116}"
    unfolding u_def
    using set_replace_char [of 62 "lit ''&gt;''" "replace_char 60 (lit ''&lt;'') t"]
      set_replace_char [of 60 "lit ''&lt;''" t]
    by (simp only: entity_chars) blast
  define w where "w = replace_char 0xFF1E (lit ''&gt;'') (replace_char 0xFF1C (lit ''&lt;'') u)"
  have w: "set w \<subseteq> (set u - {0xFF1C, 0xFF1E}) \<union> {38, 59, 103, 108, 116}"
    unfolding w_def
    using set_replace_char [of "0xFF1E" "lit ''&gt;''" "replace_char 0xFF1C (lit ''&lt;'') u"]
      set_replace_char [of "0xFF1C" "lit ''&lt;''" u]
    by (simp only: entity_chars) blast
  have "set (sanitize_text s n) \<subseteq> set w"
    unfolding sanitize_text_def Let_def t_def [symmetric] u_def [symmetric] w_def [symmetric]
    by (rule set_take_subset)
  with t u w show ?thesis by (auto simp: is_tag_char_def)
qed

lemma fixed_chars_safe [simp]:
  "\<not> unsafe_char 32" "\<not> unsafe_char 38" "\<not> unsafe_char 47" "\<not> unsafe_char 59"
  "\<not> unsafe_char 103" "\<not> unsafe_char 108" "\<not> unsafe_char 116" "\<not> unsafe_char 0x2026"
  by (simp_all add: unsafe_char_def is_control_def is_tag_char_def)

lemma sanitize_text_safe: "safe_text (sanitize_text s n)"
proof -
  have "\<not> unsafe_char c" if "c \<in> set (sanitize_text s n)" for c
  proof -
    from that set_sanitize_text [of s n]
    consider "c \<in> {32, 38, 59, 103, 108, 116}" | "\<not> is_control c" "\<not> is_tag_char c"
      by auto
    then show ?thesis
    proof cases
      case 1
      then show ?thesis by auto
    next
      case 2
      then show ?thesis by (simp add: unsafe_char_def)
    qed
  qed
  then show ?thesis by (simp add: safe_text_def)
qed

lemma sanitize_text_spaces:
  assumes "c \<in> set (sanitize_text s n)" and "is_space c"
  shows "c = 32"
proof -
  have "\<not> is_space 38" "\<not> is_space 59" "\<not> is_space 103" "\<not> is_space 108" "\<not> is_space 116"
    by (simp_all add: is_space_def)
  with assms set_sanitize_text [of s n] show ?thesis by auto
qed

lemma length_sanitize_text: "length (sanitize_text s n) \<le> n"
  by (simp add: sanitize_text_def Let_def)

lemma neutralize_text_safe: "safe_text (neutralize_text s)"
proof -
  have "\<not> is_control 47" and "\<not> is_tag_char 47"
    by (simp_all add: is_control_def is_tag_char_def)
  then show ?thesis by (auto simp: safe_text_def neutralize_text_def unsafe_char_def)
qed

lemma length_neutralize_text: "length (neutralize_text s) \<le> length s"
  by (simp add: neutralize_text_def strip_control_def)

lemma neutralize_text_id: "safe_text s \<Longrightarrow> neutralize_text s = s"
  by (induction s) (auto simp: neutralize_text_def strip_control_def unsafe_char_def)

lemma neutralize_text_idem: "neutralize_text (neutralize_text s) = neutralize_text s"
  by (rule neutralize_text_id) (rule neutralize_text_safe)

section \<open>The contract of a text filter\<close>

text \<open>
  A prompt view and a display field rely on one law: whatever comes in, no unsafe character
  comes out. The lemmas below lift it to the lists and optional values the views are made of.
\<close>

locale text_filter =
  fixes clean :: "pystr \<Rightarrow> pystr"
  assumes clean_safe: "safe_text (clean s)"
begin

lemma clean_list_safe: "all_strings safe_text (PList (map (\<lambda>s. PStr (clean s)) xs))"
  by (simp add: clean_safe)

lemma clean_concat_safe: "safe_text (concat (map clean xs))"
  by (induction xs) (simp_all add: clean_safe)

lemma clean_scalar_safe:
  "nest_depth v = 0 \<Longrightarrow> all_strings safe_text (case v of PStr s \<Rightarrow> PStr (clean s) | _ \<Rightarrow> v)"
  by (cases v) (simp_all add: clean_safe)

end

interpretation prompt_text: text_filter "\<lambda>s. sanitize_text s n" for n
  by unfold_locales (rule sanitize_text_safe)

interpretation display_text: text_filter neutralize_text
  by unfold_locales (rule neutralize_text_safe)

section \<open>Structures\<close>

lemma placeholder_safe [simp]:
  "safe_text depth_placeholder"
  "length depth_placeholder = 1"
  by (simp_all add: depth_placeholder_def)

lemma sanitize_text_fits: "length (sanitize_text s n) \<le> max (Suc 0) n"
  using length_sanitize_text [of s n] by simp

lemma sanitize_struct_strings:
  "all_strings (\<lambda>s. safe_text s \<and> length s \<le> max 1 str_max)
     (sanitize_struct str_max depth_max v)"
proof (induction str_max depth_max v rule: sanitize_struct.induct)
  case (2 str_max depth_max d)
  have "safe_text (fst kv) \<and> length (fst kv) \<le> max 1 str_max
        \<and> all_strings (\<lambda>s. safe_text s \<and> length s \<le> max 1 str_max) (snd kv)"
    if "0 < depth_max"
      and kv: "kv \<in> set (dict_of_pairs (map (\<lambda>kv. (sanitize_text (fst kv) str_max,
                sanitize_struct str_max (depth_max - 1) (snd kv))) d))" for kv
  proof -
    from kv set_dict_of_pairs obtain kv0 where "kv0 \<in> set d"
      and "kv = (sanitize_text (fst kv0) str_max,
                 sanitize_struct str_max (depth_max - 1) (snd kv0))"
      by fastforce
    with 2 that(1) show ?thesis by (simp add: sanitize_text_safe sanitize_text_fits)
  qed
  then show ?case by simp
qed (simp_all add: sanitize_text_safe sanitize_text_fits)

lemma nest_depth_PList_le:
  "(\<And>x. x \<in> set xs \<Longrightarrow> nest_depth x \<le> n) \<Longrightarrow> nest_depth (PList xs) \<le> Suc n"
  by (simp add: Max_le_iff)

lemma nest_depth_PDict_le:
  "(\<And>kv. kv \<in> set d \<Longrightarrow> nest_depth (snd kv) \<le> n) \<Longrightarrow> nest_depth (PDict d) \<le> Suc n"
  by (simp add: Max_le_iff)

lemma sanitize_struct_depth: "nest_depth (sanitize_struct str_max depth_max v) \<le> nat depth_max"
proof (induction str_max depth_max v rule: sanitize_struct.induct)
  case (2 str_max depth_max d)
  show ?case
  proof (cases "depth_max \<le> 0")
    case False
    have "nest_depth (sanitize_struct str_max depth_max (PDict d))
          \<le> Suc (nat (depth_max - 1))"
      unfolding sanitize_struct.simps if_not_P [OF False]
      by (rule nest_depth_PDict_le) (use 2 False set_dict_of_pairs in fastforce)
    also have "Suc (nat (depth_max - 1)) = nat depth_max" using False by simp
    finally show ?thesis .
  qed simp
next
  case (3 str_max depth_max xs)
  show ?case
  proof (cases "depth_max \<le> 0")
    case False
    have "nest_depth (sanitize_struct str_max depth_max (PList xs))
          \<le> Suc (nat (depth_max - 1))"
      unfolding sanitize_struct.simps if_not_P [OF False]
      by (rule nest_depth_PList_le) (use 3 False in auto)
    also have "Suc (nat (depth_max - 1)) = nat depth_max" using False by simp
    finally show ?thesis .
  qed simp
qed auto

end
