(* ===== verification/PromptJson.thy ===== *)
theory PromptJson
  imports Sanitize
begin

text \<open>
  app/llm/prompt_json.py: the compact JSON text that goes into a prompt's data tags, after the
  empty values have been pruned. The printer is Python's \<open>json.dumps\<close> with
  \<open>ensure_ascii=False\<close> and the separators \<open>(",", ":")\<close>; the shortest decimal text of a finite
  float is the parameter \<open>frepr\<close>.
\<close>

section \<open>Pruning\<close>

fun is_empty :: "pyval \<Rightarrow> bool" where
  "is_empty PNone = True"
| "is_empty (PStr s) = (s = [])"
| "is_empty (PList xs) = (xs = [])"
| "is_empty (PDict d) = (d = [])"
| "is_empty _ = False"

fun prune_empty :: "pyval \<Rightarrow> pyval" where
  "prune_empty (PDict d) =
     PDict (filter (\<lambda>kv. \<not> is_empty (snd kv)) (map (\<lambda>kv. (fst kv, prune_empty (snd kv))) d))"
| "prune_empty (PList xs) = PList (filter (\<lambda>p. \<not> is_empty p) (map prune_empty xs))"
| "prune_empty v = v"

text \<open>No member of any container, at any depth, is empty.\<close>

fun no_empty_member :: "pyval \<Rightarrow> bool" where
  "no_empty_member (PDict d) = (\<forall>kv \<in> set d. \<not> is_empty (snd kv) \<and> no_empty_member (snd kv))"
| "no_empty_member (PList xs) = (\<forall>x \<in> set xs. \<not> is_empty x \<and> no_empty_member x)"
| "no_empty_member _ = True"

lemma prune_no_empty_member: "no_empty_member (prune_empty v)"
  by (induction v rule: prune_empty.induct) auto

lemma prune_id: "no_empty_member v \<Longrightarrow> prune_empty v = v"
proof (induction v rule: prune_empty.induct)
  case (1 d)
  then have "map (\<lambda>kv. (fst kv, prune_empty (snd kv))) d = d"
    by (intro map_idI) auto
  with 1 show ?case by (simp add: filter_id_conv)
next
  case (2 xs)
  then have "map prune_empty xs = xs" by (intro map_idI) auto
  with 2 show ?case by (simp add: filter_id_conv)
qed auto

lemma prune_empty_idem: "prune_empty (prune_empty v) = prune_empty v"
  by (rule prune_id) (rule prune_no_empty_member)

lemma prune_all_strings: "all_strings P v \<Longrightarrow> all_strings P (prune_empty v)"
  by (induction v rule: prune_empty.induct) auto

lemma prune_keeps_scalar:
  "map_of d k = Some v \<Longrightarrow> distinct (map fst d) \<Longrightarrow> v \<in> {PInt 0, PBool False, PFloat (Fin 0)}
   \<Longrightarrow> \<exists>d'. prune_empty (PDict d) = PDict d' \<and> map_of d' k = Some v"
  by (induction d) (auto split: if_splits)

section \<open>Printing\<close>

text \<open>Decimal digits, most significant first.\<close>

fun nat_digits :: "nat \<Rightarrow> pystr" where
  "nat_digits n = (if n < 10 then [48 + n] else nat_digits (n div 10) @ [48 + n mod 10])"

declare nat_digits.simps [simp del]

definition int_text :: "int \<Rightarrow> pystr" where
  "int_text i = (if i < 0 then 45 # nat_digits (nat (- i)) else nat_digits (nat i))"

definition hex_digit :: "nat \<Rightarrow> nat" where
  "hex_digit n = (if n < 10 then 48 + n else 87 + n)"

definition json_char :: "nat \<Rightarrow> pystr" where
  "json_char c =
     (if c = 34 then [92, 34]
      else if c = 92 then [92, 92]
      else if c = 10 then [92, 110]
      else if c = 13 then [92, 114]
      else if c = 9 then [92, 116]
      else if c = 12 then [92, 102]
      else if c = 8 then [92, 98]
      else if c < 32 then [92, 117, 48, 48, hex_digit (c div 16), hex_digit (c mod 16)]
      else [c])"

definition json_string :: "pystr \<Rightarrow> pystr" where
  "json_string s = [34] @ concat (map json_char s) @ [34]"

fun join_text :: "pystr \<Rightarrow> pystr list \<Rightarrow> pystr" where
  "join_text sep [] = []"
| "join_text sep [x] = x"
| "join_text sep (x # y # zs) = x @ sep @ join_text sep (y # zs)"

fun float_text :: "(real \<Rightarrow> pystr) \<Rightarrow> pyfloat \<Rightarrow> pystr" where
  "float_text frepr (Fin r) = frepr r"
| "float_text frepr NaN = lit ''NaN''"
| "float_text frepr PosInf = lit ''Infinity''"
| "float_text frepr NegInf = lit ''-Infinity''"

fun json_text :: "(real \<Rightarrow> pystr) \<Rightarrow> pyval \<Rightarrow> pystr" where
  "json_text frepr PNone = lit ''null''"
| "json_text frepr (PBool b) = (if b then lit ''true'' else lit ''false'')"
| "json_text frepr (PInt n) = int_text n"
| "json_text frepr (PFloat f) = float_text frepr f"
| "json_text frepr (PStr s) = json_string s"
| "json_text frepr (PList xs) = [91] @ join_text [44] (map (json_text frepr) xs) @ [93]"
| "json_text frepr (PDict d) =
     [123] @ join_text [44]
       (map (\<lambda>kv. json_string (fst kv) @ [58] @ json_text frepr (snd kv)) d) @ [125]"

definition dump_prompt_json :: "(real \<Rightarrow> pystr) \<Rightarrow> pyval \<Rightarrow> pystr" where
  "dump_prompt_json frepr value = json_text frepr (prune_empty value)"

section \<open>No tag character is added by printing\<close>

definition tag_free :: "pystr \<Rightarrow> bool" where
  "tag_free s \<longleftrightarrow> (\<forall>c \<in> set s. \<not> is_tag_char c)"

lemma tag_free_simps [simp]:
  "tag_free []"
  "tag_free (c # s) \<longleftrightarrow> \<not> is_tag_char c \<and> tag_free s"
  "tag_free (s @ t) \<longleftrightarrow> tag_free s \<and> tag_free t"
  by (auto simp: tag_free_def)

lemma tag_free_filter: "tag_free s \<longleftrightarrow> filter is_tag_char s = []"
  by (auto simp: tag_free_def filter_empty_conv)

lemma safe_tag_free: "safe_text s \<Longrightarrow> tag_free s"
  by (auto simp: safe_text_def tag_free_def unsafe_char_def)

lemma tag_free_concat: "(\<And>x. x \<in> set xs \<Longrightarrow> tag_free x) \<Longrightarrow> tag_free (concat xs)"
  by (induction xs) auto

lemma tag_free_join: "tag_free sep \<Longrightarrow> (\<And>x. x \<in> set xs \<Longrightarrow> tag_free x) \<Longrightarrow> tag_free (join_text sep xs)"
  by (induction sep xs rule: join_text.induct) auto

lemma low_char_not_tag [simp]: "c < 60 \<Longrightarrow> \<not> is_tag_char c"
  by (simp add: is_tag_char_def)

lemma mid_char_not_tag [simp]: "62 < c \<Longrightarrow> c < 65308 \<Longrightarrow> \<not> is_tag_char c"
  by (simp add: is_tag_char_def)

lemma tag_free_nat_digits: "tag_free (nat_digits n)"
proof (induction n rule: nat_digits.induct)
  case (1 n)
  have "48 + n mod 10 < (60 :: nat)" by simp
  with 1 show ?case by (subst nat_digits.simps) simp
qed

lemma tag_free_int_text: "tag_free (int_text i)"
  by (simp add: int_text_def tag_free_nat_digits)

lemma hex_digit_not_tag: "n < 16 \<Longrightarrow> \<not> is_tag_char (hex_digit n)"
  by (simp add: hex_digit_def)

lemma tag_free_json_char: "\<not> is_tag_char c \<Longrightarrow> tag_free (json_char c)"
  by (simp add: json_char_def hex_digit_not_tag less_mult_imp_div_less)

lemma tag_free_json_string: "tag_free s \<Longrightarrow> tag_free (json_string s)"
  unfolding json_string_def
  by (auto intro!: tag_free_concat tag_free_json_char simp: tag_free_def [of s])

lemma tag_free_float_text: "(\<And>r. tag_free (frepr r)) \<Longrightarrow> tag_free (float_text frepr f)"
  by (cases f) (simp_all add: lit_def)

lemma tag_free_json_text:
  assumes "\<And>r. tag_free (frepr r)"
  shows "all_strings tag_free v \<Longrightarrow> tag_free (json_text frepr v)"
proof (induction v rule: prune_empty.induct)
  case (1 d)
  have "tag_free (json_string (fst kv) @ [58] @ json_text frepr (snd kv))" if "kv \<in> set d" for kv
    using 1 that by (simp add: tag_free_json_string)
  then show ?case by (auto intro!: tag_free_join)
next
  case (2 xs)
  then show ?case by (auto intro!: tag_free_join)
qed (use assms in \<open>simp_all add: lit_def tag_free_int_text tag_free_float_text tag_free_json_string\<close>)

lemma tag_free_dump:
  assumes "\<And>r. tag_free (frepr r)" and "all_strings tag_free v"
  shows "tag_free (dump_prompt_json frepr v)"
  unfolding dump_prompt_json_def
  by (intro tag_free_json_text assms prune_all_strings)

section \<open>Data tags\<close>

text \<open>The line \<open><name>body</name>\<close> that wraps one data section of a prompt.\<close>

definition data_tag :: "string \<Rightarrow> pystr \<Rightarrow> pystr" where
  "data_tag name body =
     lit ''<'' @ lit name @ lit ''>'' @ body @ lit ''</'' @ lit name @ lit ''>'' @ [10]"

text \<open>A section whose name and body have no tag character contributes exactly its own two tags.\<close>

lemma data_tag_chars:
  assumes "tag_free (lit name)" and "tag_free body"
  shows "filter is_tag_char (data_tag name body) = [60, 62, 60, 62]"
  using assms
  by (simp add: data_tag_def tag_free_filter lit_def) (simp add: is_tag_char_def)

end
