(* ===== verification/Calendar.thy ===== *)
theory Calendar
  imports PromptJson
begin

text \<open>
  The part of Python's \<open>datetime\<close> that the service uses: naive dates and times with their
  order, the proleptic Gregorian ordinal behind date subtraction, adding days, the ISO text of a
  date or time, and the reading of a date text. Years are not bounded by 9999 here; no operation
  of the service leaves the request's own date range.
\<close>

section \<open>Dates\<close>

datatype date = Date (date_year: nat) (date_month: nat) (date_day: nat)

instantiation date :: linorder
begin

fun less_eq_date :: "date \<Rightarrow> date \<Rightarrow> bool" where
  "less_eq_date (Date y m d) (Date y' m' d') \<longleftrightarrow>
     y < y' \<or> (y = y' \<and> (m < m' \<or> (m = m' \<and> d \<le> d')))"

definition less_date :: "date \<Rightarrow> date \<Rightarrow> bool" where
  "less_date a b \<longleftrightarrow> a \<le> b \<and> \<not> b \<le> a"

instance
proof
  fix a b c :: date
  show "a < b \<longleftrightarrow> a \<le> b \<and> \<not> b \<le> a" by (simp add: less_date_def)
  show "a \<le> a" by (cases a) auto
  show "a \<le> b \<Longrightarrow> b \<le> c \<Longrightarrow> a \<le> c" by (cases a; cases b; cases c) auto
  show "a \<le> b \<Longrightarrow> b \<le> a \<Longrightarrow> a = b" by (cases a; cases b) auto
  show "a \<le> b \<or> b \<le> a" by (cases a; cases b) auto
qed

end

definition is_leap :: "nat \<Rightarrow> bool" where
  "is_leap y \<longleftrightarrow> y mod 4 = 0 \<and> (y mod 100 \<noteq> 0 \<or> y mod 400 = 0)"

definition days_in_month :: "nat \<Rightarrow> nat \<Rightarrow> nat" where
  "days_in_month y m =
     (if m = 2 then (if is_leap y then 29 else 28)
      else if m \<in> {4, 6, 9, 11} then 30 else 31)"

definition valid_date :: "date \<Rightarrow> bool" where
  "valid_date d \<longleftrightarrow> 1 \<le> date_year d \<and> 1 \<le> date_month d \<and> date_month d \<le> 12
     \<and> 1 \<le> date_day d \<and> date_day d \<le> days_in_month (date_year d) (date_month d)"

definition days_before_year :: "nat \<Rightarrow> nat" where
  "days_before_year y =
     (let p = y - 1 in p * 365 + p div 4 - p div 100 + p div 400)"

fun days_before_month :: "nat \<Rightarrow> nat \<Rightarrow> nat" where
  "days_before_month y 0 = 0"
| "days_before_month y (Suc m) =
     (if m = 0 then 0 else days_before_month y m + days_in_month y m)"

definition toordinal :: "date \<Rightarrow> nat" where
  "toordinal d = days_before_year (date_year d)
     + days_before_month (date_year d) (date_month d) + date_day d"

definition next_day :: "date \<Rightarrow> date" where
  "next_day d =
     (if date_day d < days_in_month (date_year d) (date_month d)
      then Date (date_year d) (date_month d) (Suc (date_day d))
      else if date_month d < 12 then Date (date_year d) (Suc (date_month d)) 1
      else Date (Suc (date_year d)) 1 1)"

text \<open>\<open>d + timedelta(days=n)\<close> for a natural \<open>n\<close>, and \<open>(b - a).days\<close>.\<close>

definition add_days :: "date \<Rightarrow> nat \<Rightarrow> date" where
  "add_days d n = (next_day ^^ n) d"

definition days_between :: "date \<Rightarrow> date \<Rightarrow> int" where
  "days_between a b = int (toordinal b) - int (toordinal a)"

lemma days_in_month_pos: "1 \<le> days_in_month y m"
  by (simp add: days_in_month_def)

lemma days_before_year_Suc:
  assumes "1 \<le> y"
  shows "days_before_year (Suc y) = days_before_year y + (if is_leap y then 366 else 365)"
proof -
  obtain p where p: "y = Suc p" using assms by (cases y) auto
  have le: "q div 100 \<le> q div 4" for q :: nat by (rule div_le_mono2) auto
  have four: "Suc p div 4 = p div 4 + (if Suc p mod 4 = 0 then 1 else 0)"
    and hundred: "Suc p div 100 = p div 100 + (if Suc p mod 100 = 0 then 1 else 0)"
    and fourhundred: "Suc p div 400 = p div 400 + (if Suc p mod 400 = 0 then 1 else 0)"
    by (simp_all add: div_Suc)
  have "Suc p mod 100 = 0 \<Longrightarrow> Suc p mod 4 = 0" and "Suc p mod 400 = 0 \<Longrightarrow> Suc p mod 100 = 0"
    by presburger+
  then consider "Suc p mod 4 \<noteq> 0" "Suc p mod 100 \<noteq> 0" "Suc p mod 400 \<noteq> 0"
    | "Suc p mod 4 = 0" "Suc p mod 100 \<noteq> 0" "Suc p mod 400 \<noteq> 0"
    | "Suc p mod 4 = 0" "Suc p mod 100 = 0" "Suc p mod 400 \<noteq> 0"
    | "Suc p mod 4 = 0" "Suc p mod 100 = 0" "Suc p mod 400 = 0"
    by metis
  moreover have "days_before_year (Suc y)
      = 365 + p * 365 + Suc p div 4 - Suc p div 100 + Suc p div 400"
    and "days_before_year y = p * 365 + p div 4 - p div 100 + p div 400"
    by (simp_all add: days_before_year_def Let_def p)
  moreover have "365 + n + a - b + c = n + a - b + c + 365"
    and "365 + n + Suc a - b + c = n + a - b + c + 366"
    and "365 + n + Suc a - Suc b + c = n + a - b + c + 365"
    and "365 + n + Suc a - Suc b + Suc c = n + a - b + c + 366"
    if "b \<le> a" for n a b c :: nat
    using that by simp_all
  note sums = this [OF le [of p]]
  ultimately show ?thesis
    by cases (simp_all only: is_leap_def p four hundred fourhundred sums simp_thms if_True
        if_False One_nat_def add_0_right add_Suc_right)
qed

lemma days_before_month_13: "days_before_month y 12 + days_in_month y 12
    = (if is_leap y then 366 else 365)"
  by (simp add: eval_nat_numeral days_in_month_def)

lemma days_before_month_mono:
  "m \<le> n \<Longrightarrow> days_before_month y m \<le> days_before_month y n"
  by (induction n) (auto simp: le_Suc_eq)

lemma days_before_month_next:
  assumes "1 \<le> m" and "m < n"
  shows "days_before_month y m + days_in_month y m \<le> days_before_month y n"
proof -
  from assms have "days_before_month y (Suc m) \<le> days_before_month y n"
    by (intro days_before_month_mono) simp
  with assms(1) show ?thesis by simp
qed

lemma days_before_year_mono: "1 \<le> y \<Longrightarrow> y \<le> z \<Longrightarrow> days_before_year y \<le> days_before_year z"
proof (induction z)
  case (Suc z)
  then show ?case
    using days_before_year_Suc [of z] by (cases "y = Suc z") auto
qed simp

lemma day_of_year_bound:
  assumes "valid_date d"
  shows "days_before_month (date_year d) (date_month d) + date_day d
         \<le> (if is_leap (date_year d) then 366 else 365)"
proof -
  let ?y = "date_year d" and ?m = "date_month d"
  have "days_before_month ?y ?m + date_day d \<le> days_before_month ?y ?m + days_in_month ?y ?m"
    using assms by (simp add: valid_date_def)
  also have "\<dots> \<le> days_before_month ?y 12 + days_in_month ?y 12"
    using assms days_before_month_next [of ?m 12 ?y]
    by (cases "?m = 12") (auto simp: valid_date_def)
  finally show ?thesis by (simp only: days_before_month_13)
qed

lemma toordinal_less:
  assumes "valid_date a" and "valid_date b" and "a < b"
  shows "toordinal a < toordinal b"
proof -
  obtain y m d where a: "a = Date y m d" by (cases a)
  obtain y' m' d' where b: "b = Date y' m' d'" by (cases b)
  from assms(3) consider "y < y'" | "y = y'" "m < m'" | "y = y'" "m = m'" "d < d'"
    by (auto simp: a b less_date_def)
  then show ?thesis
  proof cases
    case 1
    have "toordinal a \<le> days_before_year (Suc y)"
      using day_of_year_bound [OF assms(1)] days_before_year_Suc [of y] assms(1)
      by (simp add: a toordinal_def valid_date_def)
    also have "\<dots> \<le> days_before_year y'"
      using 1 by (intro days_before_year_mono) auto
    also have "\<dots> < toordinal b"
      using assms(2) by (simp add: b toordinal_def valid_date_def)
    finally show ?thesis .
  next
    case 2
    then show ?thesis
      using days_before_month_next [of m m' y] assms(1,2)
      by (simp add: a b toordinal_def valid_date_def)
  next
    case 3
    then show ?thesis by (simp add: a b toordinal_def)
  qed
qed

lemma toordinal_le_iff:
  assumes "valid_date a" and "valid_date b"
  shows "a \<le> b \<longleftrightarrow> toordinal a \<le> toordinal b"
  using toordinal_less [OF assms] toordinal_less [OF assms(2,1)]
  by (metis leD leI linorder_cases nle_le)

lemma valid_next_day: "valid_date d \<Longrightarrow> valid_date (next_day d)"
  using days_in_month_pos by (auto simp: valid_date_def next_day_def)

lemma toordinal_next_day:
  assumes "valid_date d"
  shows "toordinal (next_day d) = Suc (toordinal d)"
proof -
  let ?y = "date_year d" and ?m = "date_month d"
  consider "date_day d < days_in_month ?y ?m"
    | "date_day d = days_in_month ?y ?m" "?m < 12"
    | "date_day d = days_in_month ?y ?m" "?m = 12"
    using assms unfolding valid_date_def by linarith
  then show ?thesis
  proof cases
    case 3
    then have "toordinal d = days_before_year (Suc ?y)"
      using assms days_before_month_13 [of ?y] days_before_year_Suc [of ?y]
      by (simp add: toordinal_def valid_date_def)
    with 3 show ?thesis by (simp add: next_day_def toordinal_def)
  qed (use assms in \<open>simp_all add: next_day_def toordinal_def valid_date_def\<close>)
qed

lemma valid_add_days: "valid_date d \<Longrightarrow> valid_date (add_days d n)"
  by (induction n) (simp_all add: add_days_def valid_next_day)

lemma toordinal_add_days: "valid_date d \<Longrightarrow> toordinal (add_days d n) = toordinal d + n"
  using valid_add_days
  by (induction n) (simp_all add: add_days_def toordinal_next_day)

lemma add_days_inj: "valid_date d \<Longrightarrow> add_days d i = add_days d j \<longleftrightarrow> i = j"
  by (metis add_left_cancel toordinal_add_days)

section \<open>Times of day\<close>

datatype time = Time (time_hour: nat) (time_minute: nat) (time_second: nat) (time_micro: nat)

instantiation time :: linorder
begin

fun less_eq_time :: "time \<Rightarrow> time \<Rightarrow> bool" where
  "less_eq_time (Time h m s u) (Time h' m' s' u') \<longleftrightarrow>
     h < h' \<or> (h = h' \<and> (m < m' \<or> (m = m' \<and> (s < s' \<or> (s = s' \<and> u \<le> u')))))"

definition less_time :: "time \<Rightarrow> time \<Rightarrow> bool" where
  "less_time a b \<longleftrightarrow> a \<le> b \<and> \<not> b \<le> a"

instance
proof
  fix a b c :: time
  show "a < b \<longleftrightarrow> a \<le> b \<and> \<not> b \<le> a" by (simp add: less_time_def)
  show "a \<le> a" by (cases a) auto
  show "a \<le> b \<Longrightarrow> b \<le> c \<Longrightarrow> a \<le> c" by (cases a; cases b; cases c) auto
  show "a \<le> b \<Longrightarrow> b \<le> a \<Longrightarrow> a = b" by (cases a; cases b) auto
  show "a \<le> b \<or> b \<le> a" by (cases a; cases b) auto
qed

end

definition valid_time :: "time \<Rightarrow> bool" where
  "valid_time t \<longleftrightarrow> time_hour t < 24 \<and> time_minute t < 60 \<and> time_second t < 60
     \<and> time_micro t < 1000000"

text \<open>\<open>t.hour * 60 + t.minute\<close>: seconds are dropped.\<close>

definition minute_of_day :: "time \<Rightarrow> int" where
  "minute_of_day t = int (time_hour t * 60 + time_minute t)"

lemma minute_of_day_mono:
  "valid_time s \<Longrightarrow> valid_time t \<Longrightarrow> s \<le> t \<Longrightarrow> minute_of_day s \<le> minute_of_day t"
  by (cases s; cases t) (auto simp: valid_time_def minute_of_day_def)

lemma minute_of_day_bounds: "valid_time t \<Longrightarrow> 0 \<le> minute_of_day t \<and> minute_of_day t \<le> 1439"
  by (auto simp: valid_time_def minute_of_day_def)

section \<open>ISO text\<close>

definition pad_zeros :: "nat \<Rightarrow> pystr \<Rightarrow> pystr" where
  "pad_zeros n s = replicate (n - length s) 48 @ s"

definition date_iso :: "date \<Rightarrow> pystr" where
  "date_iso d = pad_zeros 4 (nat_digits (date_year d)) @ [45]
     @ pad_zeros 2 (nat_digits (date_month d)) @ [45]
     @ pad_zeros 2 (nat_digits (date_day d))"

definition time_iso :: "time \<Rightarrow> pystr" where
  "time_iso t = pad_zeros 2 (nat_digits (time_hour t)) @ [58]
     @ pad_zeros 2 (nat_digits (time_minute t)) @ [58]
     @ pad_zeros 2 (nat_digits (time_second t))
     @ (if time_micro t = 0 then [] else [46] @ pad_zeros 6 (nat_digits (time_micro t)))"

text \<open>The value of a digit text, and the text of a number back.\<close>

definition digits_value :: "pystr \<Rightarrow> nat" where
  "digits_value s = foldl (\<lambda>a c. a * 10 + (c - 48)) 0 s"

lemma digits_value_snoc [simp]: "digits_value (s @ [c]) = digits_value s * 10 + (c - 48)"
  by (simp add: digits_value_def)

lemma digits_value_nat_digits [simp]: "digits_value (nat_digits n) = n"
proof (induction n rule: nat_digits.induct)
  case (1 n)
  show ?case
  proof (cases "n < 10")
    case True
    then show ?thesis by (subst nat_digits.simps) (simp add: digits_value_def)
  next
    case False
    with 1 have "digits_value (nat_digits (n div 10)) = n div 10" by simp
    with False show ?thesis by (subst nat_digits.simps) simp
  qed
qed

lemma digits_value_zeros [simp]: "digits_value (replicate k 48 @ s) = digits_value s"
  by (induction k) (simp_all add: digits_value_def)

lemma digits_value_pad [simp]: "digits_value (pad_zeros n s) = digits_value s"
  by (simp add: pad_zeros_def)

lemma nat_digits_range: "c \<in> set (nat_digits n) \<Longrightarrow> 48 \<le> c \<and> c \<le> 57"
proof (induction n rule: nat_digits.induct)
  case (1 n)
  then show ?case by (subst (asm) (2) nat_digits.simps) (auto split: if_splits)
qed

lemma pad_digits_no_dash: "\<forall>c \<in> set (pad_zeros n (nat_digits k)). c \<noteq> 45"
  by (auto simp: pad_zeros_def dest: nat_digits_range)

lemma split_at_dash:
  assumes "\<forall>c \<in> set a. c \<noteq> 45" and "\<forall>c \<in> set b. c \<noteq> (45 :: nat)"
    and "a @ 45 # x = b @ 45 # y"
  shows "a = b \<and> x = y"
proof -
  have "takeWhile (\<lambda>c. c \<noteq> 45) (a @ 45 # x) = a"
    and "takeWhile (\<lambda>c. c \<noteq> 45) (b @ 45 # y) = b"
    using assms(1,2) by (simp_all add: takeWhile_append2)
  with assms(3) show ?thesis by simp
qed

lemma date_iso_inj: "date_iso a = date_iso b \<Longrightarrow> a = b"
proof -
  assume eq: "date_iso a = date_iso b"
  note split = split_at_dash [OF pad_digits_no_dash pad_digits_no_dash]
  from eq have y: "pad_zeros 4 (nat_digits (date_year a)) = pad_zeros 4 (nat_digits (date_year b))"
    and rest: "pad_zeros 2 (nat_digits (date_month a)) @ [45] @ pad_zeros 2 (nat_digits (date_day a))
      = pad_zeros 2 (nat_digits (date_month b)) @ [45] @ pad_zeros 2 (nat_digits (date_day b))"
    unfolding date_iso_def by (auto dest: split)
  from rest have m: "pad_zeros 2 (nat_digits (date_month a)) = pad_zeros 2 (nat_digits (date_month b))"
    and d: "pad_zeros 2 (nat_digits (date_day a)) = pad_zeros 2 (nat_digits (date_day b))"
    by (auto dest: split)
  from y m d have "date_year a = date_year b" "date_month a = date_month b" "date_day a = date_day b"
    by (metis digits_value_nat_digits digits_value_pad)+
  then show ?thesis by (cases a; cases b) simp
qed

lemma tag_free_pad: "tag_free s \<Longrightarrow> tag_free (pad_zeros n s)"
  by (auto simp: pad_zeros_def tag_free_def)

lemma tag_free_date_iso: "tag_free (date_iso d)"
  by (simp add: date_iso_def tag_free_pad tag_free_nat_digits)

lemma tag_free_time_iso: "tag_free (time_iso t)"
  by (simp add: time_iso_def tag_free_pad tag_free_nat_digits)

section \<open>Reading a date text\<close>

text \<open>
  \<open>date.fromisoformat\<close> on the calendar forms \<open>YYYY-MM-DD\<close> and \<open>YYYYMMDD\<close>; \<open>None\<close> stands for
  \<open>ValueError\<close>. The ISO week forms, which the hub does not send, are read as \<open>None\<close>.
\<close>

definition is_digit :: "nat \<Rightarrow> bool" where
  "is_digit c \<longleftrightarrow> 48 \<le> c \<and> c \<le> 57"

definition date_from_digits :: "pystr \<Rightarrow> date option" where
  "date_from_digits s =
     (if length s = 8 \<and> list_all is_digit s then
        (let d = Date (digits_value (take 4 s)) (digits_value (take 2 (drop 4 s)))
                   (digits_value (drop 6 s))
         in if valid_date d then Some d else None)
      else None)"

definition fromisoformat :: "pystr \<Rightarrow> date option" where
  "fromisoformat s =
     (if length s = 10 \<and> s ! 4 = 45 \<and> s ! 7 = 45
      then date_from_digits (take 4 s @ take 2 (drop 5 s) @ drop 8 s)
      else date_from_digits s)"

end
