(* ===== verification/Errors.thy ===== *)
theory Errors
  imports PyValue
begin

text \<open>
  The exceptions the service raises or handles, Python's \<open>float\<close> conversion, and
  app/errors.py: the fixed failure codes a job may end with. The exception classes of httpx,
  asyncio and pydantic are constructors; the attributes the code reads from them (the response
  status and body, the raw model text, the truncation flag) are their arguments.
\<close>

section \<open>Exceptions\<close>

datatype pyexn =
    GeminiQuotaError pystr
  | StructuredOutputError pystr pystr bool   \<comment> \<open>raw text, text of the cause, truncated\<close>
  | LLMBudgetExceeded
  | CancelledError
  | AsyncTimeoutError
  | HttpTimeoutException
  | HTTPStatusError int "pyval option"       \<comment> \<open>status code, decoded body if it is JSON\<close>
  | HttpRequestError
  | ValidationError
  | ValueError
  | TypeError
  | KeyError
  | AttributeError
  | RuntimeError
  | OverflowError
  | UnboundLocalError
  | SealError
  | CheckpointSealError
  | JSONDecodeError

definition is_http_error :: "pyexn \<Rightarrow> bool" where
  "is_http_error e \<longleftrightarrow>
     (case e of HTTPStatusError _ _ \<Rightarrow> True | HttpTimeoutException \<Rightarrow> True
      | HttpRequestError \<Rightarrow> True | _ \<Rightarrow> False)"

text \<open>
  \<open>StructuredOutputError\<close>, pydantic's \<open>ValidationError\<close> and \<open>JSONDecodeError\<close> are subclasses of
  \<open>ValueError\<close>.
\<close>

definition is_value_error :: "pyexn \<Rightarrow> bool" where
  "is_value_error e \<longleftrightarrow>
     (case e of ValueError \<Rightarrow> True | ValidationError \<Rightarrow> True | JSONDecodeError \<Rightarrow> True
      | StructuredOutputError _ _ _ \<Rightarrow> True | _ \<Rightarrow> False)"

text \<open>
  \<open>GeminiQuotaError\<close> and \<open>LLMBudgetExceeded\<close> are subclasses of \<open>RuntimeError\<close>.
\<close>

definition is_runtime_error :: "pyexn \<Rightarrow> bool" where
  "is_runtime_error e \<longleftrightarrow>
     (case e of RuntimeError \<Rightarrow> True | GeminiQuotaError _ \<Rightarrow> True
      | LLMBudgetExceeded \<Rightarrow> True | _ \<Rightarrow> False)"

text \<open>Whether \<open>except Exception\<close> catches it: a cancellation passes through.\<close>

definition is_exception :: "pyexn \<Rightarrow> bool" where
  "is_exception e \<longleftrightarrow> e \<noteq> CancelledError"

fun exn_name :: "pyexn \<Rightarrow> string" where
  "exn_name (GeminiQuotaError _) = ''GeminiQuotaError''"
| "exn_name (StructuredOutputError _ _ _) = ''StructuredOutputError''"
| "exn_name LLMBudgetExceeded = ''LLMBudgetExceeded''"
| "exn_name CancelledError = ''CancelledError''"
| "exn_name AsyncTimeoutError = ''TimeoutError''"
| "exn_name HttpTimeoutException = ''TimeoutException''"
| "exn_name (HTTPStatusError _ _) = ''HTTPStatusError''"
| "exn_name HttpRequestError = ''RequestError''"
| "exn_name ValidationError = ''ValidationError''"
| "exn_name ValueError = ''ValueError''"
| "exn_name TypeError = ''TypeError''"
| "exn_name KeyError = ''KeyError''"
| "exn_name AttributeError = ''AttributeError''"
| "exn_name RuntimeError = ''RuntimeError''"
| "exn_name OverflowError = ''OverflowError''"
| "exn_name UnboundLocalError = ''UnboundLocalError''"
| "exn_name SealError = ''SealError''"
| "exn_name CheckpointSealError = ''CheckpointSealError''"
| "exn_name JSONDecodeError = ''JSONDecodeError''"

section \<open>Conversions that raise\<close>

text \<open>
  \<open>float(v)\<close>; the parsing of a numeral text is the parameter \<open>pf\<close>, with \<open>None\<close> for a text
  that is no numeral.
\<close>

fun py_float :: "(pystr \<Rightarrow> pyfloat option) \<Rightarrow> pyval \<Rightarrow> pyexn + pyfloat" where
  "py_float pf (PBool b) = Inr (Fin (if b then 1 else 0))"
| "py_float pf (PInt n) =
     (if \<bar>n\<bar> < 2 ^ 1024 - 2 ^ 970 then Inr (Fin (of_int n)) else Inl OverflowError)"
| "py_float pf (PFloat f) = Inr f"
| "py_float pf (PStr s) = (case pf s of Some f \<Rightarrow> Inr f | None \<Rightarrow> Inl ValueError)"
| "py_float pf _ = Inl TypeError"

section \<open>Failure codes\<close>

record failure_info =
  fi_error :: pystr
  fi_code :: pystr
  fi_retryable :: bool

definition failure :: "string \<Rightarrow> bool \<Rightarrow> failure_info" where
  "failure code retryable =
     \<lparr>fi_error = lit code, fi_code = lit code, fi_retryable = retryable\<rparr>"

text \<open>\<open>exc.response.json().get("detail")\<close>, with \<open>None\<close> when the body cannot be read so.\<close>

definition response_detail :: "pyval option \<Rightarrow> pyval" where
  "response_detail body =
     (case body of Some (PDict d) \<Rightarrow> dget d ''detail'' | _ \<Rightarrow> PNone)"

definition exception_failure :: "pyexn \<Rightarrow> failure_info" where
  "exception_failure exc =
     (case exc of
        GeminiQuotaError _ \<Rightarrow> failure ''quota_exceeded'' False
      | StructuredOutputError _ _ _ \<Rightarrow> failure ''selection_invalid'' False
      | LLMBudgetExceeded \<Rightarrow> failure ''selection_invalid'' False
      | CancelledError \<Rightarrow> failure ''upstream_unavailable'' True
      | AsyncTimeoutError \<Rightarrow> failure ''upstream_unavailable'' True
      | HttpTimeoutException \<Rightarrow> failure ''upstream_unavailable'' True
      | HTTPStatusError status body \<Rightarrow>
          (case response_detail body of
             PDict d \<Rightarrow>
               if dget d ''code'' = PStr (lit ''upstream_unavailable'')
               then failure ''upstream_unavailable'' (dget d ''retryable'' = PBool True)
               else if status = 429 then failure ''quota_exceeded'' False
               else failure ''upstream_unavailable'' (500 \<le> status)
           | _ \<Rightarrow>
               if status = 429 then failure ''quota_exceeded'' False
               else failure ''upstream_unavailable'' (500 \<le> status))
      | HttpRequestError \<Rightarrow> failure ''upstream_unavailable'' True
      | _ \<Rightarrow> failure ''generation_failed'' False)"

text \<open>The codes a failed job can carry.\<close>

definition failure_codes :: "pystr set" where
  "failure_codes = lit ` {''generation_failed'', ''quota_exceeded'', ''selection_invalid'',
     ''upstream_unavailable'', ''invalid_request'', ''no_matching_places'', ''generation_timeout''}"

lemma failure_simps [simp]:
  "fi_error (failure c r) = lit c"
  "fi_code (failure c r) = lit c"
  "fi_retryable (failure c r) = r"
  by (simp_all add: failure_def)

lemma exception_failure_cases:
  "exception_failure e \<in> {failure ''quota_exceeded'' False, failure ''selection_invalid'' False,
     failure ''upstream_unavailable'' True, failure ''upstream_unavailable'' False,
     failure ''generation_failed'' False}"
proof -
  have "failure ''upstream_unavailable'' b \<in> {failure ''quota_exceeded'' False,
     failure ''selection_invalid'' False, failure ''upstream_unavailable'' True,
     failure ''upstream_unavailable'' False, failure ''generation_failed'' False}" for b
    by (cases b) simp_all
  then show ?thesis
    by (auto simp: exception_failure_def split: pyexn.splits pyval.splits)
qed

lemma exception_failure_code:
  "fi_code (exception_failure e) \<in> failure_codes
   \<and> fi_error (exception_failure e) = fi_code (exception_failure e)"
  using exception_failure_cases [of e] by (auto simp: failure_codes_def)

lemma lit_eq_Nil [simp]: "lit s = [] \<longleftrightarrow> s = []"
  by (simp add: lit_def)

lemma lit_inject [simp]: "lit s = lit t \<longleftrightarrow> s = t"
proof
  assume "lit s = lit t"
  then have "map (of_char :: char \<Rightarrow> nat) s = map of_char t" by (simp add: lit_def)
  then show "s = t" by (rule map_injective) (simp add: inj_def)
qed simp

lemma exception_failure_nonempty: "fi_error (exception_failure e) \<noteq> []"
  using exception_failure_cases [of e] by auto

end
