(* ===== verification/Schemas.thy ===== *)
theory Schemas
  imports Calendar Errors
begin

text \<open>
  app/schemas/agent_schemas.py: the request, the place, the leg, the model's reply envelopes and
  the result payload, with the constraints and validators the schemas declare. Coercion of
  loosely typed JSON to numbers belongs to pydantic and is the parameter record \<open>pydantic\<close>; a
  field of type \<open>str\<close> accepts strings only. A schema that does not accept its input is \<open>None\<close>
  (a \<open>ValidationError\<close> in Python).
\<close>

record pydantic =
  pd_int :: "pyval \<Rightarrow> int option"
  pd_float :: "pyval \<Rightarrow> pyfloat option"
  pd_json :: "pystr \<Rightarrow> pyval option"

section \<open>Text validators\<close>

definition forbidden_text_char :: "nat \<Rightarrow> bool" where
  "forbidden_text_char c \<longleftrightarrow>
     c = 60 \<or> c = 62 \<or> c = 0xFF1C \<or> c = 0xFF1E
     \<or> c \<le> 8 \<or> c = 11 \<or> c = 12 \<or> (14 \<le> c \<and> c \<le> 31) \<or> (127 \<le> c \<and> c \<le> 159)
     \<or> (0x200B \<le> c \<and> c \<le> 0x200F) \<or> c = 0x2028 \<or> c = 0x2029
     \<or> (0x202A \<le> c \<and> c \<le> 0x202E) \<or> (0x2066 \<le> c \<and> c \<le> 0x2069)
     \<or> (0x2060 \<le> c \<and> c \<le> 0x2064) \<or> c = 0xFEFF
     \<or> (0xE0000 \<le> c \<and> c \<le> 0xE007F)"

definition text_ok :: "pystr \<Rightarrow> bool" where
  "text_ok s \<longleftrightarrow> \<not> (\<exists>c \<in> set s. forbidden_text_char c)"

definition bullet_max_len :: nat where
  "bullet_max_len = 80"

definition bullets_ok :: "pystr list \<Rightarrow> bool" where
  "bullets_ok bs \<longleftrightarrow>
     (\<forall>b \<in> set bs. strip b \<noteq> [] \<and> length b \<le> bullet_max_len \<and> text_ok b)"

lemma forbidden_iff_unsafe: "forbidden_text_char c \<longleftrightarrow> unsafe_char c"
  unfolding forbidden_text_char_def unsafe_char_def is_control_def is_tag_char_def by blast

lemma text_ok_iff_safe: "text_ok s \<longleftrightarrow> safe_text s"
  by (auto simp: text_ok_def safe_text_def forbidden_iff_unsafe)

definition opt_ok :: "('a \<Rightarrow> bool) \<Rightarrow> 'a option \<Rightarrow> bool" where
  "opt_ok P v \<longleftrightarrow> (case v of None \<Rightarrow> True | Some x \<Rightarrow> P x)"

lemma opt_ok_simps [simp]: "opt_ok P None" "opt_ok P (Some x) \<longleftrightarrow> P x"
  by (simp_all add: opt_ok_def)

section \<open>Request\<close>

datatype mobility = Walk | Bicycle | Scooter | Car | Transit

fun mobility_value :: "mobility \<Rightarrow> pystr" where
  "mobility_value Walk = lit ''walk''"
| "mobility_value Bicycle = lit ''bicycle''"
| "mobility_value Scooter = lit ''scooter''"
| "mobility_value Car = lit ''car''"
| "mobility_value Transit = lit ''transit''"

record date_range =
  dr_date_start :: date
  dr_date_end :: date
  dr_time_start :: time
  dr_time_end :: time

definition valid_date_range :: "date_range \<Rightarrow> bool" where
  "valid_date_range d \<longleftrightarrow> valid_date (dr_date_start d) \<and> valid_date (dr_date_end d)
     \<and> valid_time (dr_time_start d) \<and> valid_time (dr_time_end d)"

record selected_place =
  sp_name :: pystr
  sp_address :: pystr
  sp_lat :: real
  sp_lng :: real
  sp_day :: int
  sp_content_id :: "pystr option"
  sp_category :: "pystr option"

definition category_max :: nat where
  "category_max = 80"

definition valid_selected :: "selected_place \<Rightarrow> bool" where
  "valid_selected p \<longleftrightarrow>
     1 \<le> length (sp_name p) \<and> length (sp_name p) \<le> 80 \<and> text_ok (sp_name p)
     \<and> length (sp_address p) \<le> 200 \<and> text_ok (sp_address p)
     \<and> 33 \<le> sp_lat p \<and> sp_lat p \<le> 43 \<and> 124 \<le> sp_lng p \<and> sp_lng p \<le> 132
     \<and> 1 \<le> sp_day p
     \<and> opt_ok (\<lambda>c. length c \<le> 64 \<and> text_ok c) (sp_content_id p)
     \<and> opt_ok (\<lambda>c. c \<noteq> [] \<and> length c \<le> category_max \<and> text_ok c) (sp_category p)"

text \<open>\<open>_tidy_category\<close>: made harmless, stripped, cut; an empty rest is \<open>None\<close>.\<close>

definition tidy_category :: "pystr \<Rightarrow> pystr option" where
  "tidy_category value =
     (let tidy = take category_max (strip (neutralize_text value))
      in if tidy = [] then None else Some tidy)"

text \<open>So the category of a parsed place always satisfies its clause of \<open>valid_selected\<close>.\<close>

lemma tidy_category_ok:
  "opt_ok (\<lambda>c. c \<noteq> [] \<and> length c \<le> category_max \<and> text_ok c) (tidy_category v)"
proof -
  have "set (take category_max (strip (neutralize_text v))) \<subseteq> set (neutralize_text v)"
    using set_take_subset set_strip by (rule order_trans)
  then have "safe_text (take category_max (strip (neutralize_text v)))"
    using neutralize_text_safe by (rule safe_text_subset)
  then show ?thesis by (simp add: tidy_category_def Let_def text_ok_iff_safe)
qed

definition bounded_float :: "real \<Rightarrow> real \<Rightarrow> pyfloat \<Rightarrow> real option" where
  "bounded_float lo hi f =
     (case f of Fin r \<Rightarrow> if lo \<le> r \<and> r \<le> hi then Some r else None | _ \<Rightarrow> None)"

fun opt_str_field :: "pyval \<Rightarrow> pystr option option" where
  "opt_str_field PNone = Some None"
| "opt_str_field (PStr s) = Some (Some s)"
| "opt_str_field _ = None"

definition opt_int_field :: "pydantic \<Rightarrow> pyval \<Rightarrow> int option option" where
  "opt_int_field pd v = (if v = PNone then Some None else map_option Some (pd_int pd v))"

definition opt_float_field :: "pydantic \<Rightarrow> pyval \<Rightarrow> pyfloat option option" where
  "opt_float_field pd v = (if v = PNone then Some None else map_option Some (pd_float pd v))"

text \<open>\<open>SelectedPlace.model_validate\<close> on a decoded JSON value.\<close>

definition parse_selected :: "pydantic \<Rightarrow> pyval \<Rightarrow> selected_place option" where
  "parse_selected pd v =
     Option.bind (as_dict v) (\<lambda>d.
     Option.bind (as_str (dget d ''name'')) (\<lambda>name.
     Option.bind (if dget d ''address'' = PNone then Some [] else as_str (dget d ''address''))
       (\<lambda>address.
     Option.bind (Option.bind (pd_float pd (dget d ''lat'')) (bounded_float 33 43)) (\<lambda>lat.
     Option.bind (Option.bind (pd_float pd (dget d ''lng'')) (bounded_float 124 132)) (\<lambda>lng.
     Option.bind (if dget d ''day'' = PNone then Some 1 else pd_int pd (dget d ''day'')) (\<lambda>day.
     Option.bind (opt_str_field (dget d ''content_id'')) (\<lambda>cid.
     Option.bind (opt_str_field (dget d ''category'')) (\<lambda>cat.
       (let p = \<lparr>sp_name = name, sp_address = address, sp_lat = lat, sp_lng = lng,
                 sp_day = day, sp_content_id = cid,
                 sp_category = Option.bind cat tidy_category\<rparr>
        in if valid_selected p then Some p else None)))))))))"

datatype stage = StageInit | StageMode1 | StageRoute

record request =
  rq_date :: date_range
  rq_budget :: "int option"
  rq_theme :: "pystr list option"
  rq_mobility :: "mobility option"
  rq_province :: pystr
  rq_city :: pystr
  rq_schedule_id :: "pystr option"
  rq_stage :: stage
  rq_optimize :: bool
  rq_exclude :: "pystr list option"
  rq_places :: "selected_place list option"
  rq_loc :: "pystr option"

definition valid_request :: "request \<Rightarrow> bool" where
  "valid_request r \<longleftrightarrow> valid_date_range (rq_date r)
     \<and> 1 \<le> length (rq_province r) \<and> length (rq_province r) \<le> 20
     \<and> 1 \<le> length (rq_city r) \<and> length (rq_city r) \<le> 20
     \<and> opt_ok (\<lambda>s. length s \<le> 64) (rq_schedule_id r)
     \<and> opt_ok (\<lambda>xs. length xs \<le> 50 \<and> (\<forall>x \<in> set xs. 1 \<le> length x \<and> length x \<le> 64))
         (rq_exclude r)
     \<and> opt_ok (\<lambda>ps. 1 \<le> length ps \<and> length ps \<le> 10 \<and> (\<forall>p \<in> set ps. valid_selected p))
         (rq_places r)
     \<and> opt_ok (\<lambda>s. length s \<le> 8192) (rq_loc r)"

text \<open>\<open>req.places or []\<close>.\<close>

definition given_places :: "request \<Rightarrow> selected_place list" where
  "given_places r = (case rq_places r of None \<Rightarrow> [] | Some ps \<Rightarrow> ps)"

lemma given_places_valid: "valid_request r \<Longrightarrow> p \<in> set (given_places r) \<Longrightarrow> valid_selected p"
  by (cases "rq_places r") (auto simp: valid_request_def given_places_def)

section \<open>Places and legs\<close>

record place =
  pl_id :: int
  pl_day :: int
  pl_name :: pystr
  pl_address :: pystr
  pl_lat :: real
  pl_lng :: real
  pl_visit_time :: pystr
  pl_content_id :: "pystr option"
  pl_source :: "pystr option"
  pl_category :: "pystr option"
  pl_group_code :: "pystr option"
  pl_phone :: "pystr option"
  pl_place_url :: "pystr option"
  pl_crs_km :: "pyfloat option"
  pl_crs_min :: "int option"
  pl_crs_level :: "int option"
  pl_brd_div :: "pystr option"
  pl_gpx_url :: "pystr option"
  pl_route_idx :: "pystr option"
  pl_grounded :: bool
  pl_stay_minutes :: "int option"
  pl_visit_start :: "pystr option"
  pl_visit_end :: "pystr option"
  pl_stay_source :: "pystr option"
  pl_reason :: "pystr option"
  pl_bullets :: "pystr list option"

definition valid_place :: "place \<Rightarrow> bool" where
  "valid_place p \<longleftrightarrow>
     1 \<le> pl_day p
     \<and> 1 \<le> length (pl_name p) \<and> length (pl_name p) \<le> 80 \<and> text_ok (pl_name p)
     \<and> length (pl_address p) \<le> 200 \<and> text_ok (pl_address p)
     \<and> 33 \<le> pl_lat p \<and> pl_lat p \<le> 43 \<and> 124 \<le> pl_lng p \<and> pl_lng p \<le> 132
     \<and> length (pl_visit_time p) \<le> 50 \<and> text_ok (pl_visit_time p)
     \<and> opt_ok text_ok (pl_content_id p) \<and> opt_ok text_ok (pl_source p)
     \<and> opt_ok text_ok (pl_category p) \<and> opt_ok text_ok (pl_group_code p)
     \<and> opt_ok text_ok (pl_phone p) \<and> opt_ok text_ok (pl_place_url p)
     \<and> opt_ok text_ok (pl_brd_div p) \<and> opt_ok text_ok (pl_gpx_url p)
     \<and> opt_ok text_ok (pl_route_idx p)
     \<and> opt_ok (\<lambda>n. 0 \<le> n \<and> n \<le> 1440) (pl_stay_minutes p)
     \<and> opt_ok (\<lambda>s. length s \<le> 5) (pl_visit_start p)
     \<and> opt_ok (\<lambda>s. length s \<le> 5) (pl_visit_end p)
     \<and> opt_ok (\<lambda>s. length s \<le> 16) (pl_stay_source p)
     \<and> opt_ok (\<lambda>s. length s \<le> 200 \<and> text_ok s) (pl_reason p)
     \<and> opt_ok (\<lambda>bs. length bs \<le> 2 \<and> bullets_ok bs) (pl_bullets p)"

record leg =
  lg_from :: int
  lg_to :: int
  lg_mode :: mobility
  lg_km :: real
  lg_min :: int

definition valid_leg :: "leg \<Rightarrow> bool" where
  "valid_leg l \<longleftrightarrow> 0 \<le> lg_km l \<and> 0 \<le> lg_min l"

section \<open>Reply envelopes of the model\<close>

record place_selection =
  sel_index :: int
  sel_day :: int
  sel_visit_time :: pystr

definition valid_selection :: "place_selection \<Rightarrow> bool" where
  "valid_selection s \<longleftrightarrow> 0 \<le> sel_index s \<and> 1 \<le> sel_day s
     \<and> length (sel_visit_time s) \<le> 50 \<and> text_ok (sel_visit_time s)"

definition parse_selection :: "pydantic \<Rightarrow> pyval \<Rightarrow> place_selection option" where
  "parse_selection pd v =
     Option.bind (as_dict v) (\<lambda>d.
     Option.bind (pd_int pd (dget d ''index'')) (\<lambda>index.
     Option.bind (pd_int pd (dget d ''day'')) (\<lambda>day.
     Option.bind (as_str (dget d ''recommended_visit_time'')) (\<lambda>t.
       (let s = \<lparr>sel_index = index, sel_day = day, sel_visit_time = t\<rparr>
        in if valid_selection s then Some s else None)))))"

text \<open>A list field: every element must parse.\<close>

definition parse_items :: "(pyval \<Rightarrow> 'a option) \<Rightarrow> pyval \<Rightarrow> 'a list option" where
  "parse_items f v = Option.bind (as_list v) (\<lambda>xs. those (map f xs))"

definition parse_places_selection :: "pydantic \<Rightarrow> pyval \<Rightarrow> place_selection list option" where
  "parse_places_selection pd v =
     Option.bind (as_dict v) (\<lambda>d. parse_items (parse_selection pd) (dget d ''selections''))"

record place_reason =
  rs_place_id :: int
  rs_reason :: pystr

definition valid_reason :: "place_reason \<Rightarrow> bool" where
  "valid_reason r \<longleftrightarrow> 1 \<le> length (rs_reason r) \<and> length (rs_reason r) \<le> 200
     \<and> text_ok (rs_reason r)"

definition parse_reason :: "pydantic \<Rightarrow> pyval \<Rightarrow> place_reason option" where
  "parse_reason pd v =
     Option.bind (as_dict v) (\<lambda>d.
     Option.bind (pd_int pd (dget d ''place_id'')) (\<lambda>pid.
     Option.bind (as_str (dget d ''reason'')) (\<lambda>t.
       (let r = \<lparr>rs_place_id = pid, rs_reason = t\<rparr>
        in if valid_reason r then Some r else None))))"

record reason_envelope =
  re_reasons :: "place_reason list"
  re_clothing :: pystr

definition valid_reason_envelope :: "reason_envelope \<Rightarrow> bool" where
  "valid_reason_envelope e \<longleftrightarrow> (\<forall>r \<in> set (re_reasons e). valid_reason r)
     \<and> 1 \<le> length (re_clothing e) \<and> length (re_clothing e) \<le> 300 \<and> text_ok (re_clothing e)"

definition parse_reason_envelope :: "pydantic \<Rightarrow> pyval \<Rightarrow> reason_envelope option" where
  "parse_reason_envelope pd v =
     Option.bind (as_dict v) (\<lambda>d.
     Option.bind (parse_items (parse_reason pd) (dget d ''reasons'')) (\<lambda>rs.
     Option.bind (as_str (dget d ''clothing'')) (\<lambda>c.
       (let e = \<lparr>re_reasons = rs, re_clothing = c\<rparr>
        in if valid_reason_envelope e then Some e else None))))"

record place_bullets =
  pb_place_id :: int
  pb_bullets :: "pystr list"

definition valid_place_bullets :: "place_bullets \<Rightarrow> bool" where
  "valid_place_bullets b \<longleftrightarrow> 1 \<le> length (pb_bullets b) \<and> length (pb_bullets b) \<le> 4
     \<and> bullets_ok (pb_bullets b)"

definition parse_place_bullets :: "pydantic \<Rightarrow> pyval \<Rightarrow> place_bullets option" where
  "parse_place_bullets pd v =
     Option.bind (as_dict v) (\<lambda>d.
     Option.bind (pd_int pd (dget d ''place_id'')) (\<lambda>pid.
     Option.bind (parse_items as_str (dget d ''bullets'')) (\<lambda>bs.
       (let b = \<lparr>pb_place_id = pid, pb_bullets = bs\<rparr>
        in if valid_place_bullets b then Some b else None))))"

definition parse_bullets_envelope :: "pydantic \<Rightarrow> pyval \<Rightarrow> place_bullets list option" where
  "parse_bullets_envelope pd v =
     Option.bind (as_dict v) (\<lambda>d. parse_items (parse_place_bullets pd) (dget d ''items''))"

text \<open>A place a model makes up; the schema is kept, but no node asks for one any more.\<close>

record invented_place =
  iv_day :: int
  iv_name :: pystr
  iv_address :: pystr
  iv_lat :: real
  iv_lng :: real
  iv_visit_time :: pystr

definition valid_invented :: "invented_place \<Rightarrow> bool" where
  "valid_invented p \<longleftrightarrow> 1 \<le> iv_day p \<and> 1 \<le> length (iv_name p) \<and> length (iv_name p) \<le> 80
     \<and> length (iv_address p) \<le> 200 \<and> length (iv_visit_time p) \<le> 50
     \<and> text_ok (iv_name p) \<and> text_ok (iv_address p) \<and> text_ok (iv_visit_time p)"

definition parse_invented :: "pydantic \<Rightarrow> pyval \<Rightarrow> invented_place option" where
  "parse_invented pd v =
     Option.bind (as_dict v) (\<lambda>d.
     Option.bind (pd_int pd (dget d ''day'')) (\<lambda>day.
     Option.bind (as_str (dget d ''name'')) (\<lambda>name.
     Option.bind (as_str (dget d ''address'')) (\<lambda>address.
     Option.bind (Option.bind (pd_float pd (dget d ''lat'')) (bounded_float 33 43)) (\<lambda>lat.
     Option.bind (Option.bind (pd_float pd (dget d ''lng'')) (bounded_float 124 132)) (\<lambda>lng.
     Option.bind (as_str (dget d ''recommended_visit_time'')) (\<lambda>t.
       (let p = \<lparr>iv_day = day, iv_name = name, iv_address = address, iv_lat = lat, iv_lng = lng, iv_visit_time = t\<rparr>
        in if valid_invented p then Some p else None))))))))"

definition parse_invented_places :: "pydantic \<Rightarrow> pyval \<Rightarrow> invented_place list option" where
  "parse_invented_places pd v =
     Option.bind (as_dict v) (\<lambda>d. parse_items (parse_invented pd) (dget d ''places''))"

lemma those_Some_iff: "those xs = Some ys \<longleftrightarrow> xs = map Some ys"
  by (induction xs arbitrary: ys) (auto split: option.splits)

lemma parse_items_all:
  assumes "parse_items f v = Some ys" and "\<And>x y. f x = Some y \<Longrightarrow> P y"
  shows "\<forall>y \<in> set ys. P y"
proof -
  from assms(1) obtain xs where "map f xs = map Some ys"
    by (auto simp: parse_items_def bind_eq_Some_conv those_Some_iff)
  then have "\<exists>x \<in> set xs. f x = Some y" if "y \<in> set ys" for y
    using that by (metis imageE imageI list.set_map)
  with assms(2) show ?thesis by blast
qed

lemma parse_selection_valid: "parse_selection pd v = Some s \<Longrightarrow> valid_selection s"
  by (auto simp: parse_selection_def bind_eq_Some_conv Let_def split: if_splits)

text \<open>What comes out lies in the country and has no markup in it.\<close>

lemma parse_invented_valid:
  "parse_invented pd v = Some p \<Longrightarrow>
     valid_invented p \<and> 33 \<le> iv_lat p \<and> iv_lat p \<le> 43 \<and> 124 \<le> iv_lng p \<and> iv_lng p \<le> 132"
  by (auto simp: parse_invented_def bind_eq_Some_conv Let_def bounded_float_def split: if_splits pyfloat.splits)

lemma parse_invented_places_valid:
  "parse_invented_places pd v = Some ps \<Longrightarrow> \<forall>p \<in> set ps. valid_invented p"
  by (auto simp: parse_invented_places_def bind_eq_Some_conv
      dest!: parse_items_all [OF _ conjunct1 [OF parse_invented_valid]])

lemma parse_reason_envelope_valid:
  "parse_reason_envelope pd v = Some e \<Longrightarrow> valid_reason_envelope e"
  by (auto simp: parse_reason_envelope_def bind_eq_Some_conv Let_def split: if_splits)

lemma parse_place_bullets_valid: "parse_place_bullets pd v = Some b \<Longrightarrow> valid_place_bullets b"
  by (auto simp: parse_place_bullets_def bind_eq_Some_conv Let_def split: if_splits)

lemma parse_places_selection_valid:
  "parse_places_selection pd v = Some ss \<Longrightarrow> \<forall>s \<in> set ss. valid_selection s"
  by (auto simp: parse_places_selection_def bind_eq_Some_conv
      dest!: parse_items_all [OF _ parse_selection_valid])

lemma parse_bullets_envelope_valid:
  "parse_bullets_envelope pd v = Some bs \<Longrightarrow> \<forall>b \<in> set bs. valid_place_bullets b"
  by (auto simp: parse_bullets_envelope_def bind_eq_Some_conv
      dest!: parse_items_all [OF _ parse_place_bullets_valid])

section \<open>Result payload\<close>

datatype job_status = Done | Failed

datatype timeline_status = TimelineOk | Trimmed | Unverified

record payload =
  jp_job_id :: pystr
  jp_status :: job_status
  jp_places :: "place list option"
  jp_visit_order :: "int list option"
  jp_legs :: "leg list option"
  jp_clothing :: "pystr option"
  jp_timeline_status :: "timeline_status option"
  jp_warnings :: "pystr list option"
  jp_error :: "pystr option"
  jp_code :: "pystr option"
  jp_retryable :: "bool option"

text \<open>\<open>JobDonePayload(job_id=..., status="failed", **failure(code, retryable))\<close>.\<close>

definition failed_payload :: "pystr \<Rightarrow> pystr \<Rightarrow> bool \<Rightarrow> payload" where
  "failed_payload job code retryable =
     \<lparr>jp_job_id = job, jp_status = Failed, jp_places = None, jp_visit_order = None,
      jp_legs = None, jp_clothing = None, jp_timeline_status = None, jp_warnings = None,
      jp_error = Some code, jp_code = Some code, jp_retryable = Some retryable\<rparr>"

end
