(* ===== verification/State.thy ===== *)
theory State
  imports Schemas
begin

text \<open>
  The state the pipeline nodes pass along (\<open>AgentState\<close> of app/nodes/agent_nodes.py), the settings
  they read (app/agent_settings.py) and the environment they call: the hub client, the model
  transport and the conversions of the Python run-time that are parameters of the model. A key the
  code reads with \<open>state.get(k)\<close> and treats alike when it is absent or empty is a plain list here;
  the others are options. A node is a function \<open>env \<Rightarrow> agent_state \<Rightarrow> pyexn + agent_state\<close>:
  \<open>Inl\<close> is an exception that leaves the node and ends the run.
\<close>

section \<open>Settings\<close>

record settings =
  cf_max_calls :: nat
  cf_model :: pystr
  cf_reviews_enrich :: bool
  cf_reviews_max_places :: int
  cf_reviews_display :: nat
  cf_reviews_cap :: int
  cf_cand_base :: int
  cf_cand_per_day :: int
  cf_personalization :: bool
  cf_training :: bool
  cf_stats_path :: pystr
  cf_rules :: bool
  cf_timeline :: bool
  cf_buffer :: int

text \<open>The defaults of \<open>AgentSettings\<close>.\<close>

definition default_settings :: settings where
  "default_settings =
     \<lparr>cf_max_calls = 3, cf_model = lit ''gemini-3.8-flash'', cf_reviews_enrich = True,
      cf_reviews_max_places = 3, cf_reviews_display = 5, cf_reviews_cap = 10,
      cf_cand_base = 40, cf_cand_per_day = 12, cf_personalization = True, cf_training = False,
      cf_stats_path = [], cf_rules = True, cf_timeline = True, cf_buffer = 10\<rparr>"

section \<open>State\<close>

type_synonym pydict = "(pystr \<times> pyval) list"

record plan_day =
  pn_day :: int
  pn_target :: int
  pn_indoor :: real
  pn_pop :: "int option"

record plan =
  pn_days :: "plan_day list"
  pn_pace :: pystr

record slot =
  sl_stay :: int
  sl_start :: pystr
  sl_end :: pystr
  sl_source :: "pystr option"

record usage =
  us_prompt :: "int option"
  us_output :: "int option"
  us_total :: "int option"

text \<open>The two keys that \<open>call_structured\<close> reads and writes in the state of any pipeline.\<close>

record ledger =
  st_llm_used :: nat
  st_usage :: "usage list"

record agent_state = ledger +
  st_job :: pystr
  st_request :: request
  st_weather :: "pyval option"
  st_candidates :: "pydict list"
  st_grounded :: bool
  st_scores :: "(pyval \<times> pyfloat) list"
  st_reviews :: "(pyval \<times> pystr list) list"
  st_reviews_used :: nat
  st_places :: "place list option"
  st_pinned :: "pystr list option"
  st_order :: "int list option"
  st_legs :: "leg list option"
  st_reasons :: "(int \<times> pystr) list"
  st_clothing :: "pystr option"
  st_summaries :: "(int \<times> pystr list) list"
  st_plan :: "plan option"
  st_timeline :: "(int \<times> slot) list"
  st_tl_status :: "timeline_status option"
  st_overflow :: "int list"
  st_warnings :: "pystr list"
  st_degraded :: "pystr option"
  st_path :: "pystr option"
  st_error :: "pystr option"
  st_code :: "pystr option"
  st_retryable :: "bool option"

text \<open>The state \<open>_run_job\<close> starts the graph with: the two required keys.\<close>

definition start_state :: "pystr \<Rightarrow> request \<Rightarrow> agent_state" where
  "start_state job r =
     \<lparr>st_llm_used = 0, st_usage = [], st_job = job, st_request = r, st_weather = None, st_candidates = [], st_grounded = False,
      st_scores = [], st_reviews = [], st_reviews_used = 0, st_places = None, st_pinned = None,
      st_order = None, st_legs = None, st_reasons = [],
      st_clothing = None, st_summaries = [], st_plan = None, st_timeline = [],
      st_tl_status = None, st_overflow = [], st_warnings = [], st_degraded = None,
      st_path = None, st_error = None, st_code = None, st_retryable = None\<rparr>"

text \<open>\<open>state.get("error")\<close> as a condition.\<close>

definition has_error :: "agent_state \<Rightarrow> bool" where
  "has_error s \<longleftrightarrow> (case st_error s of None \<Rightarrow> False | Some e \<Rightarrow> e \<noteq> [])"

text \<open>The three assignments that every failing branch makes.\<close>

definition fail_with :: "string \<Rightarrow> string \<Rightarrow> agent_state \<Rightarrow> agent_state" where
  "fail_with err code s =
     s\<lparr>st_error := Some (lit err), st_code := Some (lit code), st_retryable := Some False\<rparr>"

text \<open>\<open>state.update(exception_failure(exc))\<close> and \<open>state.update(failure(code))\<close>.\<close>

definition update_failure :: "failure_info \<Rightarrow> agent_state \<Rightarrow> agent_state" where
  "update_failure f s =
     s\<lparr>st_error := Some (fi_error f), st_code := Some (fi_code f),
       st_retryable := Some (fi_retryable f)\<rparr>"

definition places_of :: "agent_state \<Rightarrow> place list" where
  "places_of s = (case st_places s of None \<Rightarrow> [] | Some ps \<Rightarrow> ps)"

text \<open>\<open>_add_warning\<close>: no repetitions, first come first kept.\<close>

definition add_warning :: "pystr \<Rightarrow> agent_state \<Rightarrow> agent_state" where
  "add_warning message s =
     s\<lparr>st_warnings := (if message \<in> set (st_warnings s) then st_warnings s
                       else st_warnings s @ [message])\<rparr>"

lemma has_error_fail_with [simp]: "err \<noteq> [] \<Longrightarrow> has_error (fail_with err code s)"
  by (simp add: has_error_def fail_with_def)

lemma fail_with_fields [simp]:
  "st_job (fail_with e c s) = st_job s"
  "st_request (fail_with e c s) = st_request s"
  "st_llm_used (fail_with e c s) = st_llm_used s"
  "st_error (fail_with e c s) = Some (lit e)"
  "st_code (fail_with e c s) = Some (lit c)"
  "st_retryable (fail_with e c s) = Some False"
  "st_places (fail_with e c s) = st_places s"
  "st_warnings (fail_with e c s) = st_warnings s"
  "st_plan (fail_with e c s) = st_plan s"
  by (simp_all add: fail_with_def)

lemma update_failure_fields [simp]:
  "st_job (update_failure f s) = st_job s"
  "st_request (update_failure f s) = st_request s"
  "st_llm_used (update_failure f s) = st_llm_used s"
  "st_error (update_failure f s) = Some (fi_error f)"
  "st_code (update_failure f s) = Some (fi_code f)"
  "st_retryable (update_failure f s) = Some (fi_retryable f)"
  "st_places (update_failure f s) = st_places s"
  "st_plan (update_failure f s) = st_plan s"
  by (simp_all add: update_failure_def)

lemma has_error_update_failure [simp]:
  "has_error (update_failure (exception_failure e) s)"
  by (simp add: has_error_def exception_failure_nonempty)

lemma has_error_update_failure_code [simp]:
  "c \<noteq> [] \<Longrightarrow> has_error (update_failure (failure c b) s)"
  by (simp add: has_error_def)

lemma add_warning_fields [simp]:
  "st_job (add_warning w s) = st_job s"
  "st_request (add_warning w s) = st_request s"
  "st_llm_used (add_warning w s) = st_llm_used s"
  "st_error (add_warning w s) = st_error s"
  "st_places (add_warning w s) = st_places s"
  "st_order (add_warning w s) = st_order s"
  "st_legs (add_warning w s) = st_legs s"
  "st_plan (add_warning w s) = st_plan s"
  "st_timeline (add_warning w s) = st_timeline s"
  "st_overflow (add_warning w s) = st_overflow s"
  "st_pinned (add_warning w s) = st_pinned s"
  "has_error (add_warning w s) = has_error s"
  by (simp_all add: add_warning_def has_error_def)

lemma distinct_add_warning: "distinct (st_warnings s) \<Longrightarrow> distinct (st_warnings (add_warning w s))"
  by (simp add: add_warning_def)

section \<open>Environment\<close>

text \<open>
  A reply of the model transport: the text, the reported token counts and the name of the finish
  reason. The call is given the number of calls the job has made so far, so that two calls with
  the same prompt may get different replies; the limiter's refusal, a timeout and every other
  exception of the transport are \<open>Inl\<close>.
\<close>

record reply =
  ry_text :: "pystr option"
  ry_usage :: "usage option"
  ry_finish :: "pystr option"

record env =
  en_settings :: settings
  en_frepr :: "real \<Rightarrow> pystr"                  \<comment> \<open>shortest decimal text of a float\<close>
  en_repr :: "pyval \<Rightarrow> pystr"                  \<comment> \<open>\<open>str\<close> of a float or a container\<close>
  en_pf :: "pystr \<Rightarrow> pyfloat option"           \<comment> \<open>\<open>float\<close> of a text\<close>
  en_pi :: "pystr \<Rightarrow> int option"               \<comment> \<open>\<open>int\<close> of a text\<close>
  en_pd :: pydantic
  en_cause :: "pystr \<Rightarrow> pystr"                 \<comment> \<open>text of the validation error of a body\<close>
  en_stats :: "pystr \<Rightarrow> pyval option"          \<comment> \<open>the decoded statistics file\<close>
  en_model :: "nat \<Rightarrow> pystr \<Rightarrow> pystr \<Rightarrow> pyexn + reply"  \<comment> \<open>call, system text, prompt\<close>
  en_weather :: "pystr \<Rightarrow> pystr \<Rightarrow> date \<Rightarrow> date \<Rightarrow> pyexn + pyval"
  en_search :: "pystr \<Rightarrow> pystr \<Rightarrow> pystr option \<Rightarrow> pystr option \<Rightarrow> nat \<Rightarrow> pyexn + pyval"
  en_reviews :: "nat \<Rightarrow> pystr \<Rightarrow> nat \<Rightarrow> pyexn + pyval"
  en_radius :: "pyfloat \<times> pyfloat \<Rightarrow> pystr \<Rightarrow> pydict list \<Rightarrow> pyexn + pyval"
  en_bonus :: "(pyval \<times> bool \<times> real) list \<Rightarrow> pyfloat option \<Rightarrow> pyexn + pyval"
  en_dwell :: "(pystr \<times> pystr option \<times> int option) list \<Rightarrow> pyexn + pyval"
  en_nan_order :: "pyfloat list \<Rightarrow> nat list"       \<comment> \<open>where sorting leaves keys with a NaN among them\<close>

type_synonym node = "env \<Rightarrow> agent_state \<Rightarrow> pyexn + agent_state"

text \<open>\<open>str(v)\<close>.\<close>

definition py_str :: "env \<Rightarrow> pyval \<Rightarrow> pystr" where
  "py_str E v =
     (case v of
        PStr s \<Rightarrow> s
      | PInt n \<Rightarrow> int_text n
      | PBool b \<Rightarrow> lit (if b then ''True'' else ''False'')
      | PNone \<Rightarrow> lit ''None''
      | _ \<Rightarrow> en_repr E v)"

text \<open>
  The key a value is stored under in a set or a dict: equal numbers are one key, whatever their
  type. A container cannot be hashed.
\<close>

fun hash_key :: "pyval \<Rightarrow> pyexn + pyval" where
  "hash_key (PBool b) = Inr (PInt (if b then 1 else 0))"
| "hash_key (PFloat (Fin r)) = Inr (if r = of_int \<lfloor>r\<rfloor> then PInt \<lfloor>r\<rfloor> else PFloat (Fin r))"
| "hash_key (PList xs) = Inl TypeError"
| "hash_key (PDict d) = Inl TypeError"
| "hash_key v = Inr v"

text \<open>
  Iterating over \<open>v or []\<close>: a list gives its members, a string its characters, a dict its keys;
  other truthy values are not iterable.
\<close>

definition iter_or_empty :: "pyval \<Rightarrow> pyexn + pyval list" where
  "iter_or_empty v =
     (if \<not> truthy v then Inr []
      else case v of
          PList xs \<Rightarrow> Inr xs
        | PStr s \<Rightarrow> Inr (map (\<lambda>c. PStr [c]) s)
        | PDict d \<Rightarrow> Inr (map (\<lambda>kv. PStr (fst kv)) d)
        | _ \<Rightarrow> Inl TypeError)"

text \<open>\<open>[d for d in xs if isinstance(d, dict)]\<close>.\<close>

definition dicts_of :: "pyval list \<Rightarrow> pydict list" where
  "dicts_of xs = List.map_filter as_dict xs"

lemma dicts_of_simps [simp]:
  "dicts_of [] = []"
  "dicts_of (PDict d # xs) = d # dicts_of xs"
  "as_dict v = None \<Longrightarrow> dicts_of (v # xs) = dicts_of xs"
  by (simp_all add: dicts_of_def List.map_filter_simps)

lemma dicts_of_PDicts [simp]: "dicts_of (map PDict ds) = ds"
  by (induction ds) simp_all

lemma set_dicts_of: "set (dicts_of xs) = {d. PDict d \<in> set xs}"
  by (induction xs) (auto simp: dicts_of_def List.map_filter_simps split: option.splits)

section \<open>What every node keeps\<close>

text \<open>A state that carries an error carries one of the fixed codes as well.\<close>

definition coded :: "agent_state \<Rightarrow> bool" where
  "coded s \<longleftrightarrow> st_error s = None \<or> (\<exists>c \<in> failure_codes. st_code s = Some c)"

text \<open>
  A step from one state to the next that spends calls of the model only within the budget \<open>m\<close>
  and never touches the job's id and request; with the budget 0 it spends none.
\<close>

definition tame :: "nat \<Rightarrow> agent_state \<Rightarrow> agent_state \<Rightarrow> bool" where
  "tame m s s' \<longleftrightarrow> st_job s' = st_job s \<and> st_request s' = st_request s
     \<and> st_llm_used s \<le> st_llm_used s' \<and> st_llm_used s' \<le> max m (st_llm_used s)
     \<and> (coded s \<longrightarrow> coded s')"

lemma tame_refl [simp, intro]: "tame m s s"
  by (simp add: tame_def)

lemma tame_trans: "tame m s t \<Longrightarrow> tame m t u \<Longrightarrow> tame m s u"
  by (auto simp: tame_def)

lemma tame_mono: "tame m s t \<Longrightarrow> m \<le> n \<Longrightarrow> tame n s t"
  by (auto simp: tame_def)

lemma tame_fields:
  "st_job s' = st_job s \<Longrightarrow> st_request s' = st_request s \<Longrightarrow> st_llm_used s' = st_llm_used s
   \<Longrightarrow> st_error s' = st_error s \<Longrightarrow> st_code s' = st_code s \<Longrightarrow> tame m s s'"
  by (simp add: tame_def coded_def)

lemma tame_fail_with: "tame m s t \<Longrightarrow> lit c \<in> failure_codes \<Longrightarrow> tame m s (fail_with e c t)"
  by (simp add: tame_def coded_def)

lemma tame_update_failure: "tame m s t \<Longrightarrow> fi_code f \<in> failure_codes \<Longrightarrow> tame m s (update_failure f t)"
  by (simp add: tame_def coded_def)

lemma tame_exception: "tame m s t \<Longrightarrow> tame m s (update_failure (exception_failure e) t)"
  using exception_failure_code by (intro tame_update_failure) auto

lemma known_codes [simp]:
  "lit ''generation_failed'' \<in> failure_codes" "lit ''quota_exceeded'' \<in> failure_codes"
  "lit ''selection_invalid'' \<in> failure_codes" "lit ''upstream_unavailable'' \<in> failure_codes"
  "lit ''invalid_request'' \<in> failure_codes" "lit ''no_matching_places'' \<in> failure_codes"
  "lit ''generation_timeout'' \<in> failure_codes"
  by (simp_all add: failure_codes_def)

text \<open>Before the time axis is built, a step leaves its two fields alone as well.\<close>

definition early :: "nat \<Rightarrow> agent_state \<Rightarrow> agent_state \<Rightarrow> bool" where
  "early m s s' \<longleftrightarrow> tame m s s' \<and> st_tl_status s' = st_tl_status s \<and> st_overflow s' = st_overflow s"

lemma early_refl [simp, intro]: "early m s s"
  by (simp add: early_def)

lemma early_trans: "early m s t \<Longrightarrow> early m t u \<Longrightarrow> early m s u"
  by (auto simp: early_def intro: tame_trans)

lemma early_mono: "early m s t \<Longrightarrow> m \<le> n \<Longrightarrow> early n s t"
  by (auto simp: early_def intro: tame_mono)

lemma early_fields:
  "st_job s' = st_job s \<Longrightarrow> st_request s' = st_request s \<Longrightarrow> st_llm_used s' = st_llm_used s
   \<Longrightarrow> st_error s' = st_error s \<Longrightarrow> st_code s' = st_code s
   \<Longrightarrow> st_tl_status s' = st_tl_status s \<Longrightarrow> st_overflow s' = st_overflow s \<Longrightarrow> early m s s'"
  by (simp add: early_def tame_fields)

lemma early_fail_with: "early m s t \<Longrightarrow> lit c \<in> failure_codes \<Longrightarrow> early m s (fail_with e c t)"
  by (auto simp: early_def intro: tame_fail_with) (simp_all add: fail_with_def)

lemma early_update_failure: "early m s t \<Longrightarrow> fi_code f \<in> failure_codes \<Longrightarrow> early m s (update_failure f t)"
  by (auto simp: early_def intro: tame_update_failure) (simp_all add: update_failure_def)

lemma early_exception: "early m s t \<Longrightarrow> early m s (update_failure (exception_failure e) t)"
  using exception_failure_code by (intro early_update_failure) auto

text \<open>
  The contracts of the nodes: of every node, of one that makes no call of the model, of one that
  runs before the time axis is built, and of one that is both.
\<close>

locale pipeline_node =
  fixes f :: node
  assumes step: "f E s = Inr s' \<Longrightarrow> tame (cf_max_calls (en_settings E)) s s'"
begin

lemma keeps_request: "f E s = Inr s' \<Longrightarrow> st_request s' = st_request s"
  using step by (simp add: tame_def)

lemma within_budget:
  "f E s = Inr s' \<Longrightarrow> st_llm_used s \<le> cf_max_calls (en_settings E)
   \<Longrightarrow> st_llm_used s' \<le> cf_max_calls (en_settings E)"
  using step by (fastforce simp: tame_def)

end

locale quiet_node =
  fixes f :: node
  assumes quiet: "f E s = Inr s' \<Longrightarrow> tame 0 s s'"
begin

lemma no_calls: "f E s = Inr s' \<Longrightarrow> st_llm_used s' = st_llm_used s"
  using quiet by (fastforce simp: tame_def)

end

sublocale quiet_node \<subseteq> pipeline_node
  by unfold_locales (blast intro: tame_mono quiet)

locale early_node =
  fixes f :: node
  assumes early: "f E s = Inr s' \<Longrightarrow> early (cf_max_calls (en_settings E)) s s'"
begin

lemma untimed: "f E s = Inr s' \<Longrightarrow> st_tl_status s' = st_tl_status s \<and> st_overflow s' = st_overflow s"
  using early by (simp add: early_def)

end

sublocale early_node \<subseteq> pipeline_node
  by unfold_locales (use early in \<open>simp add: early_def\<close>)

locale quiet_early_node =
  fixes f :: node
  assumes quiet_early: "f E s = Inr s' \<Longrightarrow> early 0 s s'"

sublocale quiet_early_node \<subseteq> quiet_node
  by unfold_locales (use quiet_early in \<open>simp add: early_def\<close>)

sublocale quiet_early_node \<subseteq> early_node
  by unfold_locales (blast intro: early_mono quiet_early)

section \<open>Concrete values\<close>

text \<open>
  A request for a trip from 1 to 15 March 2026 and an environment whose services all refuse; the
  concrete instances of the properties vary them.
\<close>

definition march_request :: "nat \<Rightarrow> request" where
  "march_request n =
     \<lparr>rq_date = \<lparr>dr_date_start = Date 2026 3 1, dr_date_end = Date 2026 3 n,
                 dr_time_start = Time 9 0 0 0, dr_time_end = Time 18 0 0 0\<rparr>,
      rq_budget = None, rq_theme = Some [lit ''cafe''], rq_mobility = Some Walk,
      rq_province = lit ''Gangwon'', rq_city = lit ''Gangneung'', rq_schedule_id = None,
      rq_stage = StageInit, rq_optimize = False, rq_exclude = None, rq_places = None,
      rq_loc = None\<rparr>"

definition offline_env :: env where
  "offline_env =
     \<lparr>en_settings = default_settings, en_frepr = \<lambda>_. lit ''0.0'', en_repr = \<lambda>_. [],
      en_pf = \<lambda>_. None, en_pi = \<lambda>_. None,
      en_pd = \<lparr>pd_int = \<lambda>v. case v of PInt n \<Rightarrow> Some n | _ \<Rightarrow> None,
               pd_float = number_of, pd_json = \<lambda>_. None\<rparr>,
      en_cause = \<lambda>_. lit ''invalid'', en_stats = \<lambda>_. None,
      en_model = \<lambda>_ _ _. Inl AsyncTimeoutError, en_weather = \<lambda>_ _ _ _. Inl HttpRequestError,
      en_search = \<lambda>_ _ _ _ _. Inl HttpRequestError, en_reviews = \<lambda>_ _ _. Inl HttpRequestError,
      en_radius = \<lambda>_ _ _. Inl HttpRequestError, en_bonus = \<lambda>_ _. Inl HttpRequestError,
      en_dwell = \<lambda>_. Inl HttpRequestError, en_nan_order = \<lambda>ks. [0..<length ks]\<rparr>"

text \<open>A verified place of a day at 37 degrees north.\<close>

definition sample_place :: "int \<Rightarrow> int \<Rightarrow> place" where
  "sample_place i day =
     \<lparr>pl_id = i, pl_day = day, pl_name = lit ''P'', pl_address = [], pl_lat = 37, pl_lng = 127,
      pl_visit_time = [], pl_content_id = Some (lit ''P'' @ int_text i),
      pl_source = Some (lit ''kakao''), pl_category = None, pl_group_code = None, pl_phone = None,
      pl_place_url = None, pl_crs_km = None, pl_crs_min = None, pl_crs_level = None,
      pl_brd_div = None, pl_gpx_url = None, pl_route_idx = None, pl_grounded = True,
      pl_stay_minutes = None, pl_visit_start = None, pl_visit_end = None, pl_stay_source = None,
      pl_reason = None, pl_bullets = None\<rparr>"

lemma sample_place_fields [simp]:
  "pl_id (sample_place i day) = i" "pl_day (sample_place i day) = day"
  "pl_lat (sample_place i day) = 37" "pl_lng (sample_place i day) = 127"
  by (simp_all add: sample_place_def)

lemma march_request_valid [simp]:
  "1 \<le> n \<Longrightarrow> n \<le> 31 \<Longrightarrow> valid_request (march_request n)"
  by (simp add: valid_request_def march_request_def valid_date_range_def valid_date_def
      valid_time_def days_in_month_def lit_def)

end
