(* ===== verification/StructuredCall.thy ===== *)
theory StructuredCall
  imports State
begin

text \<open>
  app/llm/structured_call.py and \<open>GeminiClient.generate_structured\<close> of
  app/clients/agent_clients.py: one model call whose reply must fit a schema, the budget of calls
  a job may make, and the single corrective retry. The body's validation is the argument
  \<open>parse\<close>; the state is returned with the result, since the budget and the token counts are
  kept when the call raises.
\<close>

section \<open>One call\<close>

definition is_truncated :: "reply \<Rightarrow> bool" where
  "is_truncated r = (case ry_finish r of None \<Rightarrow> False
                     | Some name \<Rightarrow> contains_text (lit ''MAX_TOKENS'') name)"

definition record_usage :: "reply \<Rightarrow> usage list" where
  "record_usage r =
     (case ry_usage r of
        None \<Rightarrow> []
      | Some u \<Rightarrow> if us_prompt u = None \<and> us_output u = None \<and> us_total u = None then [] else [u])"

text \<open>The usage is recorded before the body is validated, so a rejected body counts as well.\<close>

definition generate_structured ::
    "env \<Rightarrow> (pystr \<Rightarrow> 'a option) \<Rightarrow> pystr \<Rightarrow> pystr \<Rightarrow> nat \<Rightarrow> (pyexn + 'a) \<times> usage list" where
  "generate_structured E parse system prompt call =
     (case en_model E call system prompt of
        Inl e \<Rightarrow> (Inl e, [])
      | Inr r \<Rightarrow>
          (let body = (case ry_text r of None \<Rightarrow> [] | Some t \<Rightarrow> t)
           in (case parse body of
                 Some a \<Rightarrow> (Inr a, record_usage r)
               | None \<Rightarrow> (Inl (StructuredOutputError body (en_cause E body) (is_truncated r)),
                          record_usage r))))"

section \<open>The budget and the corrective retry\<close>

definition feedback_truncate :: nat where
  "feedback_truncate = 500"

definition escape_feedback :: "pystr \<Rightarrow> pystr" where
  "escape_feedback t = sanitize_text t feedback_truncate"

definition consume_budget :: "nat \<Rightarrow> 's ledger_scheme \<Rightarrow> pyexn + 's ledger_scheme" where
  "consume_budget max_calls s =
     (if max_calls \<le> st_llm_used s then Inl LLMBudgetExceeded
      else Inr (s\<lparr>st_llm_used := st_llm_used s + 1\<rparr>))"

definition feedback_head :: pystr where
  "feedback_head =
     lit ''<error_feedback>'' @ [10, 0xC9C1, 0xC804, 32, 0xC751, 0xB2F5, 0xC774, 32]
     @ lit ''JSON '' @ [0xC2A4, 0xD0A4, 0xB9C8, 32, 0xAC80, 0xC99D, 0xC5D0, 32, 0xC2E4,
     0xD328, 0xD588, 0xC2B5, 0xB2C8, 0xB2E4] @ lit ''. '' @ [0xC544, 0xB798, 32, 0xC624,
     0xB958, 0xB97C, 10, 0xAD50, 0xC815, 0xD558, 0xC5EC] @ lit '', '' @ [0xC2A4, 0xD0A4,
     0xB9C8, 0xC5D0, 32, 0xC815, 0xD655, 0xD788, 32, 0xBD80, 0xD569, 0xD558, 0xB294, 32]
     @ lit ''JSON '' @ [0xB9CC, 32, 0xB2E4, 0xC2DC, 32, 0xCD9C, 0xB825, 0xD558, 0xC2ED,
     0xC2DC, 0xC624] @ lit ''.'' @ [10, 0xC624, 0xB958] @ lit '': ''"

definition feedback_raw :: pystr where
  "feedback_raw =
     [10, 0xBB34, 0xD6A8, 32, 0xCD9C, 0xB825] @ lit ''('' @ [0xC77C, 0xBD80] @ lit ''): ''"

definition feedback_tail :: pystr where
  "feedback_tail =
     [10] @ lit ''</error_feedback>'' @ [10]"

definition corrective_prompt :: "pystr \<Rightarrow> pystr \<Rightarrow> pystr \<Rightarrow> pystr" where
  "corrective_prompt prompt cause raw =
     prompt @ feedback_head @ escape_feedback cause @ feedback_raw @ escape_feedback raw
     @ feedback_tail"

definition call_inner ::
    "env \<Rightarrow> (pystr \<Rightarrow> 'a option) \<Rightarrow> pystr \<Rightarrow> pystr \<Rightarrow> nat \<Rightarrow> 's ledger_scheme
     \<Rightarrow> (pyexn + 'a) \<times> usage list \<times> 's ledger_scheme" where
  "call_inner E parse system prompt max_calls s =
     (case generate_structured E parse system prompt (st_llm_used s) of
        (Inl (StructuredOutputError raw cause truncated), us) \<Rightarrow>
          if truncated \<or> max_calls \<le> st_llm_used s
          then (Inl (StructuredOutputError raw cause truncated), us, s)
          else
            (let s' = s\<lparr>st_llm_used := st_llm_used s + 1\<rparr>;
                 (result, us') = generate_structured E parse system
                                   (corrective_prompt prompt cause raw) (st_llm_used s')
             in (result, us @ us', s'))
      | (result, us) \<Rightarrow> (result, us, s))"

definition call_structured ::
    "env \<Rightarrow> (pystr \<Rightarrow> 'a option) \<Rightarrow> pystr \<Rightarrow> pystr \<Rightarrow> nat \<Rightarrow> 's ledger_scheme
     \<Rightarrow> (pyexn + 'a) \<times> 's ledger_scheme" where
  "call_structured E parse system prompt max_calls s =
     (case consume_budget max_calls s of
        Inl e \<Rightarrow> (Inl e, s)
      | Inr s1 \<Rightarrow>
          (let (result, us, s2) = call_inner E parse system prompt max_calls s1
           in (result, if us = [] then s2 else s2\<lparr>st_usage := st_usage s2 @ us\<rparr>)))"

text \<open>\<open>response_schema.model_validate_json(body)\<close>.\<close>

definition parse_body :: "env \<Rightarrow> (pydantic \<Rightarrow> pyval \<Rightarrow> 'a option) \<Rightarrow> pystr \<Rightarrow> 'a option" where
  "parse_body E parse body = Option.bind (pd_json (en_pd E) body) (parse (en_pd E))"

section \<open>Lemmas\<close>

lemma record_usage_length: "length (record_usage r) \<le> 1"
  by (simp add: record_usage_def split: option.splits)

lemma generate_structured_usage:
  "generate_structured E parse system prompt call = (res, us) \<Longrightarrow> length us \<le> 1"
  using record_usage_length
  by (auto simp: generate_structured_def Let_def split: sum.splits option.splits)

text \<open>Only the two counters change.\<close>

lemma call_inner_frame:
  "call_inner E parse system prompt m s = (res, us, s')
   \<Longrightarrow> (s' = s \<and> length us \<le> 1)
      \<or> (s' = s\<lparr>st_llm_used := st_llm_used s + 1\<rparr> \<and> st_llm_used s < m \<and> length us \<le> 2)"
  unfolding call_inner_def Let_def
  by (auto split: prod.splits sum.splits pyexn.splits if_splits
      dest!: generate_structured_usage)

lemma call_structured_frame:
  assumes "call_structured E parse system prompt m s = (res, s')"
  obtains n us where "s' = s\<lparr>st_llm_used := st_llm_used s + n, st_usage := st_usage s @ us\<rparr>"
    and "length us \<le> n" and "n \<le> 2" and "n = 0 \<or> st_llm_used s + n \<le> m"
proof (cases "m \<le> st_llm_used s")
  case True
  with assms have "s' = s\<lparr>st_llm_used := st_llm_used s + 0, st_usage := st_usage s @ []\<rparr>"
    by (simp add: call_structured_def consume_budget_def)
  then show ?thesis using that [of "[]" 0] by simp
next
  case False
  obtain r us s2 where inner: "call_inner E parse system prompt m
      (s\<lparr>st_llm_used := st_llm_used s + 1\<rparr>) = (r, us, s2)"
    by (metis prod_cases3)
  with False assms have s': "s' = (if us = [] then s2 else s2\<lparr>st_usage := st_usage s2 @ us\<rparr>)"
    by (simp add: call_structured_def consume_budget_def)
  from call_inner_frame [OF inner] show ?thesis
  proof (elim disjE conjE)
    assume "s2 = s\<lparr>st_llm_used := st_llm_used s + 1\<rparr>" "length us \<le> 1"
    with s' False show ?thesis by (intro that [of us 1]) simp_all
  next
    assume "s2 = s\<lparr>st_llm_used := st_llm_used s + 1\<rparr>
              \<lparr>st_llm_used := st_llm_used (s\<lparr>st_llm_used := st_llm_used s + 1\<rparr>) + 1\<rparr>"
      "st_llm_used (s\<lparr>st_llm_used := st_llm_used s + 1\<rparr>) < m" "length us \<le> 2"
    with s' show ?thesis by (intro that [of us 2]) simp_all
  qed
qed

lemma feedback_tag_chars:
  "filter is_tag_char feedback_head = [60, 62]"
  "filter is_tag_char feedback_raw = []"
  "filter is_tag_char feedback_tail = [60, 62]"
  by (simp_all add: feedback_head_def feedback_raw_def feedback_tail_def lit_def is_tag_char_def)

lemma escape_feedback_no_tags: "filter is_tag_char (escape_feedback t) = []"
  using sanitize_text_safe [of t feedback_truncate]
  by (simp add: escape_feedback_def flip: tag_free_filter) (rule safe_tag_free)

text \<open>A reply is a validated one.\<close>

lemma generate_structured_parsed:
  "generate_structured E parse system prompt n = (Inr v, us) \<Longrightarrow> \<exists>body. parse body = Some v"
  by (auto simp: generate_structured_def Let_def split: sum.splits option.splits)

lemma call_inner_parsed:
  "call_inner E parse system prompt m s = (Inr v, us, s') \<Longrightarrow> \<exists>body. parse body = Some v"
  by (auto simp: call_inner_def Let_def split: if_splits prod.splits sum.splits pyexn.splits
      dest!: generate_structured_parsed)

lemma call_structured_parsed:
  "call_structured E parse system prompt m s = (Inr v, s') \<Longrightarrow> \<exists>body. parse body = Some v"
  by (auto simp: call_structured_def Let_def split: prod.splits sum.splits dest!: call_inner_parsed)

section \<open>Properties\<close>

text \<open>
  C17: A structured call never takes the job's call counter over the budget, makes at most two
  model calls, and adds to the recorded usage at most one entry per call made, keeping the
  earlier entries; all of this also when it raises.
\<close>

theorem call_structured_budget:
  "st_llm_used (snd (call_structured E parse system prompt m s)) \<le> max m (st_llm_used s)
   \<and> st_llm_used s \<le> st_llm_used (snd (call_structured E parse system prompt m s))
   \<and> st_llm_used (snd (call_structured E parse system prompt m s)) \<le> st_llm_used s + 2
   \<and> (\<exists>us. st_usage (snd (call_structured E parse system prompt m s)) = st_usage s @ us
          \<and> length us + st_llm_used s
            \<le> st_llm_used (snd (call_structured E parse system prompt m s)))"
proof -
  obtain res s' where call: "call_structured E parse system prompt m s = (res, s')"
    by fastforce
  then obtain n us where
    "s' = s\<lparr>st_llm_used := st_llm_used s + n, st_usage := st_usage s @ us\<rparr>"
    "length us \<le> n" "n \<le> 2" "n = 0 \<or> st_llm_used s + n \<le> m"
    by (rule call_structured_frame)
  then show ?thesis by (auto simp: call)
qed

text \<open>
  What a structured call returns. With the budget used up it raises \<open>LLMBudgetExceeded\<close>
  without calling the model. Otherwise the first reply decides, except that a rejected body that
  was not cut off is asked for again, once, with the corrective prompt, if a call is left; with
  none left, or for a cut-off body, the original \<open>StructuredOutputError\<close> is what the caller sees.
\<close>

theorem call_structured_result:
  "fst (call_structured E parse system prompt m s) =
     (if m \<le> st_llm_used s then Inl LLMBudgetExceeded
      else
        (let first = fst (generate_structured E parse system prompt (Suc (st_llm_used s)))
         in (case first of
               Inl (StructuredOutputError raw cause truncated) \<Rightarrow>
                 if \<not> truncated \<and> Suc (st_llm_used s) < m
                 then fst (generate_structured E parse system
                             (corrective_prompt prompt cause raw) (Suc (Suc (st_llm_used s))))
                 else first
             | _ \<Rightarrow> first)))"
  by (auto simp: call_structured_def consume_budget_def call_inner_def Let_def
      split: prod.splits sum.splits pyexn.splits)

text \<open>
  The corrective prompt quotes the rejected reply and its error without adding a single
  angle bracket beyond the two of its own tags, in their order, and the two quotations add at
  most 500 characters each, whatever the model wrote.
\<close>

theorem corrective_prompt_contained:
  "filter is_tag_char (corrective_prompt prompt cause raw)
     = filter is_tag_char prompt @ [60, 62, 60, 62]
   \<and> length (corrective_prompt prompt cause raw)
     \<le> length prompt + 1000 + length (feedback_head @ feedback_raw @ feedback_tail)"
proof
  show "filter is_tag_char (corrective_prompt prompt cause raw)
     = filter is_tag_char prompt @ [60, 62, 60, 62]"
    by (simp add: corrective_prompt_def feedback_tag_chars escape_feedback_no_tags)
  have "length (escape_feedback t) \<le> 500" for t
    using length_sanitize_text [of t feedback_truncate]
    by (simp add: escape_feedback_def feedback_truncate_def)
  from this [of cause] this [of raw]
  show "length (corrective_prompt prompt cause raw)
     \<le> length prompt + 1000 + length (feedback_head @ feedback_raw @ feedback_tail)"
    by (simp add: corrective_prompt_def)
qed

end
