(* ===== verification/Planning.thy ===== *)
theory Planning
  imports StructuredCall "HOL-Library.List_Lexorder"
begin

text \<open>
  The first nodes of app/nodes/agent_nodes.py: \<open>parse_input\<close> checks the dates, times and given
  places of the request, \<open>fetch_weather\<close> stores the forecast or a warning that there is none, and
  \<open>plan_strategy\<close> turns the forecast of each day of the trip into a number of stops and a share of
  indoor places.
\<close>

section \<open>Days of the trip\<close>

definition max_range_days :: int where
  "max_range_days = 14"

definition num_days :: "request \<Rightarrow> int" where
  "num_days r = days_between (dr_date_start (rq_date r)) (dr_date_end (rq_date r)) + 1"

section \<open>Input checks\<close>

text \<open>The message of the first check that fails.\<close>

definition input_error :: "request \<Rightarrow> string option" where
  "input_error r =
     (let d = rq_date r; places = given_places r
      in if dr_date_end d < dr_date_start d then Some ''date_start must be <= date_end''
         else if max_range_days < days_between (dr_date_start d) (dr_date_end d)
         then Some ''date range must be <= 14 days''
         else if dr_time_end d \<le> dr_time_start d then Some ''time_start must be < time_end''
         else if \<exists>p \<in> set places. num_days r < sp_day p
         then Some ''selected place day exceeds the date range''
         else if rq_stage r = StageRoute \<and> places \<noteq> []
                 \<and> map sp_day places \<noteq> sort (map sp_day places)
         then Some ''selected places must be in day order''
         else if rq_stage r = StageRoute \<and> places = [] then Some ''stage=route requires places''
         else if rq_stage r = StageRoute \<and> length places < 2
         then Some ''stage=route requires at least 2 places''
         else None)"

definition parse_input :: "env \<Rightarrow> agent_state \<Rightarrow> pyexn + agent_state" where
  "parse_input E s =
     Inr (case input_error (st_request s) of
            None \<Rightarrow> s
          | Some message \<Rightarrow> fail_with message ''invalid_request'' s)"

text \<open>What the checks are for: the requests the rest of the pipeline can work on.\<close>

definition input_ok :: "request \<Rightarrow> bool" where
  "input_ok r \<longleftrightarrow>
     dr_date_start (rq_date r) \<le> dr_date_end (rq_date r) \<and> num_days r \<le> max_range_days + 1
     \<and> dr_time_start (rq_date r) < dr_time_end (rq_date r)
     \<and> (\<forall>p \<in> set (given_places r). sp_day p \<le> num_days r)
     \<and> (rq_stage r = StageRoute
        \<longrightarrow> 2 \<le> length (given_places r) \<and> sorted (map sp_day (given_places r)))"

lemma sort_fixed_iff: "(xs = sort xs) = sorted xs"
  by (metis sorted_sort sort_key_id_if_sorted map_ident)

lemma input_error_None: "input_error r = None \<longleftrightarrow> input_ok r"
proof -
  have two: "2 \<le> length ps \<longleftrightarrow> ps \<noteq> [] \<and> \<not> length ps < 2" for ps :: "selected_place list"
    by (cases ps) (auto simp: Suc_le_eq)
  show ?thesis
    unfolding input_error_def input_ok_def Let_def two num_days_def
    by (auto simp add: sort_fixed_iff not_less not_le)
qed

lemma input_error_nonempty: "input_error r = Some e \<Longrightarrow> e \<noteq> []"
  unfolding input_error_def Let_def
  by (auto split: if_split_asm)

lemma parse_input_ok: "input_ok (st_request s) \<Longrightarrow> parse_input E s = Inr s"
  by (simp add: parse_input_def flip: input_error_None)

lemma parse_input_bad:
  "\<not> input_ok (st_request s)
   \<Longrightarrow> \<exists>e. e \<noteq> [] \<and> parse_input E s = Inr (fail_with e ''invalid_request'' s)"
  by (cases "input_error (st_request s)")
     (auto simp: parse_input_def input_error_None dest: input_error_nonempty)

section \<open>Weather\<close>

definition warn_weather_unavailable :: pystr where
  "warn_weather_unavailable =
     [0xB0A0, 0xC528, 32, 0xC815, 0xBCF4, 0xB97C, 32, 0xD655, 0xC778, 0xD558, 0xC9C0, 32,
     0xBABB, 0xD574, 32, 0xC77C, 0xC815, 0xC5D0, 32, 0xBC18, 0xC601, 0xD558, 0xC9C0, 32,
     0xBABB, 0xD588, 0xC2B5, 0xB2C8, 0xB2E4]"

definition warn_missing_tail :: pystr where
  "warn_missing_tail =
     lit '' '' @ [0xB294, 32, 0xB0A0, 0xC528, 32, 0xC608, 0xBCF4, 0xB97C, 32, 0xD655,
     0xC778, 0xD558, 0xC9C0, 32, 0xBABB, 0xD574, 32, 0xD574, 0xB2F9, 32, 0xB0A0, 0xC9DC,
     0xC5D0, 32, 0xB0A0, 0xC528, 32, 0xC870, 0xAC74, 0xC744, 32, 0xBC18, 0xC601, 0xD558,
     0xC9C0, 32, 0xBABB, 0xD588, 0xC2B5, 0xB2C8, 0xB2E4]"

definition in_trip :: "request \<Rightarrow> date \<Rightarrow> bool" where
  "in_trip r d \<longleftrightarrow> dr_date_start (rq_date r) \<le> d \<and> d \<le> dr_date_end (rq_date r)"

definition missing_in_trip :: "env \<Rightarrow> request \<Rightarrow> pyval list \<Rightarrow> pystr list" where
  "missing_in_trip E r missing =
     filter (\<lambda>key. case fromisoformat key of None \<Rightarrow> False | Some d \<Rightarrow> in_trip r d)
       (map (py_str E) missing)"

definition warn_missing_forecast_days :: "env \<Rightarrow> pyval \<Rightarrow> agent_state \<Rightarrow> agent_state" where
  "warn_missing_forecast_days E weather s =
     (case weather of
        PDict w \<Rightarrow>
          (case dget w ''missing_dates'' of
             PList missing \<Rightarrow>
               (let hit = missing_in_trip E (st_request s) missing
                in if hit = [] then s
                   else add_warning (join_text (lit '', '') (sort hit) @ warn_missing_tail) s)
           | _ \<Rightarrow> s)
      | _ \<Rightarrow> s)"

definition fetch_weather :: "env \<Rightarrow> agent_state \<Rightarrow> pyexn + agent_state" where
  "fetch_weather E s =
     (if has_error s then Inr s
      else
        (let r = st_request s
         in (case en_weather E (rq_province r) (rq_city r)
                    (dr_date_start (rq_date r)) (dr_date_end (rq_date r)) of
               Inl e \<Rightarrow>
                 if is_http_error e
                 then Inr (add_warning warn_weather_unavailable (s\<lparr>st_weather := None\<rparr>))
                 else Inl e
             | Inr weather \<Rightarrow>
                 Inr (warn_missing_forecast_days E weather (s\<lparr>st_weather := Some weather\<rparr>)))))"

section \<open>Daily strategy\<close>

definition stops_min :: int where "stops_min = 2"
definition stops_max :: int where "stops_max = 5"
definition minutes_per_stop :: int where "minutes_per_stop = 100"

definition target_stops :: "int \<Rightarrow> int" where
  "target_stops active =
     (if active \<le> 0 then stops_min
      else max stops_min (min stops_max (active div minutes_per_stop)))"

definition indoor_ratio :: "int option \<Rightarrow> real" where
  "indoor_ratio pop =
     (case pop of
        None \<Rightarrow> 0
      | Some p \<Rightarrow> if 70 \<le> p then 7 / 10 else if 50 \<le> p then 5 / 10
                  else if 30 \<le> p then 3 / 10 else 0)"

definition pace :: "int \<Rightarrow> int \<Rightarrow> pystr" where
  "pace active stops =
     (if stops \<le> 0 then lit ''relaxed''
      else
        (let per_stop = (of_int active / of_int stops :: real)
         in if per_stop < 90 then lit ''tight''
            else if 150 < per_stop then lit ''relaxed'' else lit ''normal''))"

text \<open>The forecast entries of a weather value; \<open>or []\<close> on an odd value may raise.\<close>

definition daily_entries :: "pyval option \<Rightarrow> pyexn + pydict list" where
  "daily_entries weather =
     (case weather of
        Some (PDict w) \<Rightarrow> bindE (iter_or_empty (dget w ''daily'')) (\<lambda>xs. Inr (dicts_of xs))
      | _ \<Rightarrow> Inr [])"

definition pop_entry :: "env \<Rightarrow> pydict \<Rightarrow> (pystr \<times> int) option" where
  "pop_entry E d =
     (let key = (if truthy (dget d ''date'') then py_str E (dget d ''date'') else [])
      in if key = [] then None
         else map_option (Pair key) (int_in_range 0 100 (dget d ''precipitation_prob'')))"

definition daily_pops :: "env \<Rightarrow> pyval option \<Rightarrow> date \<Rightarrow> int \<Rightarrow> pyexn + int option list" where
  "daily_pops E weather start n =
     bindE (daily_entries weather) (\<lambda>ds.
       (let by_date = dict_of_pairs (List.map_filter (pop_entry E) ds)
        in Inr (map (\<lambda>i. map_of by_date (date_iso (add_days start i))) [0..<nat n])))"

definition active_minutes :: "request \<Rightarrow> int" where
  "active_minutes r =
     minute_of_day (dr_time_end (rq_date r)) - minute_of_day (dr_time_start (rq_date r))"

definition plan_for :: "request \<Rightarrow> int option list \<Rightarrow> plan" where
  "plan_for r pops =
     (let target = target_stops (active_minutes r)
      in \<lparr>pn_days = map (\<lambda>i. \<lparr>pn_day = int i + 1, pn_target = target,
                              pn_indoor = indoor_ratio (pops ! i), pn_pop = pops ! i\<rparr>)
                    [0..<nat (num_days r)],
          pn_pace = pace (active_minutes r) target\<rparr>)"

definition plan_strategy :: "env \<Rightarrow> agent_state \<Rightarrow> pyexn + agent_state" where
  "plan_strategy E s =
     (if has_error s then Inr s
      else
        bindE (daily_pops E (st_weather s) (dr_date_start (rq_date (st_request s)))
                 (num_days (st_request s)))
          (\<lambda>pops. Inr (s\<lparr>st_plan := Some (plan_for (st_request s) pops)\<rparr>)))"

section \<open>Lemmas\<close>

lemma num_days_pos:
  assumes "valid_request r" and "input_ok r"
  shows "1 \<le> num_days r" and "num_days r \<le> 15"
proof -
  have "valid_date (dr_date_start (rq_date r))" "valid_date (dr_date_end (rq_date r))"
    using assms(1) by (simp_all add: valid_request_def valid_date_range_def)
  with assms(2) show "1 \<le> num_days r" "num_days r \<le> 15"
    by (simp_all add: input_ok_def num_days_def days_between_def toordinal_le_iff max_range_days_def)
qed

lemma target_stops_bounds: "2 \<le> target_stops a \<and> target_stops a \<le> 5"
  by (simp add: target_stops_def stops_min_def stops_max_def)

lemma target_stops_mono: "a \<le> b \<Longrightarrow> target_stops a \<le> target_stops b"
  using zdiv_mono1 [of a b 100]
  by (auto simp: target_stops_def stops_min_def stops_max_def minutes_per_stop_def)

lemma indoor_ratio_bounds: "0 \<le> indoor_ratio p \<and> indoor_ratio p \<le> 7 / 10"
  by (simp add: indoor_ratio_def split: option.splits)

lemma indoor_ratio_mono: "p \<le> q \<Longrightarrow> indoor_ratio (Some p) \<le> indoor_ratio (Some q)"
  by (simp add: indoor_ratio_def)

lemma set_map_filter: "set (List.map_filter f xs) = {y. \<exists>x \<in> set xs. f x = Some y}"
  by (induction xs) (auto simp: List.map_filter_simps split: option.splits)

lemma map_filter_append: "List.map_filter f (xs @ ys) = List.map_filter f xs @ List.map_filter f ys"
  by (simp add: List.map_filter_def)

lemma pop_entry_range: "pop_entry E d = Some (k, n) \<Longrightarrow> 0 \<le> n \<and> n \<le> 100"
  using int_in_range_bounds [of 0 100 "dget d ''precipitation_prob''" n]
  by (auto simp: pop_entry_def Let_def split: if_splits)

lemma daily_pops_length: "daily_pops E w start n = Inr pops \<Longrightarrow> length pops = nat n"
  by (auto simp: daily_pops_def bindE_Inr_iff Let_def)

lemma daily_pops_range:
  assumes "daily_pops E w start n = Inr pops" and "Some p \<in> set pops"
  shows "0 \<le> p \<and> p \<le> 100"
proof -
  from assms obtain ds k where "map_of (dict_of_pairs (List.map_filter (pop_entry E) ds)) k = Some p"
    by (force simp: daily_pops_def bindE_Inr_iff Let_def)
  then have "(k, p) \<in> set (dict_of_pairs (List.map_filter (pop_entry E) ds))"
    by (rule map_of_SomeD)
  then have "(k, p) \<in> set (List.map_filter (pop_entry E) ds)"
    using set_dict_of_pairs by blast
  then show ?thesis by (auto simp: set_map_filter dest: pop_entry_range)
qed

lemma fetch_weather_frame:
  "fetch_weather E s = Inr s'
   \<Longrightarrow> st_job s' = st_job s \<and> st_request s' = st_request s \<and> st_error s' = st_error s
      \<and> st_llm_used s' = st_llm_used s \<and> st_plan s' = st_plan s"
  by (auto simp: fetch_weather_def warn_missing_forecast_days_def Let_def
      split: if_splits sum.splits pyval.splits)

lemma plan_strategy_frame:
  "plan_strategy E s = Inr s' \<Longrightarrow> \<not> has_error s
   \<Longrightarrow> \<exists>pops. length pops = nat (num_days (st_request s))
        \<and> (\<forall>p. Some p \<in> set pops \<longrightarrow> 0 \<le> p \<and> p \<le> 100)
        \<and> s' = s\<lparr>st_plan := Some (plan_for (st_request s) pops)\<rparr>"
  using daily_pops_length daily_pops_range
  by (auto simp: plan_strategy_def bindE_Inr_iff) blast

lemma plan_for_days:
  "map pn_day (pn_days (plan_for r pops)) = map (\<lambda>i. int i + 1) [0..<nat (num_days r)]"
  by (simp add: plan_for_def Let_def comp_def)

lemma plan_for_target:
  "d \<in> set (pn_days (plan_for r pops)) \<Longrightarrow> pn_target d = target_stops (active_minutes r)"
  by (auto simp: plan_for_def Let_def)

lemma march_num_days [simp]:
  "num_days (march_request n) = int n"
  by (simp add: num_days_def days_between_def march_request_def toordinal_def)

lemma march_input_ok:
  "1 \<le> n \<Longrightarrow> n \<le> 15 \<Longrightarrow> input_ok (march_request n)"
  using march_num_days [of n]
  by (auto simp: input_ok_def max_range_days_def given_places_def march_request_def
      less_time_def less_date_def)

section \<open>The contract of the nodes\<close>

interpretation parse_input: quiet_early_node parse_input
  by unfold_locales (auto simp: parse_input_def intro!: early_fail_with split: option.splits)

interpretation fetch_weather: quiet_early_node fetch_weather
  by unfold_locales (auto simp: fetch_weather_def warn_missing_forecast_days_def add_warning_def Let_def
      intro!: early_fields split: if_splits sum.splits pyval.splits)

interpretation plan_strategy: quiet_early_node plan_strategy
  by unfold_locales (auto simp: plan_strategy_def bindE_Inr_iff intro!: early_fields split: if_splits)

section \<open>Properties\<close>

text \<open>
  C32: \<open>parse_input\<close> never raises, rejects exactly the requests that are not \<open>input_ok\<close>, always as a
  non-retryable \<open>invalid_request\<close>, and leaves the others untouched; what passes spans 1 to 15 days
  and every place the user chose lies on one of them. The bound that is enforced is fifteen
  calendar days, one more than the documented maximum, as the witness shows.
\<close>

theorem parse_input_correct:
  assumes "valid_request (st_request s)" and "\<not> has_error s"
  shows "\<exists>s'. parse_input E s = Inr s'
    \<and> (has_error s' \<longleftrightarrow> \<not> input_ok (st_request s))
    \<and> (has_error s' \<longrightarrow> st_code s' = Some (lit ''invalid_request'') \<and> st_retryable s' = Some False)
    \<and> (\<not> has_error s' \<longrightarrow> s' = s \<and> 1 \<le> num_days (st_request s) \<and> num_days (st_request s) \<le> 15
         \<and> (\<forall>p \<in> set (given_places (st_request s)).
              1 \<le> sp_day p \<and> sp_day p \<le> num_days (st_request s)))"
proof (cases "input_ok (st_request s)")
  case True
  moreover have "1 \<le> sp_day p" if "p \<in> set (given_places (st_request s))" for p
    using given_places_valid [OF assms(1) that] by (simp add: valid_selected_def)
  ultimately show ?thesis
    using parse_input_ok [OF True, of E] assms num_days_pos [OF assms(1) True]
    by (auto simp: input_ok_def)
next
  case False
  with parse_input_bad [OF False, of E] show ?thesis by auto
qed

theorem parse_input_correct_witness:
  "\<exists>s'. parse_input offline_env (start_state (lit ''job'') (march_request 15)) = Inr s'
     \<and> \<not> has_error s' \<and> num_days (st_request s') = 15"
proof -
  have ok: "input_ok (march_request 15)" by (rule march_input_ok) simp_all
  have "valid_request (st_request (start_state (lit ''job'') (march_request 15)))"
    "\<not> has_error (start_state (lit ''job'') (march_request 15))"
    by (simp_all add: start_state_def has_error_def)
  from parse_input_correct [OF this, of offline_env] ok show ?thesis
    by (auto simp: start_state_def)
qed

text \<open>
  A refused or failed weather call does not end the job: the state keeps no forecast, the
  user gets the warning, and the strategy planned next counts every day as having no known
  chance of rain, so that no day is pushed indoors.
\<close>

theorem fetch_weather_degrades:
  assumes "\<not> has_error s" and "is_http_error e"
    and "en_weather E (rq_province (st_request s)) (rq_city (st_request s))
           (dr_date_start (rq_date (st_request s))) (dr_date_end (rq_date (st_request s))) = Inl e"
  shows "\<exists>s' s'' pl. fetch_weather E s = Inr s' \<and> \<not> has_error s'
    \<and> warn_weather_unavailable \<in> set (st_warnings s')
    \<and> plan_strategy E s' = Inr s'' \<and> st_plan s'' = Some pl
    \<and> (\<forall>d \<in> set (pn_days pl). pn_pop d = None \<and> pn_indoor d = 0)"
proof -
  let ?s' = "add_warning warn_weather_unavailable (s\<lparr>st_weather := None\<rparr>)"
  have fw: "fetch_weather E s = Inr ?s'"
    using assms by (simp add: fetch_weather_def Let_def)
  have err: "\<not> has_error ?s'"
    using assms(1) by (simp add: has_error_def)
  have w: "st_weather ?s' = None" "st_request ?s' = st_request s"
    by (simp_all add: add_warning_def)
  let ?pops = "map (\<lambda>_. None) [0..<nat (num_days (st_request s))] :: int option list"
  have "daily_pops E None (dr_date_start (rq_date (st_request s))) (num_days (st_request s))
      = Inr ?pops"
    by (simp add: daily_pops_def daily_entries_def List.map_filter_simps dict_of_pairs_def)
  then have "plan_strategy E ?s' = Inr (?s'\<lparr>st_plan := Some (plan_for (st_request s) ?pops)\<rparr>)"
    using err w by (simp add: plan_strategy_def)
  moreover have "pn_pop d = None \<and> pn_indoor d = 0" if "d \<in> set (pn_days (plan_for (st_request s) ?pops))" for d
    using that by (auto simp: plan_for_def Let_def indoor_ratio_def)
  moreover have "warn_weather_unavailable \<in> set (st_warnings ?s')"
    by (simp add: add_warning_def)
  ultimately show ?thesis using fw err by auto
qed

theorem fetch_weather_degrades_witness:
  "\<exists>s'. fetch_weather offline_env (start_state [] (march_request 3)) = Inr s' \<and> \<not> has_error s'"
  using fetch_weather_degrades [of "start_state [] (march_request 3)" HttpRequestError offline_env]
  by (auto simp: start_state_def has_error_def is_http_error_def offline_env_def)

text \<open>
  The forecast is matched by date, not by position: an entry for a day outside the trip may be
  added anywhere in the hub's list, or left out of it, without changing the chance of rain of any
  day of the trip.
\<close>

theorem daily_pops_by_date:
  assumes "valid_date start" and "valid_date other"
    and "other < start \<or> add_days start (nat n) \<le> other"
    and "dget d ''date'' = PStr (date_iso other)"
    and "dget w ''daily'' = PList (xs @ PDict d # ys)" and "dget w' ''daily'' = PList (xs @ ys)"
  shows "daily_pops E (Some (PDict w)) start n = daily_pops E (Some (PDict w')) start n"
proof -
  let ?f = "List.map_filter (pop_entry E)"
  have ent: "daily_entries (Some (PDict v)) = Inr (dicts_of zs)" if "dget v ''daily'' = PList zs" for v zs
    using that by (cases zs) (auto simp: daily_entries_def iter_or_empty_def)
  have split: "dicts_of (xs @ zs) = dicts_of xs @ dicts_of zs" for zs
    by (simp add: dicts_of_def map_filter_append)
  have key: "date_iso (add_days start i) \<noteq> date_iso other" if "i < nat n" for i
  proof
    assume "date_iso (add_days start i) = date_iso other"
    then have eq: "other = add_days start i" by (metis date_iso_inj)
    then have "toordinal other = toordinal start + i" using assms(1) by (simp add: toordinal_add_days)
    with assms(1-3) that show False
      using toordinal_less [OF assms(2,1)]
      by (auto simp: toordinal_le_iff toordinal_add_days valid_add_days)
  qed
  have miss: "map_of (rev (?f (dicts_of xs @ d # dicts_of ys))) (date_iso (add_days start i))
      = map_of (rev (?f (dicts_of xs @ dicts_of ys))) (date_iso (add_days start i))" if "i < nat n" for i
    using key [OF that] assms(4)
    by (auto simp: map_filter_append List.map_filter_simps pop_entry_def Let_def py_str_def map_add_def
        split: option.splits)
  show ?thesis
    using assms(5,6) miss
    by (simp add: daily_pops_def ent split map_of_dict_of_pairs)
qed

theorem daily_pops_by_date_witness:
  "daily_pops offline_env
     (Some (PDict [(lit ''daily'', PList [PDict [(lit ''date'', PStr (date_iso (Date 2026 3 9))),
                                             (lit ''precipitation_prob'', PInt 90)]])]))
     (Date 2026 3 1) 2
   = daily_pops offline_env (Some (PDict [(lit ''daily'', PList [])])) (Date 2026 3 1) 2"
  by (rule daily_pops_by_date [where other = "Date 2026 3 9" and xs = "[]" and ys = "[]"
        and d = "[(lit ''date'', PStr (date_iso (Date 2026 3 9))), (lit ''precipitation_prob'', PInt 90)]"])
     (simp_all add: valid_date_def days_in_month_def dget_def less_date_def toordinal_le_iff
        add_days_def eval_nat_numeral next_day_def)

text \<open>
  On an accepted request the strategy has one entry per day of the trip, numbered from 1, with
  two to five stops, and the share of indoor places is the one its own day's chance of rain gives:
  at most seven tenths, zero where no forecast is known.
\<close>

theorem plan_strategy_covers_days:
  assumes "\<not> has_error s" and "plan_strategy E s = Inr s'"
  shows "\<exists>pl. st_plan s' = Some pl
    \<and> map pn_day (pn_days pl) = map (\<lambda>i. int i + 1) [0..<nat (num_days (st_request s))]
    \<and> (\<forall>d \<in> set (pn_days pl). 2 \<le> pn_target d \<and> pn_target d \<le> 5
         \<and> pn_indoor d = indoor_ratio (pn_pop d) \<and> 0 \<le> pn_indoor d \<and> pn_indoor d \<le> 7 / 10
         \<and> (case pn_pop d of None \<Rightarrow> pn_indoor d = 0 | Some p \<Rightarrow> 0 \<le> p \<and> p \<le> 100))"
proof -
  from plan_strategy_frame [OF assms(2,1)] obtain pops where pops:
    "length pops = nat (num_days (st_request s))" "\<forall>p. Some p \<in> set pops \<longrightarrow> 0 \<le> p \<and> p \<le> 100"
    "s' = s\<lparr>st_plan := Some (plan_for (st_request s) pops)\<rparr>" by blast
  have "case pn_pop d of None \<Rightarrow> pn_indoor d = 0 | Some p \<Rightarrow> 0 \<le> p \<and> p \<le> 100"
    and "pn_indoor d = indoor_ratio (pn_pop d)"
    if d: "d \<in> set (pn_days (plan_for (st_request s) pops))" for d
  proof -
    from d obtain i where i: "i < length pops" "pn_pop d = pops ! i" "pn_indoor d = indoor_ratio (pops ! i)"
      using pops(1) by (auto simp: plan_for_def Let_def)
    then show "pn_indoor d = indoor_ratio (pn_pop d)" by simp
    show "case pn_pop d of None \<Rightarrow> pn_indoor d = 0 | Some p \<Rightarrow> 0 \<le> p \<and> p \<le> 100"
      using i pops(2) nth_mem [OF i(1)] by (cases "pops ! i") (auto simp: indoor_ratio_def)
  qed
  then show ?thesis
    using pops(3) plan_for_days target_stops_bounds indoor_ratio_bounds
    by (simp add: plan_for_target)
qed

theorem plan_strategy_covers_days_witness:
  "\<exists>s' pl. plan_strategy offline_env (start_state [] (march_request 3)) = Inr s'
     \<and> st_plan s' = Some pl \<and> map pn_day (pn_days pl) = [1, 2, 3]"
proof -
  let ?s = "start_state [] (march_request 3)"
  have err: "\<not> has_error ?s" by (simp add: start_state_def has_error_def)
  obtain s' where s': "plan_strategy offline_env ?s = Inr s'"
    using err by (simp add: plan_strategy_def daily_pops_def daily_entries_def start_state_def)
  from plan_strategy_covers_days [OF err s'] show ?thesis
    using s' by (auto simp: start_state_def upt_rec)
qed

end
