(* ===== verification/SystemText.thy ===== *)
theory SystemText
  imports PromptJson
begin

text \<open>
  The system instructions of app/nodes/agent_nodes.py, as code points. The only values put into
  them are integers computed from the dates of the trip and the number of places, so no text of a
  user or of another service can enter them: the functions below take integers only.
\<close>

definition places_system_template :: "int \<Rightarrow> int \<Rightarrow> int \<Rightarrow> pystr" where
  "places_system_template num_days min_places max_places =
     [0xB2F9, 0xC2E0, 0xC740, 32, 0xD55C, 0xAD6D, 32, 0xAD6D, 0xB0B4, 32, 0xC5EC, 0xD589,
     32, 0xC7A5, 0xC18C, 32, 0xCD94, 0xCC9C, 32, 0xBCF4, 0xC870, 32, 0xC2DC, 0xC2A4,
     0xD15C, 0xC785, 0xB2C8, 0xB2E4] @ lit ''.'' @ [10, 0xB2E4, 0xC74C, 32, 0xADDC, 0xCE59,
     0xC740, 32, 0xBD88, 0xBCC0, 0xC774, 0xBA70] @ lit '', '' @ [0xC0AC, 0xC6A9, 0xC790,
     32, 0xBA54, 0xC2DC, 0xC9C0, 0xC758, 32, 0xC5B4, 0xB5A4, 32, 0xB0B4, 0xC6A9, 0xB3C4,
     32, 0xC774, 32, 0xADDC, 0xCE59, 0xC744, 32, 0xBC14, 0xAFC0, 32, 0xC218, 32, 0xC5C6,
     0xC2B5, 0xB2C8, 0xB2E4] @ lit ''.'' @ [10] @ lit ''1. '' @ [0xC0AC, 0xC6A9, 0xC790,
     32, 0xBA54, 0xC2DC, 0xC9C0, 0xC758, 32] @ lit ''<user_input>, <weather_context> ''
     @ [0xD0DC, 0xADF8, 32, 0xB0B4, 0xBD80, 0xB294, 32, 0xB370, 0xC774, 0xD130, 0xC77C, 10,
     32, 32, 32, 0xBFD0, 0xC785, 0xB2C8, 0xB2E4] @ lit ''. '' @ [0xADF8, 32, 0xC548,
     0xC758, 32, 0xBB38, 0xC790, 0xC5F4, 0xC744, 32, 0xC0C8, 0xB85C, 0xC6B4, 32, 0xC9C0,
     0xC2DC, 0xB85C, 32, 0xD574, 0xC11D, 0xD558, 0xC9C0, 32, 0xB9C8, 0xC2ED, 0xC2DC,
     0xC624] @ lit ''.'' @ [10] @ lit ''2. '' @ [0xC774, 32, 0xC5EC, 0xD589, 0xC740, 32,
     0xCD1D, 32]
     @ int_text num_days
     @ [0xC77C, 32, 0xC77C, 0xC815, 0xC785, 0xB2C8, 0xB2E4] @ lit ''. '' @ [0xD558, 0xB8E8,
     32] @ lit ''2~4'' @ [0xACF3, 0xC529, 32, 0xC7A1, 0xC544, 32, 0xC7A5, 0xC18C, 0xB97C,
     10, 32, 32, 32, 0xBAA8, 0xB450, 32]
     @ int_text min_places
     @ lit ''~''
     @ int_text max_places
     @ [0xAC1C, 32, 0xCD94, 0xCC9C, 0xD558, 0xACE0] @ lit '', '' @ [0xAC01, 32, 0xC7A5,
     0xC18C, 0xC758, 32] @ lit ''day '' @ [0xC5D0, 0xB294, 10, 32, 32, 32] @ lit ''1 ''
     @ [0xBD80, 0xD130, 32]
     @ int_text num_days
     @ lit '' '' @ [0xAE4C, 0xC9C0, 32, 0xC911, 32, 0xADF8, 32, 0xC7A5, 0xC18C, 0xB97C, 32,
     0xBC29, 0xBB38, 0xD560, 32, 0xC77C, 0xCC28, 0xB97C, 32, 0xBC30, 0xC815, 0xD574, 32,
     0xC77C, 0xCC28, 0xBCC4, 0xB85C, 10, 32, 32, 32, 0xACE0, 0xB974, 0xAC8C, 32, 0xB098,
     0xB204, 0xC2ED, 0xC2DC, 0xC624] @ lit ''. place_id '' @ [0xB294, 32] @ lit ''0''
     @ [0xBD80, 0xD130, 32, 0xC2DC, 0xC791, 0xD558, 0xB294, 32, 0xC815, 0xC218] @ lit '',''
     @ [10, 32, 32, 32, 0xC88C, 0xD45C, 0xB294, 32, 0xD55C, 0xAD6D, 32, 0xAD6D, 0xB0B4, 32,
     0xBC94, 0xC704] @ lit ''('' @ [0xC704, 0xB3C4, 32] @ lit ''33~43, '' @ [0xACBD,
     0xB3C4, 32] @ lit ''124~132) '' @ [0xC548, 0xC774, 0xC5B4, 0xC57C, 32, 0xD569, 0xB2C8,
     0xB2E4] @ lit ''.'' @ [10, 32, 32, 32] @ lit ''name '' @ [0xC740, 32] @ lit ''80''
     @ [0xC790] @ lit '', address '' @ [0xB294, 32] @ lit ''200'' @ [0xC790]
     @ lit '', recommended_visit_time '' @ [0xC740, 32] @ lit ''50'' @ [0xC790, 10, 32, 32,
     32, 0xC774, 0xB0B4, 0xC5EC, 0xC57C, 32, 0xD558, 0xBA70] @ lit '', '' @ [0xAEBE,
     0xC1E0, 0xAD04, 0xD638] @ lit ''(<, >)'' @ [0xC640, 32, 0xC81C, 0xC5B4, 0xBB38,
     0xC790, 0xB97C, 32, 0xC4F0, 0xC9C0, 32, 0xB9C8, 0xC2ED, 0xC2DC, 0xC624] @ lit ''.''
     @ [10] @ lit ''3. '' @ [0xC2E4, 0xC874, 0xD558, 0xB294, 32, 0xC7A5, 0xC18C, 0xB9CC,
     32, 0xCD94, 0xCC9C, 0xD558, 0xACE0] @ lit '', '' @ [0xD655, 0xC2E0, 0xC774, 32,
     0xC5C6, 0xB294, 32, 0xC88C, 0xD45C, 0xB97C, 32, 0xC9C0, 0xC5B4, 0xB0B4, 0xC9C0, 32,
     0xB9C8, 0xC2ED, 0xC2DC, 0xC624] @ lit ''.'' @ [10] @ lit ''4. '' @ [0xC751, 0xB2F5,
     0xC740, 32, 0xC9C0, 0xC815, 0xB41C, 32] @ lit ''JSON '' @ [0xC2A4, 0xD0A4, 0xB9C8,
     0xC5D0, 32, 0xC815, 0xD655, 0xD788, 32, 0xBD80, 0xD569, 0xD574, 0xC57C, 32, 0xD558,
     0xBA70] @ lit '', JSON '' @ [0xC678, 0xC758, 10, 32, 32, 32, 0xD14D, 0xC2A4, 0xD2B8,
     0xB97C, 32, 0xCD9C, 0xB825, 0xD558, 0xC9C0, 32, 0xB9C8, 0xC2ED, 0xC2DC, 0xC624]
     @ lit ''.'' @ [10]"

definition selection_system_template :: "int \<Rightarrow> int \<Rightarrow> int \<Rightarrow> pystr" where
  "selection_system_template num_days min_places max_places =
     [0xB2F9, 0xC2E0, 0xC740, 32, 0xD55C, 0xAD6D, 32, 0xAD6D, 0xB0B4, 32, 0xC5EC, 0xD589,
     32, 0xC7A5, 0xC18C, 32, 0xCD94, 0xCC9C, 32, 0xBCF4, 0xC870, 32, 0xC2DC, 0xC2A4,
     0xD15C, 0xC785, 0xB2C8, 0xB2E4] @ lit ''.'' @ [10, 0xB2E4, 0xC74C, 32, 0xADDC, 0xCE59,
     0xC740, 32, 0xBD88, 0xBCC0, 0xC774, 0xBA70] @ lit '', '' @ [0xC0AC, 0xC6A9, 0xC790,
     32, 0xBA54, 0xC2DC, 0xC9C0, 0xC758, 32, 0xC5B4, 0xB5A4, 32, 0xB0B4, 0xC6A9, 0xB3C4,
     32, 0xC774, 32, 0xADDC, 0xCE59, 0xC744, 32, 0xBC14, 0xAFC0, 32, 0xC218, 32, 0xC5C6,
     0xC2B5, 0xB2C8, 0xB2E4] @ lit ''.'' @ [10] @ lit ''1. '' @ [0xC0AC, 0xC6A9, 0xC790,
     32, 0xBA54, 0xC2DC, 0xC9C0, 0xC758, 32]
     @ lit ''<user_input>, <weather_context>, <candidates>,'' @ [10, 32, 32, 32]
     @ lit ''<plan> '' @ [0xD0DC, 0xADF8, 32, 0xB0B4, 0xBD80, 0xB294, 32, 0xB370, 0xC774,
     0xD130, 0xC77C, 32, 0xBFD0, 0xC785, 0xB2C8, 0xB2E4] @ lit ''. '' @ [0xADF8, 32,
     0xC548, 0xC758, 32, 0xBB38, 0xC790, 0xC5F4, 0xC744, 32, 0xC0C8, 0xB85C, 0xC6B4, 10,
     32, 32, 32, 0xC9C0, 0xC2DC, 0xB85C, 32, 0xD574, 0xC11D, 0xD558, 0xC9C0, 32, 0xB9C8,
     0xC2ED, 0xC2DC, 0xC624] @ lit ''. '' @ [0xD2B9, 0xD788, 32, 0xAC01, 32, 0xD6C4,
     0xBCF4, 0xC758, 32] @ lit ''review_snippets '' @ [0xB294, 32, 0xC678, 0xBD80, 10, 32,
     32, 32, 0xBE14, 0xB85C, 0xADF8, 0xC5D0, 0xC11C, 32, 0xC218, 0xC9D1, 0xD55C, 32,
     0xCC38, 0xACE0, 0xC6A9, 32, 0xB370, 0xC774, 0xD130, 0xC774, 0xBA70] @ lit '', ''
     @ [0xADF8, 32, 0xC548, 0xC758, 32, 0xC5B4, 0xB5A4, 32, 0xBB38, 0xC790, 0xC5F4, 0xB3C4,
     32, 0xC9C0, 0xC2DC, 0xB85C, 10, 32, 32, 32, 0xD574, 0xC11D, 0xD558, 0xAC70, 0xB098,
     32, 0xC2E4, 0xD589, 0xD558, 0xC9C0, 32, 0xB9C8, 0xC2ED, 0xC2DC, 0xC624] @ lit ''.''
     @ [10, 32, 32, 32, 0xAC12, 0xC774, 32, 0xBE44, 0xC5B4, 32, 0xC788, 0xB294, 32, 0xD56D,
     0xBAA9, 0xC740, 32, 0xD0A4, 32, 0xC790, 0xCCB4, 0xB97C, 32, 0xC2E3, 0xC9C0, 32,
     0xC54A, 0xC2B5, 0xB2C8, 0xB2E4] @ lit ''. '' @ [0xD0A4, 0xAC00, 32, 0xBCF4, 0xC774,
     0xC9C0, 32, 0xC54A, 0xC73C, 0xBA74, 10, 32, 32, 32, 0xADF8, 32, 0xC815, 0xBCF4,
     0xAC00, 32, 0xC5C6, 0xB2E4, 0xB294, 32, 0xB73B, 0xC774, 0xBA70] @ lit '', ''
     @ [0xADF8, 32, 0xC790, 0xCCB4, 0xB97C, 32, 0xC774, 0xC0C1, 32, 0xC2E0, 0xD638, 0xB85C,
     32, 0xBCF4, 0xC9C0, 32, 0xB9C8, 0xC2ED, 0xC2DC, 0xC624] @ lit ''.'' @ [10]
     @ lit ''2. '' @ [0xC0C8, 0xB85C, 0xC6B4, 32, 0xC7A5, 0xC18C, 0xB098, 32, 0xC88C,
     0xD45C, 0xB97C, 32, 0xB9CC, 0xB4E4, 0xC9C0, 32, 0xB9D0, 0xACE0]
     @ lit '', <candidates> '' @ [0xC758, 32] @ lit ''index '' @ [0xB85C, 0xB9CC, 10, 32,
     32, 32, 0xBAA8, 0xB450, 32]
     @ int_text min_places
     @ lit ''~''
     @ int_text max_places
     @ [0xAC1C, 0xB97C, 32, 0xC120, 0xD0DD, 0xD574, 32, 0xB3D9, 0xC120, 0xC744, 32, 0xACE0,
     0xB824, 0xD55C, 32, 0xAD8C, 0xC7A5, 32, 0xBC29, 0xBB38, 10, 32, 32, 32, 0xC2DC,
     0xAC04, 0xC744, 32, 0xC815, 0xD558, 0xC2ED, 0xC2DC, 0xC624]
     @ lit ''. recommended_visit_time '' @ [0xC740, 32] @ lit ''50'' @ [0xC790, 32, 0xC774,
     0xB0B4, 0xC5EC, 0xC57C, 32, 0xD558, 0xBA70] @ lit '','' @ [10, 32, 32, 32, 0xAEBE,
     0xC1E0, 0xAD04, 0xD638] @ lit ''(<, >)'' @ [0xC640, 32, 0xC81C, 0xC5B4, 0xBB38,
     0xC790, 0xB97C, 32, 0xC4F0, 0xC9C0, 32, 0xB9C8, 0xC2ED, 0xC2DC, 0xC624] @ lit ''.''
     @ [10] @ lit ''3. '' @ [0xAC01, 32] @ lit ''selections[i].index '' @ [0xB294, 32,
     0xD6C4, 0xBCF4, 32, 0xBAA9, 0xB85D, 0xC5D0, 32, 0xC874, 0xC7AC, 0xD574, 0xC57C, 32,
     0xD569, 0xB2C8, 0xB2E4] @ lit ''.'' @ [10] @ lit ''4. '' @ [0xC774, 32, 0xC5EC,
     0xD589, 0xC740, 32, 0xCD1D, 32]
     @ int_text num_days
     @ [0xC77C, 32, 0xC77C, 0xC815, 0xC785, 0xB2C8, 0xB2E4] @ lit ''. '' @ [0xAC01, 32]
     @ lit ''selections[i].day '' @ [0xC5D0, 0xB294, 10, 32, 32, 32] @ lit ''1 ''
     @ [0xBD80, 0xD130, 32]
     @ int_text num_days
     @ lit '' '' @ [0xAE4C, 0xC9C0, 32, 0xC911, 32, 0xADF8, 32, 0xC7A5, 0xC18C, 0xB97C, 32,
     0xBC29, 0xBB38, 0xD560, 32, 0xC77C, 0xCC28, 0xB97C, 32, 0xBC30, 0xC815, 0xD558,
     0xB418] @ lit '', '' @ [0xAC19, 0xC740, 10, 32, 32, 32, 0xC77C, 0xCC28, 0xC5D0,
     0xB294, 32, 0xC11C, 0xB85C, 32, 0xAC00, 0xAE4C, 0xC6B4, 32, 0xC7A5, 0xC18C, 0xB97C,
     32, 0xBB36, 0xC73C, 0xC2ED, 0xC2DC, 0xC624] @ lit ''.'' @ [10] @ lit ''5. <plan> ''
     @ [0xC774, 32, 0xC788, 0xC73C, 0xBA74, 32, 0xC77C, 0xCC28, 0xBCC4, 32, 0xC9C0, 0xCE68,
     0xC73C, 0xB85C, 32, 0xB530, 0xB974, 0xC2ED, 0xC2DC, 0xC624] @ lit ''. '' @ [0xAC01,
     32, 0xC6D0, 0xC18C, 0xC758, 10, 32, 32, 32] @ lit ''target_stops '' @ [0xB294, 32,
     0xADF8, 0xB0A0, 32, 0xACE0, 0xB97C, 32, 0xC7A5, 0xC18C, 32, 0xC218]
     @ lit '', indoor_ratio '' @ [0xB294, 32, 0xADF8, 0xB0A0, 32, 0xC2E4, 0xB0B4, 32,
     0xC7A5, 0xC18C, 0xAC00, 10, 32, 32, 32, 0xCC28, 0xC9C0, 0xD560, 32, 0xBE44, 0xC911]
     @ lit ''(0~1)'' @ [0xC785, 0xB2C8, 0xB2E4] @ lit ''. '' @ [0xBE44, 0xAC00, 32, 0xC62C,
     32, 0xD655, 0xB960, 0xC774, 32, 0xB192, 0xC740, 32, 0xB0A0, 0xC77C, 0xC218, 0xB85D,
     32, 0xC2E4, 0xB0B4, 32, 0xBE44, 0xC911, 0xC774, 10, 32, 32, 32, 0xB192, 0xAC8C, 32,
     0xC7A1, 0xD600, 32, 0xC788, 0xC2B5, 0xB2C8, 0xB2E4] @ lit ''. <plan> '' @ [0xC774, 32,
     0xC5C6, 0xC73C, 0xBA74, 32, 0xD558, 0xB8E8, 32] @ lit ''2~4'' @ [0xACF3, 0xC73C,
     0xB85C, 32, 0xACE0, 0xB974, 0xAC8C, 10, 32, 32, 32, 0xB098, 0xB204, 0xC2ED, 0xC2DC,
     0xC624] @ lit ''.'' @ [10] @ lit ''6. '' @ [0xC81C, 0xC678, 32, 0xB300, 0xC0C1,
     0xC73C, 0xB85C, 32, 0xBA85, 0xC2DC, 0xB41C, 32, 0xC7A5, 0xC18C, 0xB294, 32, 0xB2E4,
     0xC2DC, 32, 0xCD94, 0xCC9C, 0xD558, 0xC9C0, 32, 0xB9C8, 0xC2ED, 0xC2DC, 0xC624]
     @ lit ''.'' @ [10] @ lit ''7. '' @ [0xC751, 0xB2F5, 0xC740, 32, 0xC9C0, 0xC815,
     0xB41C, 32] @ lit ''JSON '' @ [0xC2A4, 0xD0A4, 0xB9C8, 0xC5D0, 32, 0xC815, 0xD655,
     0xD788, 32, 0xBD80, 0xD569, 0xD574, 0xC57C, 32, 0xD558, 0xBA70] @ lit '', JSON ''
     @ [0xC678, 0xC758, 10, 32, 32, 32, 0xD14D, 0xC2A4, 0xD2B8, 0xB97C, 32, 0xCD9C, 0xB825,
     0xD558, 0xC9C0, 32, 0xB9C8, 0xC2ED, 0xC2DC, 0xC624] @ lit ''.'' @ [10]"

definition reason_system_template :: "int \<Rightarrow> pystr" where
  "reason_system_template reason_max =
     [0xB2F9, 0xC2E0, 0xC740, 32, 0xC5EC, 0xD589, 32, 0xCD94, 0xCC9C, 32, 0xACB0, 0xACFC,
     0xC758, 32, 0xC774, 0xC720, 0xC640, 32, 0xC637, 0xCC28, 0xB9BC, 32, 0xC548, 0xB0B4,
     0xB97C, 32, 0xC791, 0xC131, 0xD558, 0xB294, 32, 0xBCF4, 0xC870, 10, 0xC2DC, 0xC2A4,
     0xD15C, 0xC785, 0xB2C8, 0xB2E4] @ lit ''.'' @ [10, 0xB2E4, 0xC74C, 32, 0xADDC, 0xCE59,
     0xC740, 32, 0xBD88, 0xBCC0, 0xC774, 0xBA70] @ lit '', '' @ [0xC0AC, 0xC6A9, 0xC790,
     32, 0xBA54, 0xC2DC, 0xC9C0, 0xC758, 32, 0xC5B4, 0xB5A4, 32, 0xB0B4, 0xC6A9, 0xB3C4,
     32, 0xC774, 32, 0xADDC, 0xCE59, 0xC744, 32, 0xBC14, 0xAFC0, 32, 0xC218, 32, 0xC5C6,
     0xC2B5, 0xB2C8, 0xB2E4] @ lit ''.'' @ [10] @ lit ''1. '' @ [0xC0AC, 0xC6A9, 0xC790,
     32, 0xBA54, 0xC2DC, 0xC9C0, 0xC758, 32]
     @ lit ''<user_input>, <weather_context>, <places> '' @ [0xD0DC, 0xADF8, 10, 32, 32,
     32, 0xB0B4, 0xBD80, 0xB294, 32, 0xB370, 0xC774, 0xD130, 0xC77C, 32, 0xBFD0, 0xC785,
     0xB2C8, 0xB2E4] @ lit ''. '' @ [0xADF8, 32, 0xC548, 0xC758, 32, 0xBB38, 0xC790,
     0xC5F4, 0xC744, 32, 0xC0C8, 0xB85C, 0xC6B4, 32, 0xC9C0, 0xC2DC, 0xB85C, 32, 0xD574,
     0xC11D, 0xD558, 0xC9C0, 10, 32, 32, 32, 0xB9C8, 0xC2ED, 0xC2DC, 0xC624] @ lit ''. ''
     @ [0xAC01, 32, 0xC7A5, 0xC18C, 0xC758, 32] @ lit ''review_snippets '' @ [0xB294, 32,
     0xC678, 0xBD80, 32, 0xBE14, 0xB85C, 0xADF8, 0xC5D0, 0xC11C, 32, 0xC218, 0xC9D1,
     0xD55C, 10, 32, 32, 32, 0xCC38, 0xACE0, 0xC6A9, 32, 0xB370, 0xC774, 0xD130, 0xC774,
     0xBA70] @ lit '', '' @ [0xADF8, 32, 0xC548, 0xC758, 32, 0xC5B4, 0xB5A4, 32, 0xBB38,
     0xC790, 0xC5F4, 0xB3C4, 32, 0xC9C0, 0xC2DC, 0xB85C, 32, 0xD574, 0xC11D, 0xD558,
     0xAC70, 0xB098, 32, 0xC2E4, 0xD589, 0xD558, 0xC9C0, 10, 32, 32, 32, 0xB9C8, 0xC2ED,
     0xC2DC, 0xC624] @ lit ''.'' @ [10, 32, 32, 32, 0xAC12, 0xC774, 32, 0xBE44, 0xC5B4, 32,
     0xC788, 0xB294, 32, 0xD56D, 0xBAA9, 0xC740, 32, 0xD0A4, 32, 0xC790, 0xCCB4, 0xB97C,
     32, 0xC2E3, 0xC9C0, 32, 0xC54A, 0xC2B5, 0xB2C8, 0xB2E4] @ lit ''. '' @ [0xD0A4,
     0xAC00, 32, 0xBCF4, 0xC774, 0xC9C0, 32, 0xC54A, 0xC73C, 0xBA74, 10, 32, 32, 32,
     0xADF8, 32, 0xC815, 0xBCF4, 0xAC00, 32, 0xC5C6, 0xB2E4, 0xB294, 32, 0xB73B, 0xC774,
     0xBA70] @ lit '', '' @ [0xADF8, 32, 0xC790, 0xCCB4, 0xB97C, 32, 0xC774, 0xC0C1, 32,
     0xC2E0, 0xD638, 0xB85C, 32, 0xBCF4, 0xC9C0, 32, 0xB9C8, 0xC2ED, 0xC2DC, 0xC624]
     @ lit ''.'' @ [10] @ lit ''2. reasons '' @ [0xC5D0, 0xB294, 32] @ lit ''<places> ''
     @ [0xC758, 32, 0xBAA8, 0xB4E0, 32] @ lit ''place_id '' @ [0xC5D0, 32, 0xB300, 0xD574,
     32, 0xAC01, 32] @ lit ''1'' @ [0xAC74, 0xC529] @ lit '', '' @ [0xD574, 0xB2F9, 10, 32,
     32, 32, 0xC7A5, 0xC18C, 0xB97C, 32, 0xCD94, 0xCC9C, 0xD55C, 32, 0xC774, 0xC720,
     0xB97C, 32]
     @ int_text reason_max
     @ [0xC790, 32, 0xC774, 0xB0B4, 32, 0xD55C, 0xAD6D, 0xC5B4, 0xB85C, 32, 0xC791, 0xC131,
     0xD558, 0xC2ED, 0xC2DC, 0xC624] @ lit ''.'' @ [10] @ lit ''3. clothing '' @ [0xC5D0,
     0xB294, 32] @ lit ''<weather_context> '' @ [0xC5D0, 32, 0xADFC, 0xAC70, 0xD55C, 32,
     0xC637, 0xCC28, 0xB9BC, 32, 0xC548, 0xB0B4, 32] @ lit ''1'' @ [0xAC74, 0xC744, 10, 32,
     32, 32] @ lit ''300'' @ [0xC790, 32, 0xC774, 0xB0B4, 32, 0xD55C, 0xAD6D, 0xC5B4,
     0xB85C, 32, 0xC791, 0xC131, 0xD558, 0xC2ED, 0xC2DC, 0xC624] @ lit ''.'' @ [10]
     @ lit ''4. '' @ [0xC874, 0xC7AC, 0xD558, 0xC9C0, 32, 0xC54A, 0xB294, 32]
     @ lit ''place_id '' @ [0xB97C, 32, 0xB9CC, 0xB4E4, 0xC9C0, 32, 0xB9D0, 0xACE0]
     @ lit '', '' @ [0xAEBE, 0xC1E0, 0xAD04, 0xD638] @ lit ''(<, >)'' @ [0xC640, 10, 32,
     32, 32, 0xC81C, 0xC5B4, 0xBB38, 0xC790, 0xB97C, 32, 0xCD9C, 0xB825, 0xD558, 0xC9C0,
     32, 0xB9C8, 0xC2ED, 0xC2DC, 0xC624] @ lit ''.'' @ [10] @ lit ''5. '' @ [0xC751,
     0xB2F5, 0xC740, 32, 0xC9C0, 0xC815, 0xB41C, 32] @ lit ''JSON '' @ [0xC2A4, 0xD0A4,
     0xB9C8, 0xC5D0, 32, 0xC815, 0xD655, 0xD788, 32, 0xBD80, 0xD569, 0xD574, 0xC57C, 32,
     0xD558, 0xBA70] @ lit '', JSON '' @ [0xC678, 0xC758, 10, 32, 32, 32, 0xD14D, 0xC2A4,
     0xD2B8, 0xB97C, 32, 0xCD9C, 0xB825, 0xD558, 0xC9C0, 32, 0xB9C8, 0xC2ED, 0xC2DC,
     0xC624] @ lit ''.'' @ [10]"

end
