(* ===== verification/Prompts.thy ===== *)
theory Prompts
  imports Planning SystemText
begin

text \<open>
  The prompt views of app/nodes/agent_nodes.py. Every text of the user, of the hub and of the blogs
  reaches the model only through the views here, inside a data tag; the theorems show that nothing
  in it can open or close a tag.
\<close>

section \<open>Limits\<close>

definition theme_item_max :: nat where "theme_item_max = 30"
definition theme_count_max :: nat where "theme_count_max = 10"
definition region_max :: nat where "region_max = 20"
definition cand_field_max :: nat where "cand_field_max = 120"
definition weather_str_max :: nat where "weather_str_max = 200"
definition place_name_max :: nat where "place_name_max = 80"
definition visit_time_max :: nat where "visit_time_max = 50"
definition review_snippet_max :: nat where "review_snippet_max = 150"
definition prompt_snippet_keep :: nat where "prompt_snippet_keep = 2"
definition reason_char_budget :: int where "reason_char_budget = 1600"
definition reason_len_max :: int where "reason_len_max = 200"
definition reason_len_min :: int where "reason_len_min = 80"
definition struct_depth :: int where "struct_depth = 6"

definition reason_max_len :: "int \<Rightarrow> int" where
  "reason_max_len place_count =
     (if place_count \<le> 0 then reason_len_max
      else max reason_len_min (min reason_len_max (reason_char_budget div place_count)))"

definition reason_system :: "int \<Rightarrow> pystr" where
  "reason_system place_count = reason_system_template (reason_max_len place_count)"

definition places_system :: "int \<Rightarrow> pystr" where
  "places_system n = places_system_template n (n * 2) (n * 4)"

definition selection_system :: "int \<Rightarrow> pystr" where
  "selection_system n = selection_system_template n (n * 2) (n * 4)"

section \<open>Views\<close>

definition safe_request_view :: "request \<Rightarrow> pyval" where
  "safe_request_view r =
     (let d = rq_date r;
          theme = map (\<lambda>t. PStr (sanitize_text t theme_item_max))
                    (take theme_count_max (case rq_theme r of None \<Rightarrow> [] | Some ts \<Rightarrow> ts))
      in PDict
        [(lit ''date'', PDict
            [(lit ''date_start'', PStr (date_iso (dr_date_start d))),
             (lit ''date_end'', PStr (date_iso (dr_date_end d))),
             (lit ''time_start'', PStr (time_iso (dr_time_start d))),
             (lit ''time_end'', PStr (time_iso (dr_time_end d)))]),
         (lit ''budget_krw'', case rq_budget r of None \<Rightarrow> PNone | Some b \<Rightarrow> PInt b),
         (lit ''theme'', if theme = [] then PNone else PList theme),
         (lit ''mobility'', case rq_mobility r of None \<Rightarrow> PNone
                            | Some m \<Rightarrow> PStr (mobility_value m)),
         (lit ''province'', PStr (sanitize_text (rq_province r) region_max)),
         (lit ''city'', PStr (sanitize_text (rq_city r) region_max))])"

definition weather_daily :: "pyval \<Rightarrow> pyval list option" where
  "weather_daily weather = Option.bind (as_dict weather) (\<lambda>w. as_list (dget w ''daily''))"

definition weather_daily_keys :: "string list" where
  "weather_daily_keys =
     [''date'', ''temp_min'', ''temp_max'', ''precipitation_prob'', ''sky_condition'', ''source'']"

definition weather_view :: "pyval \<Rightarrow> pyval" where
  "weather_view weather =
     (case weather_daily weather of
        None \<Rightarrow> PDict []
      | Some daily \<Rightarrow>
          PDict [(lit ''daily'',
                  PList (map (\<lambda>d. PDict (map (\<lambda>k. (lit k, dget d k)) weather_daily_keys))
                           (dicts_of daily)))])"

text \<open>
  The numbers of one field that the brief keeps: finite, between the sentinels, and a percentage
  where the field is a chance of rain.
\<close>

definition brief_number :: "bool \<Rightarrow> pyval \<Rightarrow> int option" where
  "brief_number percent v =
     (case number_of v of
        Some (Fin r) \<Rightarrow>
          if -900 < r \<and> r < 900 \<and> (percent \<longrightarrow> 0 \<le> r \<and> r \<le> 100) then Some (int_trunc r) else None
      | _ \<Rightarrow> None)"

definition brief_numbers :: "bool \<Rightarrow> string \<Rightarrow> pydict list \<Rightarrow> int list" where
  "brief_numbers percent key ds = List.map_filter (\<lambda>d. brief_number percent (dget d key)) ds"

definition nonempty_str :: "pyval \<Rightarrow> pystr option" where
  "nonempty_str v = (case v of PStr s \<Rightarrow> if s = [] then None else Some s | _ \<Rightarrow> None)"

definition fold_numbers :: "(int \<Rightarrow> int \<Rightarrow> int) \<Rightarrow> int list \<Rightarrow> pyval" where
  "fold_numbers f xs = (case xs of [] \<Rightarrow> PNone | y # ys \<Rightarrow> PInt (foldl f y ys))"

definition weather_brief :: "pyval \<Rightarrow> pyval" where
  "weather_brief weather =
     (case weather_daily weather of
        None \<Rightarrow> PDict []
      | Some daily \<Rightarrow>
          (let ds = dicts_of daily
           in PDict
             [(lit ''temp_min'', fold_numbers min (brief_numbers False ''temp_min'' ds)),
              (lit ''temp_max'', fold_numbers max (brief_numbers False ''temp_max'' ds)),
              (lit ''precipitation_prob_max'',
               fold_numbers max (brief_numbers True ''precipitation_prob'' ds)),
              (lit ''sky'', PList (map PStr (uniq_onto []
                 (List.map_filter (\<lambda>d. nonempty_str (dget d ''sky_condition'')) ds))))]))"

definition sanitize_optional :: "nat \<Rightarrow> pyval \<Rightarrow> pyval" where
  "sanitize_optional max_len v = (case v of PStr s \<Rightarrow> PStr (sanitize_text s max_len) | _ \<Rightarrow> v)"

text \<open>\<open>(reviews.get(key) or [])[:2]\<close>, sanitised; a container cannot be a key.\<close>

definition snippets_for :: "(pyval \<times> pystr list) list \<Rightarrow> pyval \<Rightarrow> pyexn + pyval" where
  "snippets_for reviews key =
     bindE (hash_key key) (\<lambda>k.
       Inr (PList (map (\<lambda>s. PStr (sanitize_text s review_snippet_max))
              (take prompt_snippet_keep
                 (case map_of reviews k of None \<Rightarrow> [] | Some ss \<Rightarrow> ss)))))"

definition candidate_view :: "(pyval \<times> pystr list) list \<Rightarrow> nat \<times> pydict \<Rightarrow> pyexn + pyval" where
  "candidate_view reviews ic =
     (let c = snd ic
      in bindE (snippets_for reviews (dget c ''content_id'')) (\<lambda>snippets.
        Inr (PDict
          [(lit ''index'', PInt (int (fst ic))),
           (lit ''name'', sanitize_optional cand_field_max (dget c ''name'')),
           (lit ''address'', sanitize_optional cand_field_max (dget c ''address'')),
           (lit ''category'', sanitize_optional cand_field_max (dget c ''category'')),
           (lit ''source'', sanitize_optional cand_field_max (dget c ''source'')),
           (lit ''review_snippets'', snippets)])))"

definition opt_text :: "pystr option \<Rightarrow> pyval" where
  "opt_text v = (case v of None \<Rightarrow> PNone | Some s \<Rightarrow> PStr s)"

definition place_view :: "(pyval \<times> pystr list) list \<Rightarrow> place \<Rightarrow> pyexn + pyval" where
  "place_view reviews p =
     bindE (snippets_for reviews (opt_text (pl_content_id p))) (\<lambda>snippets.
       Inr (PDict
         [(lit ''place_id'', PInt (pl_id p)),
          (lit ''name'', PStr (sanitize_text (pl_name p) place_name_max)),
          (lit ''category'', sanitize_optional cand_field_max (opt_text (pl_category p))),
          (lit ''recommended_visit_time'', PStr (sanitize_text (pl_visit_time p) visit_time_max)),
          (lit ''review_snippets'', snippets)]))"

definition plan_day_view :: "plan_day \<Rightarrow> pyval" where
  "plan_day_view d =
     PDict [(lit ''day'', PInt (pn_day d)), (lit ''target_stops'', PInt (pn_target d)),
            (lit ''indoor_ratio'', PFloat (Fin (pn_indoor d))),
            (lit ''precipitation_prob'', case pn_pop d of None \<Rightarrow> PNone | Some p \<Rightarrow> PInt p)]"

definition plan_view :: "plan \<Rightarrow> pyval" where
  "plan_view pl =
     PDict [(lit ''days'', PList (map plan_day_view (pn_days pl))), (lit ''pace'', PStr (pn_pace pl))]"

section \<open>Prompts\<close>

definition weather_value :: "pyval option \<Rightarrow> pyval" where
  "weather_value w = (case w of None \<Rightarrow> PDict [] | Some v \<Rightarrow> v)"

definition build_places_prompt :: "env \<Rightarrow> request \<Rightarrow> pyval \<Rightarrow> pystr \<times> pystr" where
  "build_places_prompt E r weather =
     (let dump = dump_prompt_json (en_frepr E)
      in (places_system (num_days r),
          data_tag ''user_input'' (dump (safe_request_view r))
          @ data_tag ''weather_context''
              (dump (sanitize_struct weather_str_max struct_depth (weather_view weather)))))"

definition build_selection_prompt ::
    "env \<Rightarrow> request \<Rightarrow> pyval \<Rightarrow> pydict list \<Rightarrow> (pyval \<times> pystr list) list \<Rightarrow> plan option
     \<Rightarrow> pyexn + pystr \<times> pystr" where
  "build_selection_prompt E r weather candidates reviews plan =
     (let dump = dump_prompt_json (en_frepr E)
      in bindE (mapE (candidate_view reviews) (enumerate 0 candidates)) (\<lambda>cand_view.
        Inr (selection_system (num_days r),
          data_tag ''user_input'' (dump (safe_request_view r))
          @ data_tag ''weather_context''
              (dump (sanitize_struct weather_str_max struct_depth (weather_view weather)))
          @ data_tag ''candidates'' (dump (PList cand_view))
          @ (case plan of None \<Rightarrow> [] | Some pl \<Rightarrow> data_tag ''plan'' (dump (plan_view pl))))))"

definition build_reason_prompt ::
    "env \<Rightarrow> request \<Rightarrow> pyval \<Rightarrow> place list \<Rightarrow> (pyval \<times> pystr list) list
     \<Rightarrow> pyexn + pystr \<times> pystr" where
  "build_reason_prompt E r weather places reviews =
     (let dump = dump_prompt_json (en_frepr E)
      in bindE (mapE (place_view reviews) places) (\<lambda>views.
        Inr (reason_system (int (length views)),
          data_tag ''user_input'' (dump (safe_request_view r))
          @ data_tag ''weather_context''
              (dump (sanitize_struct weather_str_max struct_depth (weather_brief weather)))
          @ data_tag ''places'' (dump (PList views)))))"

section \<open>Lemmas\<close>

lemma reason_max_len_bounds: "80 \<le> reason_max_len n \<and> reason_max_len n \<le> 200"
  by (simp add: reason_max_len_def reason_len_min_def reason_len_max_def)

lemma tag_free_sanitize: "tag_free (sanitize_text s n)"
  by (rule safe_tag_free, rule sanitize_text_safe)

lemma tag_free_pace: "tag_free (pace a t)"
  by (simp add: pace_def Let_def lit_def)

lemma mobility_value_tag_free: "tag_free (mobility_value m)"
  by (cases m) (simp_all add: lit_def)

lemma safe_request_view_tag_free: "all_strings tag_free (safe_request_view r)"
  by (auto simp: safe_request_view_def Let_def lit_def tag_free_date_iso tag_free_time_iso
      tag_free_sanitize mobility_value_tag_free split: option.splits)

lemma struct_view_tag_free: "all_strings tag_free (sanitize_struct n d v)"
  by (rule all_strings_mono [OF _ sanitize_struct_strings]) (simp add: safe_tag_free)

lemma snippets_for_tag_free: "snippets_for reviews k = Inr v \<Longrightarrow> all_strings tag_free v"
  by (auto simp: snippets_for_def bindE_Inr_iff tag_free_sanitize)

text \<open>The four fields of a candidate that a prompt shows are not containers.\<close>

definition scalar_fields :: "pydict \<Rightarrow> bool" where
  "scalar_fields c \<longleftrightarrow> nest_depth (dget c ''name'') = 0 \<and> nest_depth (dget c ''address'') = 0
     \<and> nest_depth (dget c ''category'') = 0 \<and> nest_depth (dget c ''source'') = 0"

lemma sanitize_optional_tag_free:
  "nest_depth v = 0 \<Longrightarrow> all_strings tag_free (sanitize_optional n v)"
  using prompt_text.clean_scalar_safe [of v n]
  by (auto simp: sanitize_optional_def intro: all_strings_mono [OF safe_tag_free])

lemma candidate_view_tag_free:
  assumes "candidate_view reviews (i, c) = Inr v" and "scalar_fields c"
  shows "all_strings tag_free v"
  using assms
  by (auto simp: candidate_view_def bindE_Inr_iff scalar_fields_def lit_def
      intro: sanitize_optional_tag_free snippets_for_tag_free)

lemma place_view_tag_free: "place_view reviews p = Inr v \<Longrightarrow> all_strings tag_free v"
  by (auto simp: place_view_def bindE_Inr_iff lit_def tag_free_sanitize opt_text_def
      intro!: sanitize_optional_tag_free intro: snippets_for_tag_free split: option.splits)

lemma plan_view_tag_free: "tag_free (pn_pace pl) \<Longrightarrow> all_strings tag_free (plan_view pl)"
  by (auto simp: plan_view_def plan_day_view_def lit_def split: option.splits)

lemma candidate_views_tag_free:
  assumes "mapE (candidate_view reviews) (enumerate n cs) = Inr vs"
    and "\<forall>c \<in> set cs. scalar_fields c"
  shows "all_strings tag_free (PList vs)"
  using assms
  by (induction cs arbitrary: n vs) (auto simp: bindE_Inr_iff candidate_view_tag_free)

lemma place_views_tag_free:
  "mapE (place_view reviews) ps = Inr vs \<Longrightarrow> all_strings tag_free (PList vs)"
  by (induction ps arbitrary: vs) (auto simp: bindE_Inr_iff place_view_tag_free)

lemma mapE_length: "mapE f xs = Inr ys \<Longrightarrow> length ys = length xs"
  by (drule mapE_Inr) (simp add: list_all2_lengthD)

lemma data_tags_chars:
  assumes "\<forall>nb \<in> set nbs. tag_free (lit (fst nb)) \<and> tag_free (snd nb)"
  shows "filter is_tag_char (concat (map (\<lambda>nb. data_tag (fst nb) (snd nb)) nbs))
       = concat (replicate (length nbs) [60, 62, 60, 62])"
  using assms by (induction nbs) (simp_all add: data_tag_chars)

section \<open>Properties\<close>

text \<open>
  C31: The selection prompt is a sequence of the data sections user_input, weather_context,
  candidates and, when there is a strategy, plan, and nothing the user, the hub or a blog wrote
  contains an angle bracket in any of them: the brackets of the whole text are those of the
  sections' own tags. This needs the four shown fields of a candidate not to be containers; a
  string is sanitised, but the elements of a list would be printed as they are (see
  \<open>container_field_not_sanitized\<close>).
\<close>

theorem selection_prompt_contained:
  assumes "\<forall>r. tag_free (en_frepr E r)" and "\<forall>c \<in> set candidates. scalar_fields c"
    and "opt_ok (\<lambda>pl. tag_free (pn_pace pl)) plan"
    and "build_selection_prompt E r weather candidates reviews plan = Inr (system, user)"
  shows "system = selection_system (num_days r)
    \<and> (\<exists>u w c. tag_free u \<and> tag_free w \<and> tag_free c
         \<and> (case plan of
              None \<Rightarrow> user = data_tag ''user_input'' u @ data_tag ''weather_context'' w
                       @ data_tag ''candidates'' c
                    \<and> filter is_tag_char user = concat (replicate 3 [60, 62, 60, 62])
            | Some pl \<Rightarrow> \<exists>p. tag_free p
                    \<and> user = data_tag ''user_input'' u @ data_tag ''weather_context'' w
                       @ data_tag ''candidates'' c @ data_tag ''plan'' p
                    \<and> filter is_tag_char user = concat (replicate 4 [60, 62, 60, 62])))"
proof -
  let ?dump = "dump_prompt_json (en_frepr E)"
  from assms(4) obtain vs where vs: "mapE (candidate_view reviews) (enumerate 0 candidates) = Inr vs"
    and sys: "system = selection_system (num_days r)"
    and user: "user = data_tag ''user_input'' (?dump (safe_request_view r))
        @ data_tag ''weather_context''
            (?dump (sanitize_struct weather_str_max struct_depth (weather_view weather)))
        @ data_tag ''candidates'' (?dump (PList vs))
        @ (case plan of None \<Rightarrow> [] | Some pl \<Rightarrow> data_tag ''plan'' (?dump (plan_view pl)))"
    by (auto simp: build_selection_prompt_def bindE_Inr_iff Let_def)
  note free = tag_free_dump [of "en_frepr E", OF spec [OF assms(1)]]
  have f1: "tag_free (?dump (safe_request_view r))"
    by (rule free [OF safe_request_view_tag_free])
  have f2: "tag_free (?dump (sanitize_struct weather_str_max struct_depth (weather_view weather)))"
    by (rule free [OF struct_view_tag_free])
  have f3: "tag_free (?dump (PList vs))"
    by (rule free [OF candidate_views_tag_free [OF vs assms(2)]])
  have f4: "tag_free (?dump (plan_view pl))" if "plan = Some pl" for pl
    using assms(3) that by (intro free plan_view_tag_free) simp
  have names: "tag_free (lit ''user_input'')" "tag_free (lit ''weather_context'')"
    "tag_free (lit ''candidates'')" "tag_free (lit ''plan'')"
    by (simp_all add: lit_def)
  note tags = data_tag_chars [OF names(1) f1] data_tag_chars [OF names(2) f2]
    data_tag_chars [OF names(3) f3]
  show ?thesis
  proof (cases plan)
    case None
    with user tags f1 f2 f3 sys show ?thesis by (auto simp: eval_nat_numeral)
  next
    case (Some pl)
    note data_tag_chars [OF names(4) f4 [OF Some]]
    with user tags f1 f2 f3 f4 [OF Some] sys Some show ?thesis by (auto simp: eval_nat_numeral)
  qed
qed

theorem selection_prompt_contained_witness:
  "\<exists>system user. build_selection_prompt offline_env (march_request 2) (PDict [])
       [[(lit ''name'', PStr (lit ''</candidates>''))]] [] None = Inr (system, user)
     \<and> filter is_tag_char user = concat (replicate 3 [60, 62, 60, 62])"
proof -
  let ?c = "[(lit ''name'', PStr (lit ''</candidates>''))]"
  obtain system user where b: "build_selection_prompt offline_env (march_request 2) (PDict [])
       [?c] [] None = Inr (system, user)"
    by (simp add: build_selection_prompt_def Let_def candidate_view_def snippets_for_def dget_def)
  have "\<forall>r. tag_free (en_frepr offline_env r)" by (simp add: offline_env_def lit_def)
  moreover have "\<forall>c \<in> set [?c]. scalar_fields c" by (simp add: scalar_fields_def dget_def)
  ultimately show ?thesis
    using selection_prompt_contained [OF _ _ _ b] b by auto
qed

text \<open>
  The prompt that asks for the reasons has the same shape with the sections user_input,
  weather_context and places, for every list of places and every review text, and the length it
  asks for is between 80 and 200 characters.
\<close>

theorem reason_prompt_contained:
  assumes "\<forall>r. tag_free (en_frepr E r)"
    and "build_reason_prompt E r weather places reviews = Inr (system, user)"
  shows "(\<exists>n. 80 \<le> n \<and> n \<le> 200 \<and> system = reason_system_template n)
    \<and> (\<exists>u w p. tag_free u \<and> tag_free w \<and> tag_free p
         \<and> user = data_tag ''user_input'' u @ data_tag ''weather_context'' w @ data_tag ''places'' p
         \<and> filter is_tag_char user = concat (replicate 3 [60, 62, 60, 62]))"
proof -
  let ?dump = "dump_prompt_json (en_frepr E)"
  from assms(2) obtain vs where vs: "mapE (place_view reviews) places = Inr vs"
    and sys: "system = reason_system (int (length vs))"
    and user: "user = data_tag ''user_input'' (?dump (safe_request_view r))
        @ data_tag ''weather_context''
            (?dump (sanitize_struct weather_str_max struct_depth (weather_brief weather)))
        @ data_tag ''places'' (?dump (PList vs))"
    by (auto simp: build_reason_prompt_def bindE_Inr_iff Let_def)
  note free = tag_free_dump [of "en_frepr E", OF spec [OF assms(1)]]
  have f: "tag_free (?dump (safe_request_view r))" "tag_free (?dump (PList vs))"
    "tag_free (?dump (sanitize_struct weather_str_max struct_depth (weather_brief weather)))"
    by (rule free [OF safe_request_view_tag_free], rule free [OF place_views_tag_free [OF vs]],
        rule free [OF struct_view_tag_free])
  have names: "tag_free (lit ''user_input'')" "tag_free (lit ''weather_context'')"
    "tag_free (lit ''places'')" by (simp_all add: lit_def)
  have "filter is_tag_char user = concat (replicate 3 [60, 62, 60, 62])"
    using user data_tag_chars [OF names(1) f(1)] data_tag_chars [OF names(2) f(3)]
      data_tag_chars [OF names(3) f(2)] by (simp add: eval_nat_numeral)
  with user f sys show ?thesis using reason_max_len_bounds by (auto simp: reason_system_def)
qed

theorem reason_prompt_contained_witness:
  "\<exists>system user. build_reason_prompt offline_env (march_request 2) (PDict []) []
       [(PNone, [lit ''<b>''])] = Inr (system, user)
     \<and> filter is_tag_char user = concat (replicate 3 [60, 62, 60, 62])"
proof -
  obtain system user where b: "build_reason_prompt offline_env (march_request 2) (PDict []) []
       [(PNone, [lit ''<b>''])] = Inr (system, user)"
    by (simp add: build_reason_prompt_def Let_def)
  have "\<forall>r. tag_free (en_frepr offline_env r)" by (simp add: offline_env_def lit_def)
  from reason_prompt_contained [OF this b] b show ?thesis by auto
qed

text \<open>A list in the name field reaches the prompt with its tag.\<close>

lemma container_field_not_sanitized:
  "\<exists>v. candidate_view [] (0, [(lit ''name'', PList [PStr (lit ''</candidates>'')])]) = Inr v
     \<and> \<not> all_strings tag_free v"
  by (simp add: candidate_view_def snippets_for_def dget_def sanitize_optional_def lit_def
      is_tag_char_def)

end
