(* ===== verification/Ranking.thy ===== *)
theory Ranking
  imports Prompts
begin

text \<open>
  The candidates: theme keywords, the parallel searches and their merge (\<open>search_places\<close>), the
  radius filter (\<open>rules_filter\<close>), the scores and the stable re-ordering (\<open>score_and_rank\<close>), and
  the cut to the number a prompt may carry (\<open>cap_candidates\<close>), all from app/nodes/agent_nodes.py.
  Candidates are dictionaries by type: both nodes that write the list keep only dictionaries.
\<close>

section \<open>Theme keywords\<close>

definition theme_keyword_table :: "(pystr \<times> pystr) list" where
  "theme_keyword_table =
     [(lit ''food'', [0xB9DB, 0xC9D1]), (lit ''cafe'', [0xCE74, 0xD398]),
      (lit ''photo'', [0xBA85, 0xC18C]), (lit ''nature'', [0xACF5, 0xC6D0]),
      (lit ''history'', [0xBB38, 0xD654, 0xC7AC]), (lit ''activity'', [0xCCB4, 0xD5D8]),
      (lit ''shopping'', [0xC1FC, 0xD551]), (lit ''night'', [0xC57C, 0xACBD])]"

definition theme_query_max :: nat where
  "theme_query_max = 8"

definition theme_keyword :: "pystr \<Rightarrow> pystr" where
  "theme_keyword t =
     (case map_of theme_keyword_table (ascii_lower (strip t)) of
        Some kw \<Rightarrow> kw
      | None \<Rightarrow> strip t)"

definition theme_keywords :: "pystr list option \<Rightarrow> pystr option list" where
  "theme_keywords themes =
     (case themes of
        None \<Rightarrow> [None]
      | Some ts \<Rightarrow>
          (let seen = uniq_onto [] (map theme_keyword
                        (filter (\<lambda>t. strip t \<noteq> []) (take theme_query_max ts)))
           in if seen = [] then [None] else map Some seen))"

section \<open>Preference gains\<close>

definition theme_affinity_table :: "(pystr \<times> pystr \<times> pystr list) list" where
  "theme_affinity_table =
     [(lit ''food'', lit ''FD6'', [[0xC74C, 0xC2DD, 0xC810], [0xD55C, 0xC2DD], [0xC77C, 0xC2DD],
        [0xC911, 0xC2DD], [0xC591, 0xC2DD]]),
      (lit ''cafe'', lit ''CE7'', [[0xCE74, 0xD398], [0xB514, 0xC800, 0xD2B8],
        [0xBCA0, 0xC774, 0xCEE4, 0xB9AC], [0xC81C, 0xACFC]]),
      (lit ''photo'', lit ''AT4'', [[0xBA85, 0xC18C], [0xC804, 0xB9DD],
        [0xD14C, 0xB9C8, 0xD30C, 0xD06C]]),
      (lit ''nature'', lit ''AT4'', [[0xACF5, 0xC6D0], [0xD574, 0xC218, 0xC695, 0xC7A5],
        [0xACC4, 0xACE1], [0xC218, 0xBAA9, 0xC6D0], [0xB4F1, 0xC0B0], [0xC0B0, 0xCC45, 0xB85C],
        [0xAC77, 0xAE30, 0xAE38]]),
      (lit ''history'', lit ''CT1'', [[0xBB38, 0xD654, 0xC720, 0xC801], [0xACE0, 0xAD81],
        [0xAD81, 0xAD90], [0xBC15, 0xBB3C, 0xAD00], [0xBBF8, 0xC220, 0xAD00], [0xC0AC, 0xCC30],
        [0xC720, 0xC801]]),
      (lit ''activity'', lit ''AT4'', [[0xB808, 0xC800], [0xCCB4, 0xD5D8],
        [0xC2A4, 0xD3EC, 0xCE20], [0xC790, 0xC804, 0xAC70, 0xAE38]]),
      (lit ''shopping'', lit ''MT1'', [[0xC1FC, 0xD551], [0xC2DC, 0xC7A5],
        [0xBC31, 0xD654, 0xC810], [0xB9C8, 0xD2B8], [0xC544, 0xC6B8, 0xB81B]]),
      (lit ''night'', lit ''AT4'', [[0xC57C, 0xACBD], [0xC804, 0xB9DD]])]"

definition affinity_max :: real where "affinity_max = 1 / 10"
definition affinity_decay :: real where "affinity_decay = 7 / 10"

text \<open>\<open>needle in (v or "")\<close>: part of a text, member of a list, key of a dict.\<close>

definition text_in :: "pyval \<Rightarrow> pystr \<Rightarrow> pyexn + bool" where
  "text_in v needle =
     (if \<not> truthy v then Inr (contains_text needle [])
      else case v of
          PStr s \<Rightarrow> Inr (contains_text needle s)
        | PList xs \<Rightarrow> Inr (PStr needle \<in> set xs)
        | PDict d \<Rightarrow> Inr (needle \<in> fst ` set d)
        | _ \<Rightarrow> Inl TypeError)"

text \<open>\<open>any(n in text for n in needles)\<close>, left to right.\<close>

fun any_in :: "pyval \<Rightarrow> pystr list \<Rightarrow> pyexn + bool" where
  "any_in v [] = Inr False"
| "any_in v (n # ns) = bindE (text_in v n) (\<lambda>b. if b then Inr True else any_in v ns)"

fun affinity_loop :: "pydict \<Rightarrow> real \<Rightarrow> (nat \<times> pystr) list \<Rightarrow> pyexn + real" where
  "affinity_loop c best [] = Inr best"
| "affinity_loop c best ((i, raw) # rest) =
     (case map_of theme_affinity_table (ascii_lower (strip raw)) of
        None \<Rightarrow> affinity_loop c best rest
      | Some (code, needles) \<Rightarrow>
          bindE (if dget c ''category_group_code'' = PStr code then Inr True
                 else any_in (dget c ''category'') needles)
            (\<lambda>matched. affinity_loop c
               (if matched then max best (affinity_max * affinity_decay ^ i) else best) rest))"

definition affinity :: "pydict \<Rightarrow> pystr list option \<Rightarrow> pyexn + real" where
  "affinity c themes =
     (case themes of
        None \<Rightarrow> Inr 0
      | Some ts \<Rightarrow> affinity_loop c 0 (enumerate 0 (take theme_query_max ts)))"

text \<open>\<open>_segment_stats\<close>: the statistics file, or the empty one when it is missing or malformed.\<close>

definition has_key :: "pydict \<Rightarrow> string \<Rightarrow> bool" where
  "has_key d k \<longleftrightarrow> map_of d (lit k) \<noteq> None"

definition valid_segment :: "pyval \<Rightarrow> bool" where
  "valid_segment v =
     (case v of
        PDict seg \<Rightarrow>
          \<not> has_key seg ''places''
          \<or> (case dget seg ''places'' of
               PDict ps \<Rightarrow> list_all (\<lambda>kv. as_dict (snd kv) \<noteq> None) ps
             | _ \<Rightarrow> False)
      | _ \<Rightarrow> False)"

definition valid_stats :: "pyval \<Rightarrow> bool" where
  "valid_stats v =
     (case v of
        PDict d \<Rightarrow>
          \<not> has_key d ''segments''
          \<or> (case dget d ''segments'' of
               PDict segs \<Rightarrow> list_all (\<lambda>kv. valid_segment (snd kv)) segs
             | _ \<Rightarrow> False)
      | _ \<Rightarrow> False)"

definition segment_stats :: "env \<Rightarrow> pydict" where
  "segment_stats E =
     (let path = cf_stats_path (en_settings E)
      in if path = [] then []
         else case en_stats E path of
             Some v \<Rightarrow> (if valid_stats v then (case v of PDict d \<Rightarrow> d | _ \<Rightarrow> []) else [])
           | None \<Rightarrow> [])"

definition segment_for :: "env \<Rightarrow> pystr option \<Rightarrow> pystr option \<Rightarrow> pyval" where
  "segment_for E age_band gender =
     (let name = (\<lambda>v. case v of None \<Rightarrow> lit ''unknown''
                              | Some s \<Rightarrow> if s = [] then lit ''unknown'' else s);
          key = name age_band @ lit ''|'' @ name gender
      in case dget (segment_stats E) ''segments'' of
           PDict segs \<Rightarrow> (case map_of segs key of None \<Rightarrow> PNone | Some v \<Rightarrow> v)
         | _ \<Rightarrow> PNone)"

text \<open>The stored rate, where it is a number from 0 to 1 or the text of one.\<close>

definition rate_gain :: "env \<Rightarrow> pyval \<Rightarrow> real" where
  "rate_gain E raw =
     (case raw of
        PBool _ \<Rightarrow> 0
      | _ \<Rightarrow> (case py_float (en_pf E) raw of
                Inr (Fin r) \<Rightarrow> if 0 \<le> r \<and> r \<le> 1 then affinity_max * r else 0
              | _ \<Rightarrow> 0))"

definition entry_gain :: "env \<Rightarrow> pyval option \<Rightarrow> real" where
  "entry_gain E entry =
     (case entry of Some (PDict d) \<Rightarrow> rate_gain E (dget d ''rate'') | _ \<Rightarrow> 0)"

definition segment_gain :: "env \<Rightarrow> pydict \<Rightarrow> pyval \<Rightarrow> pyexn + real" where
  "segment_gain E c segment =
     (case segment of
        PDict seg \<Rightarrow>
          (let cid = dget c ''content_id''
           in if \<not> truthy cid then Inr 0
              else case dget seg ''places'' of
                  PDict ps \<Rightarrow>
                    bindE (hash_key cid) (\<lambda>k.
                      Inr (entry_gain E (case k of PStr s \<Rightarrow> map_of ps s | _ \<Rightarrow> None)))
                | _ \<Rightarrow> Inr 0)
      | _ \<Rightarrow> Inr 0)"

section \<open>Searching\<close>

text \<open>
  \<open>_merge_place_results\<close>: candidates with an identifier that was seen before are dropped, those
  without one are kept.
\<close>

fun merge_loop :: "pyval set \<Rightarrow> pydict list \<Rightarrow> pyexn + pydict list" where
  "merge_loop seen [] = Inr []"
| "merge_loop seen (c # cs) =
     (if dget c ''content_id'' = PNone
      then bindE (merge_loop seen cs) (\<lambda>r. Inr (c # r))
      else bindE (hash_key (dget c ''content_id'')) (\<lambda>k.
             if k \<in> seen then merge_loop seen cs
             else bindE (merge_loop (insert k seen) cs) (\<lambda>r. Inr (c # r))))"

definition result_places :: "pyval \<Rightarrow> pydict list" where
  "result_places resp =
     (case resp of
        PDict d \<Rightarrow> (case dget d ''places'' of PList xs \<Rightarrow> dicts_of xs | _ \<Rightarrow> [])
      | _ \<Rightarrow> [])"

definition merge_place_results :: "pyval list \<Rightarrow> pyexn + pydict list" where
  "merge_place_results results = merge_loop {} (concat (map result_places results))"

definition well_formed_result :: "pyval \<Rightarrow> bool" where
  "well_formed_result resp =
     (case resp of PDict d \<Rightarrow> as_list (dget d ''places'') \<noteq> None | _ \<Rightarrow> False)"

definition no_candidates :: "agent_state \<Rightarrow> agent_state" where
  "no_candidates s = s\<lparr>st_candidates := [], st_grounded := False\<rparr>"

text \<open>
  The gathered searches raise one of their exceptions; which one depends on timing, and the first
  in the order of the keywords is taken here. A candidate whose identifier is not hashable has
  already made the merge raise, so the test against the excluded texts cannot.
\<close>

definition default_size :: nat where
  "default_size = 15"

definition search_places :: node where
  "search_places E s =
     (if has_error s then Inr s
      else
        (let r = st_request s;
             mobility = map_option mobility_value (rq_mobility r)
         in case mapE (\<lambda>kw. en_search E (rq_province r) (rq_city r) mobility kw default_size)
                   (theme_keywords (rq_theme r)) of
             Inl e \<Rightarrow>
               if is_http_error e \<or> is_value_error e
               then Inr (no_candidates (update_failure
                      (if fi_code (exception_failure e) = lit ''generation_failed''
                       then failure ''upstream_unavailable'' False
                       else exception_failure e) s))
               else Inl e
           | Inr results \<Rightarrow>
               if \<not> list_all well_formed_result results
               then Inr (no_candidates (update_failure (failure ''upstream_unavailable'' False) s))
               else
                 bindE (merge_place_results results) (\<lambda>candidates.
                   (let exclude = (case rq_exclude r of None \<Rightarrow> [] | Some xs \<Rightarrow> xs);
                        kept = (if exclude = [] then candidates
                                else filter (\<lambda>c. dget c ''content_id'' \<notin> PStr ` set exclude)
                                       candidates)
                    in if kept = [] then Inr (no_candidates s)
                       else Inr (s\<lparr>st_candidates := kept, st_grounded := True\<rparr>)))))"

section \<open>Lemmas\<close>

lemma theme_keyword_nonempty: "strip t \<noteq> [] \<Longrightarrow> theme_keyword t \<noteq> []"
  by (auto simp: theme_keyword_def theme_keyword_table_def split: option.splits if_splits)

lemma affinity_loop_bounds:
  "affinity_loop c best its = Inr a \<Longrightarrow> 0 \<le> best \<Longrightarrow> best \<le> affinity_max
   \<Longrightarrow> best \<le> a \<and> a \<le> affinity_max"
proof (induction c best its rule: affinity_loop.induct)
  case (2 c best i raw rest)
  have decay: "affinity_max * affinity_decay ^ i \<le> affinity_max"
    by (simp add: affinity_max_def affinity_decay_def power_le_one)
  show ?case
  proof (cases "map_of theme_affinity_table (ascii_lower (strip raw))")
    case None
    with 2 show ?thesis by simp
  next
    case (Some spec)
    obtain code needles where spec: "spec = (code, needles)" by (cases spec)
    define best' where "best' m = (if m then max best (affinity_max * affinity_decay ^ i) else best)" for m
    from 2(3) Some spec obtain m where m:
      "(if dget c ''category_group_code'' = PStr code then Inr True
        else any_in (dget c ''category'') needles) = Inr m"
      "affinity_loop c (best' m) rest = Inr a"
      by (auto simp: bindE_Inr_iff best'_def)
    have "best \<le> best' m" "best' m \<le> affinity_max"
      using 2(5) decay by (auto simp: best'_def)
    with 2(2) [OF Some spec [symmetric], of m] m 2(4) show ?thesis
      by (auto simp: best'_def)
  qed
qed simp

lemma affinity_bounds: "affinity c themes = Inr a \<Longrightarrow> 0 \<le> a \<and> a \<le> 1 / 10"
  using affinity_loop_bounds [of c 0]
  by (auto simp: affinity_def affinity_max_def split: option.splits)

lemma rate_gain_bounds: "0 \<le> rate_gain E raw \<and> rate_gain E raw \<le> 1 / 10"
  by (auto simp: rate_gain_def affinity_max_def split: pyval.splits sum.splits pyfloat.splits)

lemma entry_gain_bounds: "0 \<le> entry_gain E v \<and> entry_gain E v \<le> 1 / 10"
  using rate_gain_bounds by (simp add: entry_gain_def split: option.split pyval.split)

lemma segment_gain_bounds: "segment_gain E c segment = Inr g \<Longrightarrow> 0 \<le> g \<and> g \<le> 1 / 10"
proof (cases segment)
  case (PDict seg)
  moreover assume "segment_gain E c segment = Inr g"
  ultimately have "g = 0 \<or> (\<exists>v. g = entry_gain E v)"
    by (cases "dget seg ''places''") (auto simp: segment_gain_def Let_def bindE_Inr_iff split: if_split_asm)
  then show ?thesis using entry_gain_bounds by auto
qed (simp_all add: segment_gain_def)

text \<open>The identifiers of a list of candidates, as the keys a set holds them under.\<close>

definition content_keys :: "pydict list \<Rightarrow> pyval list" where
  "content_keys cs =
     List.map_filter (\<lambda>c. if dget c ''content_id'' = PNone then None
                      else case hash_key (dget c ''content_id'') of Inl _ \<Rightarrow> None | Inr k \<Rightarrow> Some k) cs"

lemma merge_loop_keys:
  "merge_loop seen cs = Inr r
   \<Longrightarrow> distinct (content_keys r) \<and> set (content_keys r) \<inter> seen = {} \<and> subseq r cs"
proof (induction seen cs arbitrary: r rule: merge_loop.induct)
  case (2 seen c cs)
  show ?case
  proof (cases "dget c ''content_id'' = PNone")
    case True
    with 2(4) obtain r' where "merge_loop seen cs = Inr r'" "r = c # r'"
      by (auto simp: bindE_Inr_iff)
    with 2(1) True show ?thesis by (auto simp: content_keys_def List.map_filter_simps)
  next
    case False
    with 2(4) obtain k where k: "hash_key (dget c ''content_id'') = Inr k"
      by (auto simp: bindE_Inr_iff)
    show ?thesis
    proof (cases "k \<in> seen")
      case True
      with 2(2) 2(4) False k show ?thesis by (auto intro: list_emb_Cons)
    next
      case new: False
      with 2(4) False k obtain r' where "merge_loop (insert k seen) cs = Inr r'" "r = c # r'"
        by (auto simp: bindE_Inr_iff)
      with 2(3) [OF False new] k False new show ?thesis
        by (auto simp: content_keys_def List.map_filter_simps)
    qed
  qed
qed (simp add: content_keys_def List.map_filter_simps)

lemma distinct_subseq: "subseq xs ys \<Longrightarrow> distinct ys \<Longrightarrow> distinct xs"
  by (auto simp: subseq_conv_nths intro: distinct_nthsI)

lemma content_keys_filter: "subseq (content_keys (filter P cs)) (content_keys cs)"
  by (induction cs) (auto simp: content_keys_def List.map_filter_simps split: option.splits sum.splits)

lemma search_failure_code:
  "fi_code (if fi_code (exception_failure e) = lit ''generation_failed''
            then failure ''upstream_unavailable'' False else exception_failure e)
   \<in> failure_codes - {lit ''generation_failed''}"
  using exception_failure_code [of e] by (auto simp: failure_codes_def)

section \<open>The contract of the node\<close>

lemma early_no_candidates: "early m s t \<Longrightarrow> early m s (no_candidates t)"
  by (simp add: early_def tame_def no_candidates_def coded_def)

interpretation search_places: quiet_early_node search_places
  by unfold_locales (unfold search_places_def Let_def run_iffs,
    auto intro!: early_no_candidates early_update_failure early_fields simp: exception_failure_code)

section \<open>Properties\<close>

text \<open>
  The theme keywords are never empty as a list, contain no keyword twice and at most eight, so
  a request makes between one and eight searches; the search without a keyword is made only when no
  theme is usable, and no keyword is empty.
\<close>

theorem theme_keywords_bounded:
  "1 \<le> length (theme_keywords themes) \<and> length (theme_keywords themes) \<le> 8
   \<and> distinct (theme_keywords themes)
   \<and> (None \<in> set (theme_keywords themes)) = (theme_keywords themes = [None])
   \<and> Some [] \<notin> set (theme_keywords themes)"
proof (cases themes)
  case None
  then show ?thesis by (simp add: theme_keywords_def)
next
  case (Some ts)
  define kws where "kws = map theme_keyword (filter (\<lambda>t. strip t \<noteq> []) (take theme_query_max ts))"
  have len: "length (uniq_onto [] kws) \<le> 8"
    using length_uniq_onto [of "[]" kws] length_filter_le [of "\<lambda>t. strip t \<noteq> []" "take theme_query_max ts"]
    by (simp add: kws_def theme_query_max_def)
  have ne: "w \<noteq> []" if "w \<in> set (uniq_onto [] kws)" for w
    using that by (auto simp: kws_def theme_keyword_nonempty)
  have "theme_keywords themes = (if uniq_onto [] kws = [] then [None] else map Some (uniq_onto [] kws))"
    by (simp add: theme_keywords_def Some kws_def Let_def)
  with len ne distinct_uniq_onto [of "[]" kws] show ?thesis
    by (auto simp: distinct_map Suc_le_eq)
qed

text \<open>
  C36: A search that does not end the run either fails the job with a code other than
  \<open>generation_failed\<close> and no candidates, or keeps candidates with pairwise different identifiers,
  none of which the request excluded, and is \<open>grounded\<close> exactly when there are any.
\<close>

theorem search_places_result:
  assumes "\<not> has_error s" and "search_places E s = Inr s'"
  shows "(has_error s' \<and> st_candidates s' = [] \<and> \<not> st_grounded s'
            \<and> (\<exists>c \<in> failure_codes - {lit ''generation_failed''}. st_code s' = Some c))
       \<or> (\<not> has_error s' \<and> distinct (content_keys (st_candidates s'))
            \<and> (\<forall>c \<in> set (st_candidates s'). \<forall>x. dget c ''content_id'' = PStr x
                 \<longrightarrow> x \<notin> set (case rq_exclude (st_request s) of None \<Rightarrow> [] | Some xs \<Rightarrow> xs))
            \<and> (st_grounded s' \<longleftrightarrow> st_candidates s' \<noteq> []))"
proof -
  let ?r = "st_request s"
  let ?ex = "case rq_exclude ?r of None \<Rightarrow> [] | Some xs \<Rightarrow> xs"
  let ?call = "mapE (\<lambda>kw. en_search E (rq_province ?r) (rq_city ?r)
      (map_option mobility_value (rq_mobility ?r)) kw default_size) (theme_keywords (rq_theme ?r))"
  have failed: ?thesis if "s' = no_candidates (update_failure f s)" "fi_error f \<noteq> []"
      "fi_code f \<in> failure_codes - {lit ''generation_failed''}" for f
    using that by (auto simp: no_candidates_def has_error_def)
  show ?thesis
  proof (cases ?call)
    case (Inl e)
    then have "s' = no_candidates (update_failure
        (if fi_code (exception_failure e) = lit ''generation_failed''
         then failure ''upstream_unavailable'' False else exception_failure e) s)"
      using assms by (auto simp: search_places_def Let_def split: if_split_asm)
    then show ?thesis
      by (rule failed) (use search_failure_code [of e] exception_failure_nonempty in \<open>auto split: if_splits\<close>)
  next
    case (Inr results)
    show ?thesis
    proof (cases "list_all well_formed_result results")
      case False
      then have "s' = no_candidates (update_failure (failure ''upstream_unavailable'' False) s)"
        using assms Inr by (auto simp: search_places_def Let_def)
      then show ?thesis by (rule failed) (simp_all add: failure_codes_def)
    next
      case True
      then obtain cs where merged: "merge_place_results results = Inr cs"
        and s': "(if (if ?ex = [] then cs else filter (\<lambda>c. dget c ''content_id'' \<notin> PStr ` set ?ex) cs) = []
             then Inr (no_candidates s)
             else Inr (s\<lparr>st_candidates := (if ?ex = [] then cs
                    else filter (\<lambda>c. dget c ''content_id'' \<notin> PStr ` set ?ex) cs),
                  st_grounded := True\<rparr>)) = (Inr s' :: pyexn + agent_state)"
        using assms Inr by (auto simp: search_places_def Let_def bindE_Inr_iff)
      define kept where "kept = (if ?ex = [] then cs
          else filter (\<lambda>c. dget c ''content_id'' \<notin> PStr ` set ?ex) cs)"
      have "distinct (content_keys cs)"
        using merged merge_loop_keys by (simp add: merge_place_results_def)
      then have d: "distinct (content_keys kept)"
        using distinct_subseq [OF content_keys_filter] by (auto simp: kept_def)
      have x: "x \<notin> set ?ex" if "c \<in> set kept" "dget c ''content_id'' = PStr x" for c x
        using that by (cases "?ex = []") (auto simp: kept_def)
      from s' have "s' = (if kept = [] then no_candidates s
          else s\<lparr>st_candidates := kept, st_grounded := True\<rparr>)"
        unfolding kept_def by (auto split: if_splits)
      with d x assms(1) show ?thesis
        by (auto simp: no_candidates_def has_error_def content_keys_def List.map_filter_simps)
    qed
  qed
qed

theorem search_places_result_witness:
  "\<exists>s'. search_places
       (offline_env\<lparr>en_search := \<lambda>_ _ _ _ _. Inr (PDict [(lit ''places'',
          PList [PDict [(lit ''content_id'', PStr (lit ''a''))],
                 PDict [(lit ''content_id'', PStr (lit ''a''))]])])\<rparr>)
       (start_state [] (march_request 2)) = Inr s'
     \<and> st_candidates s' = [[(lit ''content_id'', PStr (lit ''a''))]]
     \<and> distinct (content_keys (st_candidates s'))"
proof -
  let ?E = "offline_env\<lparr>en_search := \<lambda>_ _ _ _ _. Inr (PDict [(lit ''places'',
          PList [PDict [(lit ''content_id'', PStr (lit ''a''))],
                 PDict [(lit ''content_id'', PStr (lit ''a''))]])])\<rparr>"
  let ?s = "start_state [] (march_request 2)"
  have kw: "theme_keywords (rq_theme (march_request 2)) = [Some [0xCE74, 0xD398]]"
    by (simp add: march_request_def theme_keywords_def theme_query_max_def theme_keyword_def
        theme_keyword_table_def strip_def is_space_def ascii_lower_def lit_def)
  have ok: "\<not> has_error ?s" by (simp add: start_state_def has_error_def)
  have run: "search_places ?E ?s = Inr (?s\<lparr>st_candidates :=
      [[(lit ''content_id'', PStr (lit ''a''))]], st_grounded := True\<rparr>)"
    using ok kw
    by (simp add: search_places_def start_state_def Let_def well_formed_result_def dget_def
        merge_place_results_def result_places_def) (simp add: march_request_def)
  from search_places_result [OF ok run] run show ?thesis by auto
qed

text \<open>
  A failed search is an error of the job: the node sets one, unlike what the wiring of the graph
  says of it.
\<close>

lemma search_failure_is_error:
  "\<exists>s'. search_places offline_env (start_state [] (march_request 2)) = Inr s' \<and> has_error s'"
  by (simp add: search_places_def start_state_def has_error_def theme_keywords_def march_request_def
      offline_env_def is_http_error_def no_candidates_def Let_def exception_failure_def
      theme_query_max_def theme_keyword_def theme_keyword_table_def strip_def is_space_def
      ascii_lower_def lit_def)

end
