(* ===== verification/Scoring.thy ===== *)
theory Scoring
  imports Ranking
begin

text \<open>
  Filtering, scoring and cutting the candidates: \<open>rules_filter\<close>, \<open>score_and_rank\<close>,
  \<open>_candidate_limit\<close> and \<open>_cap_candidates\<close> of app/nodes/agent_nodes.py.
\<close>

section \<open>Radius filter\<close>

fun float_add :: "pyfloat \<Rightarrow> pyfloat \<Rightarrow> pyfloat" where
  "float_add (Fin a) (Fin b) = Fin (a + b)"
| "float_add NaN _ = NaN"
| "float_add _ NaN = NaN"
| "float_add PosInf NegInf = NaN"
| "float_add NegInf PosInf = NaN"
| "float_add PosInf _ = PosInf"
| "float_add NegInf _ = NegInf"
| "float_add (Fin _) v = v"

fun float_over :: "pyfloat \<Rightarrow> nat \<Rightarrow> pyfloat" where
  "float_over (Fin a) n = Fin (a / of_nat n)"
| "float_over v n = v"

text \<open>\<open>sum(v for ...) / len(...)\<close>: a member that is no number cannot be added.\<close>

definition py_mean :: "pyval list \<Rightarrow> pyexn + pyfloat" where
  "py_mean vs =
     bindE (mapE (\<lambda>v. case number_or_bool v of Some f \<Rightarrow> Inr f | None \<Rightarrow> Inl TypeError) vs)
       (\<lambda>fs. Inr (float_over (foldl float_add (Fin 0) fs) (length fs)))"

definition coordinates :: "pydict list \<Rightarrow> (pyval \<times> pyval) list" where
  "coordinates cs =
     map (\<lambda>c. (dget c ''lat'', dget c ''lng''))
       (filter (\<lambda>c. dget c ''lat'' \<noteq> PNone \<and> dget c ''lng'' \<noteq> PNone) cs)"

text \<open>\<open>resp.get(key) or [] if isinstance(resp, dict) else []\<close>, its dictionaries only.\<close>

definition response_dicts :: "string \<Rightarrow> pyval \<Rightarrow> pyexn + pydict list" where
  "response_dicts key resp =
     (case resp of
        PDict d \<Rightarrow> bindE (iter_or_empty (dget d key)) (\<lambda>xs. Inr (dicts_of xs))
      | _ \<Rightarrow> Inr [])"

text \<open>The exceptions of a hub call that the two rule nodes absorb.\<close>

definition absorbed :: "pyexn \<Rightarrow> bool" where
  "absorbed e \<longleftrightarrow> is_http_error e \<or> is_value_error e \<or> e = KeyError"

definition rules_filter :: node where
  "rules_filter E s =
     (if has_error s \<or> \<not> cf_rules (en_settings E) then Inr s
      else if st_candidates s = [] \<or> \<not> st_grounded s then Inr s
      else case rq_mobility (st_request s) of
          None \<Rightarrow> Inr s
        | Some mob \<Rightarrow>
            (let coords = coordinates (st_candidates s)
             in if coords = [] then Inr s
                else
                  bindE (py_mean (map fst coords)) (\<lambda>lat.
                  bindE (py_mean (map snd coords)) (\<lambda>lng.
                    (case en_radius E (lat, lng) (mobility_value mob) (st_candidates s) of
                       Inl e \<Rightarrow> if absorbed e then Inr s else Inl e
                     | Inr resp \<Rightarrow>
                         bindE (response_dicts ''filtered'' resp) (\<lambda>filtered.
                           if filtered = [] then Inr (no_candidates s)
                           else Inr (s\<lparr>st_candidates := filtered\<rparr>)))))))"

section \<open>Scores\<close>

definition indoor_groups :: "pystr set" where
  "indoor_groups = {lit ''CE7'', lit ''FD6'', lit ''CT1'', lit ''MT1'', lit ''AD5''}"

text \<open>\<open>code in _INDOOR_CATEGORY_GROUPS\<close>.\<close>

definition is_indoor :: "pydict \<Rightarrow> pyexn + bool" where
  "is_indoor c =
     bindE (hash_key (dget c ''category_group_code''))
       (\<lambda>k. Inr (case k of PStr code \<Rightarrow> code \<in> indoor_groups | _ \<Rightarrow> False))"

definition max_float :: "pyfloat list \<Rightarrow> pyfloat option" where
  "max_float fs = (case fs of [] \<Rightarrow> None | f # rest \<Rightarrow> Some (foldl max f rest))"

definition day_pop_max :: "agent_state \<Rightarrow> pyexn + pyfloat option" where
  "day_pop_max s =
     (case st_plan s of
        Some pl \<Rightarrow>
          if pn_days pl \<noteq> []
          then Inr (max_float (map (\<lambda>p. Fin (of_int p))
                 (filter (\<lambda>p. 0 \<le> p \<and> p \<le> 100) (List.map_filter pn_pop (pn_days pl)))))
          else bindE (daily_entries (st_weather s)) (\<lambda>ds. Inr (max_float
                 (filter (in_range 0 100)
                   (List.map_filter (\<lambda>d. number_of (dget d ''precipitation_prob'')) ds))))
      | None \<Rightarrow> bindE (daily_entries (st_weather s)) (\<lambda>ds. Inr (max_float
                 (filter (in_range 0 100)
                   (List.map_filter (\<lambda>d. number_of (dget d ''precipitation_prob'')) ds)))))"

definition rank_base :: "nat \<Rightarrow> real" where
  "rank_base i = 1 - of_nat i / 100"

definition poi :: "env \<Rightarrow> pystr list option \<Rightarrow> pyval \<Rightarrow> nat \<times> pydict \<Rightarrow> pyexn + pyval \<times> bool \<times> real" where
  "poi E themes segment ic =
     bindE (is_indoor (snd ic)) (\<lambda>indoor.
     bindE (affinity (snd ic) themes) (\<lambda>a.
     bindE (segment_gain E (snd ic) segment) (\<lambda>g.
       Inr (dget (snd ic) ''content_id'', indoor, rank_base (fst ic) + max a g))))"

definition score_pairs :: "pydict list \<Rightarrow> pyexn + (pyval \<times> pyfloat) list" where
  "score_pairs scored =
     bindE (mapE (\<lambda>kv. bindE (hash_key (fst kv)) (\<lambda>k. Inr (k, snd kv)))
              (List.map_filter
                 (\<lambda>d. if dget d ''content_id'' = PNone then None
                      else map_option (Pair (dget d ''content_id''))
                             (number_or_bool (dget d ''score''))) scored))
       (\<lambda>kvs. Inr (dict_of_pairs kvs))"

definition sort_value :: "(pyval \<times> pyfloat) list \<Rightarrow> nat \<times> pydict \<Rightarrow> pyexn + pyfloat" where
  "sort_value scores ic =
     bindE (hash_key (dget (snd ic) ''content_id'')) (\<lambda>k.
       Inr (neg_float (case map_of scores k of Some f \<Rightarrow> f | None \<Rightarrow> Fin (rank_base (fst ic)))))"

text \<open>
  The positions in the order \<open>sorted\<close> leaves them: stable by the key. A NaN compares false with
  every number, so where a key is NaN the result depends on the runtime's sorting algorithm and is
  the environment's; it is a rearrangement of the positions whatever the comparisons say.
\<close>

definition sort_order :: "env \<Rightarrow> pyfloat list \<Rightarrow> nat list" where
  "sort_order E keys =
     (if NaN \<in> set keys
      then if sort (en_nan_order E keys) = [0..<length keys] then en_nan_order E keys
           else [0..<length keys]
      else sort_key (\<lambda>i. keys ! i) [0..<length keys])"

text \<open>\<open>[c for _, c in sorted(enumerate(candidates), key=...)]\<close>.\<close>

definition rank_by :: "env \<Rightarrow> (pyval \<times> pyfloat) list \<Rightarrow> pydict list \<Rightarrow> pyexn + pydict list" where
  "rank_by E scores candidates =
     bindE (mapE (sort_value scores) (enumerate 0 candidates)) (\<lambda>keys.
       Inr (map (\<lambda>i. candidates ! i) (sort_order E keys)))"

definition score_and_rank :: node where
  "score_and_rank E s =
     (if has_error s \<or> \<not> cf_rules (en_settings E) then Inr s
      else if st_candidates s = [] \<or> \<not> st_grounded s then Inr s
      else
        bindE (day_pop_max s) (\<lambda>pop.
          (let personal = cf_personalization (en_settings E);
               themes = (if personal then rq_theme (st_request s) else None);
               segment = (if personal then segment_for E None None else PNone)
           in bindE (mapE (poi E themes segment)
                (filter (\<lambda>ic. truthy (dget (snd ic) ''content_id''))
                   (enumerate 0 (st_candidates s)))) (\<lambda>pois.
             if pois = [] then Inr s
             else case en_bonus E pois pop of
                 Inl e \<Rightarrow> if absorbed e then Inr s else Inl e
               | Inr resp \<Rightarrow>
                   bindE (response_dicts ''scored'' resp) (\<lambda>scored.
                   bindE (score_pairs scored) (\<lambda>scores.
                     if scores = [] then Inr s
                     else bindE (rank_by E scores (st_candidates s)) (\<lambda>ranked.
                       Inr (s\<lparr>st_scores := scores, st_candidates := ranked\<rparr>))))))))"

section \<open>Cutting to the prompt\<close>

definition candidate_limit :: "env \<Rightarrow> request \<Rightarrow> int" where
  "candidate_limit E r =
     max (cf_cand_base (en_settings E)) (num_days r * cf_cand_per_day (en_settings E))"

definition positions :: "bool \<Rightarrow> bool list \<Rightarrow> nat list" where
  "positions b flags = filter (\<lambda>i. flags ! i = b) [0..<length flags]"

definition cap_indices :: "bool list \<Rightarrow> nat \<Rightarrow> nat list" where
  "cap_indices flags limit =
     (let indoor = positions True flags; outdoor = positions False flags;
          take_in = take (limit div 2) indoor;
          take_out = take (limit - length take_in) outdoor;
          short = limit - length take_in - length take_out;
          take_in = (if 0 < short then take_in @ take short (drop (length take_in) indoor)
                     else take_in)
      in sort (take_in @ take_out))"

definition cap_candidates :: "pydict list \<Rightarrow> int \<Rightarrow> pyexn + pydict list" where
  "cap_candidates candidates limit =
     (if limit \<le> 0 \<or> int (length candidates) \<le> limit then Inr candidates
      else bindE (mapE is_indoor candidates) (\<lambda>flags.
             Inr (map (\<lambda>i. candidates ! i) (cap_indices flags (nat limit)))))"

section \<open>Lemmas\<close>

lemma sort_value_spec:
  assumes "mapE (sort_value scores) (enumerate n cs) = Inr keys" and "i < length cs"
  shows "sort_value scores (n + i, cs ! i) = Inr (keys ! i)"
proof -
  have "list_all2 (\<lambda>x y. sort_value scores x = Inr y) (enumerate n cs) keys"
    by (rule mapE_Inr [OF assms(1)])
  with assms(2) show ?thesis
    by (auto simp: list_all2_conv_all_nth nth_enumerate_eq)
qed

lemma sort_order_perm [simp]: "mset (sort_order E keys) = mset [0..<length keys]"
  unfolding sort_order_def by (auto dest: arg_cong [where f = mset])

lemma sort_order_length [simp]: "length (sort_order E keys) = length keys"
  using arg_cong [OF sort_order_perm, of length_mset] mset_eq_length [OF sort_order_perm, of E keys] by simp

text \<open>
  What a candidate at position \<open>i\<close> is ranked by: the service's score of its id, and where it has
  none the value its place in the list had.
\<close>

definition effective_score :: "(pyval \<times> pyfloat) list \<Rightarrow> nat \<Rightarrow> pydict \<Rightarrow> pyfloat" where
  "effective_score scores i c =
     (case hash_key (dget c ''content_id'') of
        Inl _ \<Rightarrow> Fin (1 - of_nat i / 100)
      | Inr k \<Rightarrow> (case map_of scores k of Some f \<Rightarrow> f | None \<Rightarrow> Fin (1 - of_nat i / 100)))"

lemma sort_value_effective:
  "sort_value scores (i, c) = Inr k \<Longrightarrow> k = neg_float (effective_score scores i c)"
  by (auto simp: sort_value_def effective_score_def bindE_Inr_iff rank_base_def split: option.splits)

text \<open>Smaller values first, and of equal ones the one that came first.\<close>

lemma sorted_wrt_filter_nth:
  assumes "sorted_wrt (<) (filter P xs)" and "p < q" and "q < length xs" and "P (xs ! p)" and "P (xs ! q)"
  shows "xs ! p < xs ! q"
proof -
  have "xs = take q xs @ xs ! q # drop (Suc q) xs"
    using assms(3) by (rule id_take_nth_drop)
  then have "filter P xs = filter P (take q xs) @ xs ! q # filter P (drop (Suc q) xs)"
    using assms(5) by (metis filter.simps(2) filter_append)
  moreover have "xs ! p \<in> set (filter P (take q xs))"
    using assms(2,3,4) by (auto simp: in_set_conv_nth intro!: exI [of _ p])
  ultimately show ?thesis
    using assms(1) by (auto simp: sorted_wrt_append)
qed

lemma sort_key_positions:
  fixes keys :: "'a :: linorder list"
  assumes "p < q" and "q < length keys"
  defines "os \<equiv> sort_key (\<lambda>i. keys ! i) [0..<length keys]"
  shows "keys ! (os ! p) < keys ! (os ! q) \<or> keys ! (os ! p) = keys ! (os ! q) \<and> os ! p < os ! q"
proof -
  have len: "length os = length keys" by (simp add: os_def)
  have "sorted (map (\<lambda>i. keys ! i) os)" unfolding os_def by (rule sorted_sort_key)
  then have le: "keys ! (os ! p) \<le> keys ! (os ! q)"
    using assms(1,2) len by (auto simp: sorted_iff_nth_mono dest: spec [of _ p])
  have "os ! p < os ! q" if "keys ! (os ! p) = keys ! (os ! q)"
  proof (rule sorted_wrt_filter_nth [where P = "\<lambda>i. keys ! i = keys ! (os ! q)"])
    have "filter (\<lambda>i. keys ! i = keys ! (os ! q)) os
        = filter (\<lambda>i. keys ! i = keys ! (os ! q)) [0..<length keys]"
      unfolding os_def by (rule sort_key_stable)
    then show "sorted_wrt (<) (filter (\<lambda>i. keys ! i = keys ! (os ! q)) os)"
      by (simp add: sorted_wrt_filter)
  qed (use that assms(1,2) len in auto)
  with le show ?thesis by auto
qed

lemma neg_float_less: "neg_float a < neg_float b \<Longrightarrow> b \<noteq> NaN \<Longrightarrow> b < a"
  by (cases a; cases b) (auto simp: less_pyfloat_def)

lemma neg_float_eq [simp]: "neg_float a = neg_float b \<longleftrightarrow> a = b"
  by (cases a; cases b) auto

lemma neg_float_NaN [simp]: "neg_float a = NaN \<longleftrightarrow> a = NaN" "NaN = neg_float a \<longleftrightarrow> a = NaN"
  by (cases a; auto)+

text \<open>
  \<open>ranked_by score cs ranked\<close>: the second list holds the candidates of the first at a
  rearrangement of their positions, the higher score first and equal scores in their old order.
\<close>

definition ranked_by :: "(nat \<Rightarrow> pydict \<Rightarrow> pyfloat) \<Rightarrow> pydict list \<Rightarrow> pydict list \<Rightarrow> bool" where
  "ranked_by score cs ranked \<longleftrightarrow>
     (\<exists>ps. mset ps = mset [0..<length cs] \<and> ranked = map (\<lambda>i. cs ! i) ps
        \<and> (\<forall>p q. p < q \<and> q < length ps \<longrightarrow>
             score (ps ! q) (cs ! (ps ! q)) < score (ps ! p) (cs ! (ps ! p))
             \<or> score (ps ! q) (cs ! (ps ! q)) = score (ps ! p) (cs ! (ps ! p)) \<and> ps ! p < ps ! q))"

lemma rank_by_keys:
  assumes "rank_by E scores cs = Inr ranked"
  obtains keys where "length keys = length cs" and "ranked = map (\<lambda>i. cs ! i) (sort_order E keys)"
    and "\<And>i. i < length cs \<Longrightarrow> keys ! i = neg_float (effective_score scores i (cs ! i))"
proof -
  from assms obtain keys where keys: "mapE (sort_value scores) (enumerate 0 cs) = Inr keys"
    and "ranked = map (\<lambda>i. cs ! i) (sort_order E keys)"
    by (auto simp: rank_by_def bindE_Inr_iff)
  moreover have "length keys = length cs" using mapE_length [OF keys] by simp
  ultimately show thesis
    using that sort_value_spec [OF keys] sort_value_effective by (metis add_0)
qed

lemma rank_by_mset: "rank_by E scores cs = Inr ranked \<Longrightarrow> mset ranked = mset cs"
  by (erule rank_by_keys) (metis map_nth mset_map sort_order_perm)

lemma rank_by_ranked:
  assumes "rank_by E scores cs = Inr ranked" and "NaN \<notin> snd ` set scores"
  shows "ranked_by (effective_score scores) cs ranked"
  using assms(1)
proof (rule rank_by_keys)
  fix keys
  assume len: "length keys = length cs" and ranked: "ranked = map (\<lambda>i. cs ! i) (sort_order E keys)"
    and key: "\<And>i. i < length cs \<Longrightarrow> keys ! i = neg_float (effective_score scores i (cs ! i))"
  have fin: "effective_score scores i c \<noteq> NaN" for i c
    using assms(2) by (force simp: effective_score_def split: sum.splits option.splits dest!: map_of_SomeD)
  then have "NaN \<notin> set keys" using key len by (auto simp: in_set_conv_nth)
  then have order: "sort_order E keys = sort_key (\<lambda>i. keys ! i) [0..<length keys]"
    by (simp add: sort_order_def)
  let ?ps = "sort_order E keys"
  have "effective_score scores (?ps ! q) (cs ! (?ps ! q)) < effective_score scores (?ps ! p) (cs ! (?ps ! p))
      \<or> effective_score scores (?ps ! q) (cs ! (?ps ! q)) = effective_score scores (?ps ! p) (cs ! (?ps ! p))
        \<and> ?ps ! p < ?ps ! q" if pq: "p < q" "q < length ?ps" for p q
  proof -
    have "?ps ! p < length cs" "?ps ! q < length cs"
      using pq len mset_eq_setD [OF sort_order_perm, of E keys] by (metis atLeastLessThan_iff
        dual_order.strict_trans nth_mem set_upt)+
    with sort_key_positions [of p q keys] pq key fin show ?thesis
      unfolding order by (auto dest: neg_float_less)
  qed
  with ranked len show ?thesis
    unfolding ranked_by_def by (intro exI [of _ ?ps]) simp
qed

text \<open>The service's answer to a request holds these scores.\<close>

definition answers_with :: "env \<Rightarrow> (pyval \<times> bool \<times> real) list \<Rightarrow> pyfloat option
    \<Rightarrow> (pyval \<times> pyfloat) list \<Rightarrow> bool" where
  "answers_with E pois pop scores \<longleftrightarrow>
     (\<exists>resp scored. en_bonus E pois pop = Inr resp \<and> response_dicts ''scored'' resp = Inr scored
        \<and> score_pairs scored = Inr scores \<and> scores \<noteq> [])"

lemma answers_with_unique:
  "answers_with E pois pop scores \<Longrightarrow> answers_with E pois pop scores' \<Longrightarrow> scores' = scores"
  by (auto simp: answers_with_def)

text \<open>The last number an answer gives for an id.\<close>

definition last_score :: "pydict list \<Rightarrow> pystr \<Rightarrow> pyfloat option" where
  "last_score scored x =
     (case rev (List.map_filter (\<lambda>d. if dget d ''content_id'' = PStr x
                                    then number_or_bool (dget d ''score'') else None) scored) of
        [] \<Rightarrow> None | f # fs \<Rightarrow> Some f)"

lemma hash_key_is_text: "hash_key v = Inr (PStr x) \<longleftrightarrow> v = PStr x"
  by (cases v rule: hash_key.cases) auto

lemma map_of_hd: "map_of kvs k = (case map snd (filter (\<lambda>kv. fst kv = k) kvs) of [] \<Rightarrow> None | v # vs \<Rightarrow> Some v)"
  by (induction kvs) auto

lemma scored_values:
  assumes "mapE (\<lambda>kv. bindE (hash_key (fst kv)) (\<lambda>k. Inr (k, snd kv)))
      (List.map_filter (\<lambda>d. if dget d ''content_id'' = PNone then None
          else map_option (Pair (dget d ''content_id'')) (number_or_bool (dget d ''score''))) scored) = Inr kvs"
  shows "map snd (filter (\<lambda>kv. fst kv = PStr x) kvs) = List.map_filter (\<lambda>d. if dget d ''content_id'' = PStr x
      then number_or_bool (dget d ''score'') else None) scored"
  using assms
proof (induction scored arbitrary: kvs)
  case (Cons d ds)
  show ?case
  proof (cases "dget d ''content_id'' = PNone \<or> number_or_bool (dget d ''score'') = None")
    case True
    then have "(if dget d ''content_id'' = PNone then None
        else map_option (Pair (dget d ''content_id'')) (number_or_bool (dget d ''score''))) = None"
      and "(if dget d ''content_id'' = PStr x then number_or_bool (dget d ''score'') else None) = None" by auto
    with Cons show ?thesis by (simp add: List.map_filter_simps)
  next
    case False
    then obtain f where f: "dget d ''content_id'' \<noteq> PNone" "number_or_bool (dget d ''score'') = Some f" by auto
    with Cons.prems obtain k ks where k: "hash_key (dget d ''content_id'') = Inr k" "kvs = (k, f) # ks"
      and "mapE (\<lambda>kv. bindE (hash_key (fst kv)) (\<lambda>k. Inr (k, snd kv)))
        (List.map_filter (\<lambda>d. if dget d ''content_id'' = PNone then None
          else map_option (Pair (dget d ''content_id'')) (number_or_bool (dget d ''score''))) ds) = Inr ks"
      by (auto simp: List.map_filter_simps bindE_Inr_iff)
    from Cons.IH [OF this(3)] k f hash_key_is_text [of "dget d ''content_id''" x] show ?thesis
      by (auto simp: List.map_filter_simps)
  qed
qed (simp add: List.map_filter_simps)

lemma score_pairs_last: "score_pairs scored = Inr scores \<Longrightarrow> map_of scores (PStr x) = last_score scored x"
  by (auto simp: score_pairs_def bindE_Inr_iff map_of_dict_of_pairs map_of_hd [of "rev _"] last_score_def
      scored_values simp flip: rev_filter rev_map)

text \<open>How the node ends: why it leaves the state alone, or what it ranked by.\<close>

lemma score_and_rank_steps:
  assumes "score_and_rank E s = Inr s'"
  obtains (inactive) "s' = s" and "has_error s \<or> \<not> cf_rules (en_settings E) \<or> \<not> st_grounded s
      \<or> filter (\<lambda>ic. truthy (dget (snd ic) ''content_id'')) (enumerate 0 (st_candidates s)) = []"
  | (refused) pois pop e where "s' = s" and "en_bonus E pois pop = Inl e"
  | (silent) pois pop resp scored where "s' = s" and "en_bonus E pois pop = Inr resp"
      and "response_dicts ''scored'' resp = Inr scored" and "score_pairs scored = Inr []"
  | (ranked) pois pop scores r where "answers_with E pois pop scores"
      and "rank_by E scores (st_candidates s) = Inr r"
      and "s' = s\<lparr>st_scores := scores, st_candidates := r\<rparr>"
proof -
  have Nil: "xs = []" if "mapE f xs = Inr []" for f :: "nat \<times> pydict \<Rightarrow> pyexn + pyval \<times> bool \<times> real" and xs
    using mapE_length [OF that] by simp
  show thesis
    using assms unfolding score_and_rank_def Let_def run_iffs
  proof (elim disjE conjE exE, goal_cases)
    case (8 pop pois resp scored scores)
    then show thesis using silent [of pois pop resp scored] by simp
  next
    case (9 pop pois resp scored scores r)
    then show thesis using ranked [of pois pop scores r] by (auto simp: answers_with_def)
  qed (use inactive refused Nil in \<open>auto\<close>)
qed

lemma score_and_rank_cases:
  assumes "score_and_rank E s = Inr s'"
  obtains (same) "s' = s"
  | (ranked) scores r where "rank_by E scores (st_candidates s) = Inr r"
      and "s' = s\<lparr>st_scores := scores, st_candidates := r\<rparr>"
  using assms by (rule score_and_rank_steps) (use that in auto)

lemma score_and_rank_offline:
  assumes "score_and_rank E s = Inr s'" and "\<forall>pois pop. \<exists>e. en_bonus E pois pop = Inl e"
  shows "s' = s"
  using assms(1)
proof (cases rule: score_and_rank_steps)
  case (ranked pois pop scores r)
  with assms(2) show ?thesis unfolding answers_with_def by (metis sum.distinct(1))
qed simp_all

lemma score_and_rank_active:
  assumes run: "score_and_rank E s = Inr s'"
    and active: "\<not> has_error s" "cf_rules (en_settings E)" "st_grounded s"
      "\<exists>c \<in> set (st_candidates s). truthy (dget c ''content_id'')"
    and answers: "\<forall>pois pop. \<exists>scores. answers_with E pois pop scores \<and> NaN \<notin> snd ` set scores"
  shows "(\<exists>pois pop. answers_with E pois pop (st_scores s'))
    \<and> ranked_by (effective_score (st_scores s')) (st_candidates s) (st_candidates s')"
  using run
proof (cases rule: score_and_rank_steps)
  case inactive
  obtain i where "i < length (st_candidates s)" "truthy (dget (st_candidates s ! i) ''content_id'')"
    using active(4) by (metis in_set_conv_nth)
  then have "(i, st_candidates s ! i)
      \<in> set (filter (\<lambda>ic. truthy (dget (snd ic) ''content_id'')) (enumerate 0 (st_candidates s)))"
    by (simp add: in_set_enumerate_eq)
  then have "filter (\<lambda>ic. truthy (dget (snd ic) ''content_id'')) (enumerate 0 (st_candidates s)) \<noteq> []"
    by (rule list.set_cases) simp_all
  with inactive(2) active(1-3) show ?thesis by simp
next
  case (ranked pois pop scores r)
  moreover obtain scores' where "answers_with E pois pop scores'" "NaN \<notin> snd ` set scores'"
    using answers by blast
  ultimately have "NaN \<notin> snd ` set scores" using answers_with_unique by blast
  with ranked show ?thesis by (auto intro: rank_by_ranked)
next
  case (refused pois pop e)
  moreover obtain scores where "answers_with E pois pop scores" using answers by blast
  ultimately show ?thesis by (simp add: answers_with_def)
next
  case (silent pois pop resp scored)
  moreover obtain scores where "answers_with E pois pop scores" using answers by blast
  ultimately show ?thesis by (auto simp: answers_with_def)
qed

lemma rules_filter_cases:
  assumes "rules_filter E s = Inr s'"
  obtains (same) "s' = s" | (emptied) "s' = no_candidates s"
  | (kept) cs where "cs \<noteq> []" and "s' = s\<lparr>st_candidates := cs\<rparr>" and "st_grounded s"
  using assms unfolding rules_filter_def Let_def run_iffs by auto

lemma positions_props:
  "sorted_wrt (<) (positions b flags)" "distinct (positions b flags)"
  "i \<in> set (positions b flags) \<longleftrightarrow> i < length flags \<and> flags ! i = b"
  by (auto simp: positions_def sorted_wrt_filter)

lemma positions_lengths: "length (positions True flags) + length (positions False flags) = length flags"
proof -
  have "filter (\<lambda>i. flags ! i = False) [0..<length flags]
      = filter (\<lambda>i. \<not> (flags ! i = True)) [0..<length flags]" by simp
  then show ?thesis
    unfolding positions_def using sum_length_filter_compl [of "\<lambda>i. flags ! i = True" "[0..<length flags]"]
    by simp
qed

text \<open>The two shares of the cut, before they are put back in order.\<close>

lemma cap_shares:
  assumes "limit < length flags"
  obtains a b where "cap_indices flags limit = sort (take a (positions True flags) @ take b (positions False flags))"
    and "a \<le> length (positions True flags)" and "b \<le> length (positions False flags)"
    and "a + b = limit" and "min (limit div 2) (length (positions True flags)) \<le> a"
    and "min (limit - limit div 2) (length (positions False flags)) \<le> b"
proof -
  let ?I = "positions True flags" and ?O = "positions False flags"
  define ti where "ti = min (limit div 2) (length ?I)"
  define b where "b = min (limit - ti) (length ?O)"
  define a where "a = limit - b"
  have tot: "length ?I + length ?O = length flags" by (rule positions_lengths)
  have a: "a \<le> length ?I" "ti \<le> a" "b \<le> limit"
    using assms tot by (auto simp: a_def b_def ti_def)
  have t1: "take (limit div 2) ?I = take ti ?I" by (auto simp: ti_def min_def)
  have t2: "take (limit - ti) ?O = take b ?O" by (auto simp: b_def min_def)
  have len: "length (take ti ?I) = ti" "length (take b ?O) = b" by (simp_all add: ti_def b_def)
  have "(if 0 < limit - ti - b then take ti ?I @ take (limit - ti - b) (drop ti ?I) else take ti ?I)
      = take a ?I"
  proof (cases "0 < limit - ti - b")
    case True
    then show ?thesis using a by (simp add: a_def flip: take_add)
  next
    case False
    then have "a = ti" using a by (simp add: a_def)
    with False show ?thesis by simp
  qed
  then have "cap_indices flags limit = sort (take a ?I @ take b ?O)"
    unfolding cap_indices_def Let_def t1 len t2 by simp
  moreover have "ti \<le> limit div 2" by (simp add: ti_def)
  then have "min (limit - limit div 2) (length ?O) \<le> b"
    unfolding b_def by (intro min.mono diff_le_mono2 order_refl)
  moreover have "min (limit div 2) (length ?I) \<le> a" using a(2) by (simp add: ti_def)
  moreover have "a + b = limit" "b \<le> length ?O" using a(3) by (simp_all add: a_def b_def)
  ultimately show ?thesis using that a(1) by blast
qed

lemma cap_indices_props:
  assumes "limit < length flags"
  shows "sorted_wrt (<) (cap_indices flags limit)" "length (cap_indices flags limit) = limit"
    "\<forall>i \<in> set (cap_indices flags limit). i < length flags"
    "min (limit div 2) (length (filter id flags)) \<le> length (filter (\<lambda>i. flags ! i) (cap_indices flags limit))"
proof -
  let ?I = "positions True flags" and ?O = "positions False flags"
  obtain a b where ab: "cap_indices flags limit = sort (take a ?I @ take b ?O)"
    "a \<le> length ?I" "b \<le> length ?O" "a + b = limit" "min (limit div 2) (length ?I) \<le> a"
    using cap_shares [OF assms] by metis
  have mem: "flags ! i \<and> i < length flags" if "i \<in> set (take a ?I)" for i
    using in_set_takeD [OF that] by (simp add: positions_props)
  have memO: "\<not> flags ! i \<and> i < length flags" if "i \<in> set (take b ?O)" for i
    using in_set_takeD [OF that] by (simp add: positions_props)
  have "distinct (take a ?I @ take b ?O)"
    using mem memO by (auto simp: positions_props)
  then show "sorted_wrt (<) (cap_indices flags limit)"
    unfolding ab(1) by (simp add: strict_sorted_iff)
  show "length (cap_indices flags limit) = limit" using ab by simp
  show "\<forall>i \<in> set (cap_indices flags limit). i < length flags" using ab(1) mem memO by auto
  have "length (filter (\<lambda>i. flags ! i) (cap_indices flags limit)) = a"
  proof -
    have "mset (filter (\<lambda>i. flags ! i) (cap_indices flags limit))
        = mset (filter (\<lambda>i. flags ! i) (take a ?I @ take b ?O))"
      unfolding ab(1) by (simp add: mset_filter)
    moreover have "filter (\<lambda>i. flags ! i) (take a ?I) = take a ?I"
      using mem by (simp add: filter_id_conv)
    moreover have "filter (\<lambda>i. flags ! i) (take b ?O) = []"
      using memO by (auto simp: filter_empty_conv)
    ultimately show ?thesis using ab(2) by (metis append_Nil2 filter_append length_take min.absorb2 size_mset)
  qed
  moreover have "length (filter id flags) = length ?I"
  proof -
    have "length (filter id (map ((!) flags) [0..<length flags])) = length ?I"
      by (simp add: filter_map positions_def comp_def)
    then show ?thesis by (simp add: map_nth)
  qed
  ultimately show "min (limit div 2) (length (filter id flags))
      \<le> length (filter (\<lambda>i. flags ! i) (cap_indices flags limit))"
    using ab(5) by simp
qed

section \<open>The contract of the nodes\<close>

interpretation rules_filter: quiet_early_node rules_filter
  by unfold_locales (unfold rules_filter_def Let_def run_iffs,
    auto intro!: early_no_candidates early_fields)

interpretation score_and_rank: quiet_early_node score_and_rank
  by unfold_locales (unfold score_and_rank_def Let_def run_iffs, auto intro!: early_fields)

section \<open>Properties\<close>

text \<open>
  What a candidate is sent to the scoring service with lies between the value of its rank and a
  tenth above it, whatever themes the user chose and whatever the statistics file holds, so the
  preferences never reach the 0.15 the weather may add.
\<close>

theorem preference_below_weather:
  assumes "poi E themes segment (i, c) = Inr (cid, indoor, base)"
  shows "rank_base i \<le> base \<and> base \<le> rank_base i + 1 / 10 \<and> base < rank_base i + 15 / 100
    \<and> cid = dget c ''content_id''"
proof -
  from assms obtain a g where "affinity c themes = Inr a" "segment_gain E c segment = Inr g"
    "base = rank_base i + max a g" "cid = dget c ''content_id''"
    by (auto simp: poi_def bindE_Inr_iff)
  with affinity_bounds segment_gain_bounds show ?thesis by (fastforce simp: max_def)
qed

theorem preference_below_weather_witness:
  "poi offline_env (Some [lit ''cafe'']) PNone
     (3, [(lit ''content_id'', PStr (lit ''a'')), (lit ''category_group_code'', PStr (lit ''CE7''))])
   = Inr (PStr (lit ''a''), True, 107 / 100) \<and> (107 / 100 :: real) < rank_base 3 + 15 / 100"
proof -
  let ?c = "[(lit ''content_id'', PStr (lit ''a'')), (lit ''category_group_code'', PStr (lit ''CE7''))]"
  have "poi offline_env (Some [lit ''cafe'']) PNone (3, ?c) = Inr (PStr (lit ''a''), True, 107 / 100)"
    by (simp add: poi_def is_indoor_def dget_def indoor_groups_def affinity_def theme_query_max_def
        theme_affinity_table_def affinity_max_def affinity_decay_def segment_gain_def rank_base_def
        strip_def is_space_def ascii_lower_def lit_def)
  with preference_below_weather [OF this] show ?thesis by simp
qed

text \<open>
  C33: Scoring re-orders the candidates and does nothing else to them: the list after
  \<open>score_and_rank\<close> is a permutation of the one before, and the error, the budget and the mark of
  real data are untouched. When the service fails, nothing at all changes. With the rules switched on
  and candidates from real data, one with an id at least, and a service that answers with scores none of
  which is NaN, the candidates after are those before, the higher score first and equal scores in their
  old order, a candidate without a score counting as 1 less a hundredth per place it stood down the list;
  the scores kept are those of the answer, for every id the last number given for it.
\<close>

theorem score_and_rank_permutes:
  assumes "score_and_rank E s = Inr s'"
  shows "mset (st_candidates s') = mset (st_candidates s)
    \<and> st_error s' = st_error s \<and> st_llm_used s' = st_llm_used s \<and> st_grounded s' = st_grounded s
    \<and> ((\<forall>pois pop. \<exists>e. en_bonus E pois pop = Inl e) \<longrightarrow> s' = s)
    \<and> (\<not> has_error s \<and> cf_rules (en_settings E) \<and> st_grounded s
         \<and> (\<exists>c \<in> set (st_candidates s). truthy (dget c ''content_id''))
         \<and> (\<forall>pois pop. \<exists>scores. answers_with E pois pop scores \<and> NaN \<notin> snd ` set scores)
       \<longrightarrow> (\<exists>pois pop resp scored. en_bonus E pois pop = Inr resp \<and> response_dicts ''scored'' resp = Inr scored
            \<and> (\<forall>x. map_of (st_scores s') (PStr x) = last_score scored x))
         \<and> ranked_by (effective_score (st_scores s')) (st_candidates s) (st_candidates s'))"
proof -
  have "\<exists>pois pop resp scored. en_bonus E pois pop = Inr resp \<and> response_dicts ''scored'' resp = Inr scored
      \<and> (\<forall>x. map_of scores (PStr x) = last_score scored x)" if "answers_with E pois pop scores" for pois pop scores
    using that score_pairs_last unfolding answers_with_def by blast
  note kept = this
  have same: "mset (st_candidates s') = mset (st_candidates s) \<and> st_error s' = st_error s
      \<and> st_llm_used s' = st_llm_used s \<and> st_grounded s' = st_grounded s"
    using score_and_rank_cases [OF assms] rank_by_mset by fastforce
  show ?thesis
  proof (intro conjI impI)
    assume active: "\<not> has_error s \<and> cf_rules (en_settings E) \<and> st_grounded s
         \<and> (\<exists>c \<in> set (st_candidates s). truthy (dget c ''content_id''))
         \<and> (\<forall>pois pop. \<exists>scores. answers_with E pois pop scores \<and> NaN \<notin> snd ` set scores)"
    then obtain pois pop where "answers_with E pois pop (st_scores s')"
      and "ranked_by (effective_score (st_scores s')) (st_candidates s) (st_candidates s')"
      using score_and_rank_active [OF assms] by blast
    with kept show "\<exists>pois pop resp scored. en_bonus E pois pop = Inr resp \<and> response_dicts ''scored'' resp = Inr scored
            \<and> (\<forall>x. map_of (st_scores s') (PStr x) = last_score scored x)"
      and "ranked_by (effective_score (st_scores s')) (st_candidates s) (st_candidates s')" by blast+
  qed (use same score_and_rank_offline [OF assms] in blast)+
qed

theorem score_and_rank_permutes_witness:
  "\<exists>s'. score_and_rank
       (offline_env\<lparr>en_bonus := \<lambda>_ _. Inr (PDict [(lit ''scored'', PList
          [PDict [(lit ''content_id'', PStr (lit ''b'')), (lit ''score'', PInt 2)]])])\<rparr>)
       ((start_state [] (march_request 2))\<lparr>st_grounded := True,
          st_candidates := [[(lit ''content_id'', PStr (lit ''a''))],
                            [(lit ''content_id'', PStr (lit ''b''))]]\<rparr>) = Inr s'
     \<and> st_candidates s' = [[(lit ''content_id'', PStr (lit ''b''))],
                            [(lit ''content_id'', PStr (lit ''a''))]]
     \<and> ranked_by (effective_score [(PStr (lit ''b''), Fin 2)])
          [[(lit ''content_id'', PStr (lit ''a''))], [(lit ''content_id'', PStr (lit ''b''))]]
          (st_candidates s')"
proof -
  let ?a = "[(lit ''content_id'', PStr (lit ''a''))]"
  let ?b = "[(lit ''content_id'', PStr (lit ''b''))]"
  let ?E = "offline_env\<lparr>en_bonus := \<lambda>_ _. Inr (PDict [(lit ''scored'', PList
          [PDict [(lit ''content_id'', PStr (lit ''b'')), (lit ''score'', PInt 2)]])])\<rparr>"
  let ?s = "(start_state [] (march_request 2))\<lparr>st_grounded := True, st_candidates := [?a, ?b]\<rparr>"
  have set: "cf_rules (en_settings ?E)" "cf_personalization (en_settings ?E)"
    by (simp_all add: offline_env_def default_settings_def)
  have err: "\<not> has_error ?s" by (simp add: start_state_def has_error_def)
  have pop: "day_pop_max ?s = Inr None"
    by (simp add: day_pop_max_def start_state_def daily_entries_def List.map_filter_simps max_float_def)
  have seg: "segment_for ?E None None = PNone"
    by (simp add: segment_for_def segment_stats_def offline_env_def default_settings_def Let_def dget_def)
  have cafe: "map_of theme_affinity_table (ascii_lower (strip (lit ''cafe''))) =
      Some (lit ''CE7'', [[0xCE74, 0xD398], [0xB514, 0xC800, 0xD2B8], [0xBCA0, 0xC774, 0xCEE4, 0xB9AC],
        [0xC81C, 0xACFC]])"
    by (simp add: theme_affinity_table_def strip_def is_space_def ascii_lower_def lit_def)
  have poi: "poi ?E (Some [lit ''cafe'']) PNone (i, [(lit ''content_id'', PStr (lit x))])
      = Inr (PStr (lit x), False, rank_base i)" for i x
    by (simp add: poi_def is_indoor_def dget_def affinity_def theme_query_max_def cafe
        segment_gain_def text_in_def contains_text_def)
  have theme: "rq_theme (st_request ?s) = Some [lit ''cafe'']"
    by (simp add: start_state_def march_request_def)
  have rank: "rank_by ?E [(PStr (lit ''b''), Fin 2)] [?a, ?b] = Inr [?b, ?a]"
    by (simp add: rank_by_def sort_value_def dget_def rank_base_def sort_order_def upt_rec)
  have run: "score_and_rank ?E ?s = Inr (?s\<lparr>st_scores := [(PStr (lit ''b''), Fin 2)],
      st_candidates := [?b, ?a]\<rparr>)"
    using set err pop seg rank theme
    by (simp add: score_and_rank_def poi dget_def response_dicts_def iter_or_empty_def
        score_pairs_def List.map_filter_simps dict_of_pairs_def)
  have "answers_with ?E pois pop [(PStr (lit ''b''), Fin 2)]" for pois pop
    by (simp add: answers_with_def dget_def response_dicts_def iter_or_empty_def
        score_pairs_def List.map_filter_simps dict_of_pairs_def)
  then have "\<forall>pois pop. \<exists>scores. answers_with ?E pois pop scores \<and> NaN \<notin> snd ` set scores"
    by fastforce
  moreover have "st_grounded ?s" "\<exists>c \<in> set (st_candidates ?s). truthy (dget c ''content_id'')"
    by (simp_all add: dget_def lit_def)
  ultimately have "ranked_by (effective_score (st_scores (?s\<lparr>st_scores := [(PStr (lit ''b''), Fin 2)],
      st_candidates := [?b, ?a]\<rparr>))) (st_candidates ?s) [?b, ?a]"
    using score_and_rank_permutes [OF run] set(1) err by simp
  with run show ?thesis by simp
qed

text \<open>
  A score that is NaN, which the JSON reader lets through, can leave two finite scores in the wrong
  order: with CPython's order for such keys, the score 1 stays before the score 2.
\<close>

lemma nan_score_keeps_wrong_order:
  "rank_by offline_env [(PStr (lit ''a''), Fin 1), (PStr (lit ''b''), NaN), (PStr (lit ''c''), Fin 2)]
     [[(lit ''content_id'', PStr (lit ''a''))], [(lit ''content_id'', PStr (lit ''b''))],
      [(lit ''content_id'', PStr (lit ''c''))]]
   = Inr [[(lit ''content_id'', PStr (lit ''a''))], [(lit ''content_id'', PStr (lit ''b''))],
      [(lit ''content_id'', PStr (lit ''c''))]]"
  by (simp add: rank_by_def sort_value_def dget_def rank_base_def sort_order_def offline_env_def upt_rec)

text \<open>
  C35: Cutting keeps the order of the ranking: what remains are the candidates at an increasing
  sequence of positions, exactly as many as the limit, and among them are at least half the limit
  of indoor ones, or all there are; a list within the limit is not changed.
\<close>

theorem cap_candidates_balanced:
  assumes "cap_candidates candidates limit = Inr kept"
  shows "(limit \<le> 0 \<or> int (length candidates) \<le> limit) \<and> kept = candidates
    \<or> (\<exists>ps flags. kept = map (\<lambda>i. candidates ! i) ps \<and> sorted_wrt (<) ps
         \<and> (\<forall>i \<in> set ps. i < length candidates) \<and> int (length kept) = limit
         \<and> mapE is_indoor candidates = Inr flags
         \<and> min (nat limit div 2) (length (filter id flags)) \<le> length (filter (\<lambda>i. flags ! i) ps))"
proof (cases "limit \<le> 0 \<or> int (length candidates) \<le> limit")
  case True
  with assms show ?thesis by (simp add: cap_candidates_def)
next
  case False
  with assms obtain flags where flags: "mapE is_indoor candidates = Inr flags"
    and kept: "kept = map (\<lambda>i. candidates ! i) (cap_indices flags (nat limit))"
    by (auto simp: cap_candidates_def bindE_Inr_iff)
  have len: "length flags = length candidates" by (rule mapE_length [OF flags])
  with False have "nat limit < length flags" by (simp add: nat_less_iff)
  from cap_indices_props [OF this] len flags kept False show ?thesis by auto
qed

theorem cap_candidates_balanced_witness:
  "cap_candidates
     [[(lit ''category_group_code'', PStr (lit ''AT4''))], [(lit ''category_group_code'', PStr (lit ''AT4''))],
      [(lit ''category_group_code'', PStr (lit ''FD6''))]] 2
   = Inr [[(lit ''category_group_code'', PStr (lit ''AT4''))], [(lit ''category_group_code'', PStr (lit ''FD6''))]]
   \<and> (\<exists>ps. map (\<lambda>i. [[(lit ''category_group_code'', PStr (lit ''AT4''))],
        [(lit ''category_group_code'', PStr (lit ''AT4''))],
        [(lit ''category_group_code'', PStr (lit ''FD6''))]] ! i) ps
      = [[(lit ''category_group_code'', PStr (lit ''AT4''))],
         [(lit ''category_group_code'', PStr (lit ''FD6''))]] \<and> sorted_wrt (<) ps)"
proof -
  let ?o = "[(lit ''category_group_code'', PStr (lit ''AT4''))]"
  let ?i = "[(lit ''category_group_code'', PStr (lit ''FD6''))]"
  have "mapE is_indoor [?o, ?o, ?i] = Inr [False, False, True]"
    by (simp add: is_indoor_def dget_def indoor_groups_def)
  moreover have "cap_indices [False, False, True] 2 = [0, 2]" by code_simp
  ultimately have run: "cap_candidates [?o, ?o, ?i] 2 = Inr [?o, ?i]"
    by (simp add: cap_candidates_def)
  define cs ks where "cs = [?o, ?o, ?i]" and "ks = [?o, ?i]"
  have "cap_candidates cs 2 = Inr ks" "length cs = 3" using run by (simp_all add: cs_def ks_def)
  with cap_candidates_balanced [of cs 2 ks] have "\<exists>ps. map (\<lambda>i. cs ! i) ps = ks \<and> sorted_wrt (<) ps"
    by auto
  with run show ?thesis unfolding cs_def ks_def by blast
qed

end
