(* ===== verification/Route.thy ===== *)
theory Route
  imports State
begin

text \<open>
  Distances, visiting orders and legs: \<open>_straight_km\<close>, \<open>_walk_minutes\<close>, \<open>_tour\<close>, \<open>_two_opt\<close>,
  \<open>_order_places\<close>, \<open>_rebuild_legs\<close> and the node \<open>recommend_route\<close> of app/nodes/agent_nodes.py. The
  tour functions take the distance as an argument; the locale \<open>distance\<close> states the one law they
  need of it, which the great-circle distance of two places satisfies.
\<close>

section \<open>Great-circle distance\<close>

definition radians :: "real \<Rightarrow> real" where
  "radians x = x * (pi / 180)"

definition earth_radius :: real where
  "earth_radius = 6371"

definition haversine_arg :: "real \<Rightarrow> real \<Rightarrow> real \<Rightarrow> real \<Rightarrow> real" where
  "haversine_arg lat1 lng1 lat2 lng2 =
     (sin (radians (lat2 - lat1) / 2))\<^sup>2
     + cos (radians lat1) * cos (radians lat2) * (sin (radians (lng2 - lng1) / 2))\<^sup>2"

definition straight_km :: "real \<Rightarrow> real \<Rightarrow> real \<Rightarrow> real \<Rightarrow> real" where
  "straight_km lat1 lng1 lat2 lng2 =
     2 * earth_radius * arcsin (sqrt (haversine_arg lat1 lng1 lat2 lng2))"

definition place_km :: "place \<Rightarrow> place \<Rightarrow> real" where
  "place_km p q = straight_km (pl_lat p) (pl_lng p) (pl_lat q) (pl_lng q)"

section \<open>Travel time\<close>

fun speed_kmh :: "mobility \<Rightarrow> real" where
  "speed_kmh Walk = 45 / 10"
| "speed_kmh Bicycle = 15"
| "speed_kmh Scooter = 20"
| "speed_kmh Car = 30"
| "speed_kmh Transit = 20"

definition detour_factor :: real where
  "detour_factor = 13 / 10"

definition walk_minutes :: "real \<Rightarrow> mobility \<Rightarrow> int" where
  "walk_minutes km m = max 1 (round_half_even (km * detour_factor / speed_kmh m * 60))"

section \<open>Tours\<close>

text \<open>\<open>min(xs, key=f)\<close>: the first of the smallest.\<close>

fun min_by :: "('a \<Rightarrow> real) \<Rightarrow> 'a \<Rightarrow> 'a list \<Rightarrow> 'a" where
  "min_by f best [] = best"
| "min_by f best (x # xs) = min_by f (if f x < f best then x else best) xs"

lemma min_by_in: "min_by f best xs = best \<or> min_by f best xs \<in> set xs"
  by (induction f best xs rule: min_by.induct) (auto split: if_splits)

lemma min_by_le: "f (min_by f best xs) \<le> f best \<and> (\<forall>x \<in> set xs. f (min_by f best xs) \<le> f x)"
  by (induction f best xs rule: min_by.induct) (auto split: if_splits intro: order_trans)

text \<open>Always on to the nearest place that is left.\<close>

function nearest_tour :: "('a \<Rightarrow> 'a \<Rightarrow> real) \<Rightarrow> 'a \<Rightarrow> 'a list \<Rightarrow> 'a list" where
  "nearest_tour d cur [] = []"
| "nearest_tour d cur (x # xs) =
     (let nearest = min_by (d cur) x xs
      in nearest # nearest_tour d nearest (remove1 nearest (x # xs)))"
  by pat_completeness auto
termination
proof (relation "measure (\<lambda>(d, cur, xs). length xs)")
  fix d :: "'a \<Rightarrow> 'a \<Rightarrow> real" and cur x xs nearest
  assume "nearest = min_by (d cur) x xs"
  with min_by_in [of "d cur" x xs] have "nearest \<in> set (x # xs)" by auto
  then have "length (remove1 nearest (x # xs)) < length (x # xs)"
    by (metis length_pos_if_in_set length_remove1 diff_less zero_less_one)
  then show "((d, nearest, remove1 nearest (x # xs)), d, cur, x # xs)
      \<in> measure (\<lambda>(d, cur, xs). length xs)" by simp
qed simp

definition reverse_part :: "nat \<Rightarrow> nat \<Rightarrow> 'a list \<Rightarrow> 'a list" where
  "reverse_part i k xs =
     take (i + 1) xs @ rev (take (k - i) (drop (i + 1) xs)) @ drop (k + 1) xs"

definition swap_gain_min :: real where
  "swap_gain_min = 1 / 10 ^ 9"

text \<open>One comparison of the inner loop; the flag records whether anything was reversed.\<close>

definition opt_step :: "('a \<Rightarrow> 'a \<Rightarrow> real) \<Rightarrow> 'a list \<times> bool \<Rightarrow> nat \<times> nat \<Rightarrow> 'a list \<times> bool" where
  "opt_step d ti ik =
     (let tour = fst ti; i = fst ik; k = snd ik;
          a = tour ! i; b = tour ! (i + 1); c = tour ! k;
          at_end = (length tour \<le> k + 1);
          before = d a b + (if at_end then 0 else d c (tour ! (k + 1)));
          after = d a c + (if at_end then 0 else d b (tour ! (k + 1)))
      in if after < before - swap_gain_min then (reverse_part i k tour, True) else ti)"

definition opt_pairs :: "nat \<Rightarrow> (nat \<times> nat) list" where
  "opt_pairs n = concat (map (\<lambda>i. map (Pair i) [i + 2..<n]) [0..<n - 2])"

definition opt_round :: "('a \<Rightarrow> 'a \<Rightarrow> real) \<Rightarrow> 'a list \<Rightarrow> 'a list \<times> bool" where
  "opt_round d tour = foldl (opt_step d) (tour, False) (opt_pairs (length tour))"

fun opt_rounds :: "nat \<Rightarrow> ('a \<Rightarrow> 'a \<Rightarrow> real) \<Rightarrow> 'a list \<Rightarrow> 'a list" where
  "opt_rounds 0 d tour = tour"
| "opt_rounds (Suc n) d tour =
     (let (tour', improved) = opt_round d tour
      in if improved then opt_rounds n d tour' else tour')"

definition max_rounds :: nat where
  "max_rounds = 20"

definition two_opt :: "('a \<Rightarrow> 'a \<Rightarrow> real) \<Rightarrow> 'a list \<Rightarrow> 'a list" where
  "two_opt d tour = opt_rounds max_rounds d tour"

definition tour_of :: "('a \<Rightarrow> 'a \<Rightarrow> real) \<Rightarrow> 'a list \<Rightarrow> 'a list" where
  "tour_of d xs =
     (case xs of
        [] \<Rightarrow> []
      | x # rest \<Rightarrow> if length xs \<le> 2 then xs else two_opt d (x # nearest_tour d x rest))"

definition tour :: "place list \<Rightarrow> int list" where
  "tour places = map pl_id (tour_of place_km places)"

definition day_order :: "place list \<Rightarrow> int list" where
  "day_order places = sort (remdups (map pl_day places))"

definition order_places :: "place list \<Rightarrow> int list" where
  "order_places places =
     concat (map (\<lambda>day. tour (filter (\<lambda>p. pl_day p = day) places)) (day_order places))"

section \<open>Legs\<close>

text \<open>\<open>{p.place_id: p for p in places}\<close>: the last of two equal ids wins.\<close>

definition by_id :: "place list \<Rightarrow> int \<Rightarrow> place option" where
  "by_id places = map_of (rev (map (\<lambda>p. (pl_id p, p)) places))"

definition old_leg :: "leg list \<Rightarrow> int \<Rightarrow> int \<Rightarrow> leg option" where
  "old_leg legs a b = map_of (rev (map (\<lambda>l. ((lg_from l, lg_to l), l)) legs)) (a, b)"

definition make_leg :: "mobility \<Rightarrow> place list \<Rightarrow> leg list \<Rightarrow> int \<Rightarrow> int \<Rightarrow> leg" where
  "make_leg m places legs a b =
     (case old_leg legs a b of
        Some l \<Rightarrow> l
      | None \<Rightarrow>
          (case (by_id places a, by_id places b) of
             (Some pa, Some pb) \<Rightarrow>
               (let km = place_km pa pb
                in \<lparr>lg_from = a, lg_to = b, lg_mode = m, lg_km = round_digits 2 km,
                    lg_min = walk_minutes km m\<rparr>)
           | _ \<Rightarrow> \<lparr>lg_from = a, lg_to = b, lg_mode = m, lg_km = 0, lg_min = 0\<rparr>))"

definition mobility_or_walk :: "request \<Rightarrow> mobility" where
  "mobility_or_walk r = (case rq_mobility r of None \<Rightarrow> Walk | Some m \<Rightarrow> m)"

definition rebuild_legs :: "request \<Rightarrow> place list \<Rightarrow> leg list \<Rightarrow> int list \<Rightarrow> leg list" where
  "rebuild_legs r places legs order =
     map (\<lambda>i. make_leg (mobility_or_walk r) places legs (order ! i) (order ! (i + 1)))
       [0..<length order - 1]"

section \<open>The node\<close>

definition recommend_route :: node where
  "recommend_route E s =
     (if has_error s then Inr s
      else case st_places s of
          None \<Rightarrow> Inl KeyError
        | Some places \<Rightarrow>
            if places = []
            then Inr (fail_with ''recommend_route has no places'' ''selection_invalid'' s)
            else
              (let r = st_request s;
                   order = (if rq_stage r = StageRoute \<and> \<not> rq_optimize r
                            then map pl_id places else order_places places)
               in Inr (s\<lparr>st_order := Some order,
                         st_legs := Some (rebuild_legs r places [] order)\<rparr>)))"

section \<open>Lemmas on distances\<close>

lemma haversine_nonneg:
  assumes "\<bar>lat1\<bar> \<le> 90" and "\<bar>lat2\<bar> \<le> 90"
  shows "0 \<le> cos (radians lat1) * cos (radians lat2)"
proof -
  have "0 \<le> cos (radians x)" if "\<bar>x\<bar> \<le> 90" for x
  proof (rule cos_ge_zero)
    have "\<bar>x\<bar> * (pi / 180) \<le> 90 * (pi / 180)" using that by (intro mult_right_mono) auto
    then have "\<bar>radians x\<bar> \<le> pi / 2" by (simp add: radians_def abs_mult)
    then show "- (pi / 2) \<le> radians x" "radians x \<le> pi / 2" by (auto simp: abs_le_iff)
  qed
  with assms show ?thesis by simp
qed

lemma haversine_arg_bounds:
  assumes "\<bar>lat1\<bar> \<le> 90" and "\<bar>lat2\<bar> \<le> 90"
  shows "0 \<le> haversine_arg lat1 lng1 lat2 lng2" and "haversine_arg lat1 lng1 lat2 lng2 \<le> 1"
proof -
  let ?cc = "cos (radians lat1) * cos (radians lat2)"
  have cc: "0 \<le> ?cc" by (rule haversine_nonneg [OF assms])
  show "0 \<le> haversine_arg lat1 lng1 lat2 lng2"
    unfolding haversine_arg_def using cc by simp
  have half: "(sin (x / 2))\<^sup>2 = (1 - cos x) / 2" for x :: real
    using cos_double_sin [of "x / 2"] by (simp add: field_simps)
  have diff: "radians (lat2 - lat1) = radians lat2 - radians lat1"
    by (simp add: radians_def left_diff_distrib)
  have "haversine_arg lat1 lng1 lat2 lng2
      = (1 - cos (radians lat2 - radians lat1)) / 2 + ?cc * (sin (radians (lng2 - lng1) / 2))\<^sup>2"
    unfolding haversine_arg_def diff half [of "radians lat2 - radians lat1"] ..
  also have "\<dots> \<le> (1 - cos (radians lat2 - radians lat1)) / 2 + ?cc * 1"
    using cc by (intro add_left_mono mult_left_mono) (simp_all add: abs_square_le_1)
  also have "?cc = (cos (radians lat2 - radians lat1) + cos (radians lat2 + radians lat1)) / 2"
    by (simp add: cos_diff cos_add)
  also have "(1 - cos (radians lat2 - radians lat1)) / 2
      + (cos (radians lat2 - radians lat1) + cos (radians lat2 + radians lat1)) / 2 * 1
      = (1 + cos (radians lat2 + radians lat1)) / 2" by (simp add: field_simps)
  also have "\<dots> \<le> 1" by simp
  finally show "haversine_arg lat1 lng1 lat2 lng2 \<le> 1" .
qed

lemma haversine_arg_sym: "haversine_arg lat1 lng1 lat2 lng2 = haversine_arg lat2 lng2 lat1 lng1"
proof -
  have "radians (x - y) = - radians (y - x)" for x y
    by (metis minus_diff_eq minus_mult_left radians_def)
  then have "(sin (radians (x - y) / 2))\<^sup>2 = (sin (radians (y - x) / 2))\<^sup>2" for x y
    by (metis minus_divide_left power2_minus sin_minus)
  then show ?thesis by (simp add: haversine_arg_def mult.commute)
qed

lemma straight_km_sym: "straight_km lat1 lng1 lat2 lng2 = straight_km lat2 lng2 lat1 lng1"
  by (simp add: straight_km_def haversine_arg_sym [of lat1])

lemma straight_km_bounds:
  assumes "\<bar>lat1\<bar> \<le> 90" and "\<bar>lat2\<bar> \<le> 90"
  shows "0 \<le> straight_km lat1 lng1 lat2 lng2" and "straight_km lat1 lng1 lat2 lng2 \<le> earth_radius * pi"
proof -
  let ?x = "sqrt (haversine_arg lat1 lng1 lat2 lng2)"
  have x: "0 \<le> ?x" "?x \<le> 1" using haversine_arg_bounds [OF assms] by simp_all
  have "arcsin 0 \<le> arcsin ?x" using x by (intro arcsin_le_arcsin) simp_all
  then show "0 \<le> straight_km lat1 lng1 lat2 lng2"
    by (simp add: straight_km_def earth_radius_def)
  have "arcsin ?x \<le> pi / 2" by (rule arcsin_ubound) (use x in linarith)+
  then show "straight_km lat1 lng1 lat2 lng2 \<le> earth_radius * pi"
    by (simp add: straight_km_def earth_radius_def)
qed

lemma straight_km_self: "straight_km lat lng lat lng = 0"
  by (simp add: straight_km_def haversine_arg_def radians_def)

lemma walk_minutes_pos: "1 \<le> walk_minutes km m"
  by (simp add: walk_minutes_def)

section \<open>The law the tour functions need\<close>

fun path_length :: "('a \<Rightarrow> 'a \<Rightarrow> real) \<Rightarrow> 'a list \<Rightarrow> real" where
  "path_length d [] = 0"
| "path_length d [x] = 0"
| "path_length d (x # y # zs) = d x y + path_length d (y # zs)"

lemma path_length_append:
  "xs \<noteq> [] \<Longrightarrow> ys \<noteq> []
   \<Longrightarrow> path_length d (xs @ ys) = path_length d xs + d (last xs) (hd ys) + path_length d ys"
proof (induction d xs rule: path_length.induct)
  case (2 d x)
  then show ?case by (cases ys) auto
qed auto

text \<open>How a list falls apart at the two edges a step looks at.\<close>

lemma split_at_edges:
  assumes "i + 1 < k" and "k < length xs"
  obtains A S R where "xs = A @ S @ R" and "reverse_part i k xs = A @ rev S @ R"
    and "A \<noteq> []" and "S \<noteq> []" and "last A = xs ! i" and "hd S = xs ! (i + 1)" and "last S = xs ! k"
    and "R = drop (k + 1) xs" and "hd A = hd xs"
proof -
  define A S R where "A = take (i + 1) xs" and "S = take (k - i) (drop (i + 1) xs)"
    and "R = drop (k + 1) xs"
  have len: "length A = i + 1" "length S = k - i" "k - Suc i < k - i"
    using assms by (simp_all add: A_def S_def)
  have "drop (k - i) (drop (i + 1) xs) = R" using assms by (simp add: R_def)
  then have "S @ R = drop (i + 1) xs" by (metis S_def append_take_drop_id)
  then have xs: "xs = A @ S @ R" by (simp add: A_def)
  have ne: "A \<noteq> []" "S \<noteq> []" using len assms by auto
  have "last A = xs ! i" using ne len xs by (simp add: last_conv_nth nth_append)
  moreover have "hd S = xs ! (i + 1)" using ne len xs assms by (simp add: hd_conv_nth nth_append)
  moreover have "last S = xs ! k" using ne len xs assms by (simp add: last_conv_nth nth_append)
  moreover have "hd A = hd xs" using ne(1) arg_cong [OF xs, of hd] by simp
  moreover have "reverse_part i k xs = A @ rev S @ R"
    by (simp only: reverse_part_def A_def S_def R_def)
  ultimately show ?thesis using that xs ne R_def by blast
qed

locale distance =
  fixes d :: "'a \<Rightarrow> 'a \<Rightarrow> real"
  assumes sym: "d x y = d y x"
begin

lemma path_length_rev: "path_length d (rev xs) = path_length d xs"
proof (induction xs rule: induct_list012)
  case (3 x y zs)
  have "path_length d (rev (x # y # zs)) = path_length d (rev (y # zs) @ [x])" by simp
  also have "\<dots> = path_length d (rev (y # zs)) + d y x"
    by (subst path_length_append) simp_all
  finally show ?case using 3 by (simp add: sym)
qed simp_all

text \<open>A reversal pays off exactly as the comparison of the two edges says.\<close>

lemma reverse_part_length:
  assumes "i + 1 < k" and "k < length xs"
  shows "path_length d (reverse_part i k xs) =
    path_length d xs
    - (d (xs ! i) (xs ! (i + 1)) + (if length xs \<le> k + 1 then 0 else d (xs ! k) (xs ! (k + 1))))
    + (d (xs ! i) (xs ! k) + (if length xs \<le> k + 1 then 0 else d (xs ! (i + 1)) (xs ! (k + 1))))"
proof -
  from split_at_edges [OF assms] obtain A S R where xs: "xs = A @ S @ R"
    and rev: "reverse_part i k xs = A @ rev S @ R" and ne: "A \<noteq> []" "S \<noteq> []"
    and ends: "last A = xs ! i" "hd S = xs ! (i + 1)" "last S = xs ! k" and R: "R = drop (k + 1) xs"
    by metis
  have "path_length d xs = path_length d A + d (last A) (hd S) + path_length d S
      + (if R = [] then 0 else d (last S) (hd R) + path_length d R)"
    using ne by (subst xs) (simp add: path_length_append)
  moreover have "path_length d (reverse_part i k xs) = path_length d A + d (last A) (last S)
      + path_length d S + (if R = [] then 0 else d (hd S) (hd R) + path_length d R)"
    using ne by (simp add: rev path_length_append path_length_rev hd_rev last_rev)
  moreover have "R = [] \<longleftrightarrow> length xs \<le> k + 1" by (simp add: R)
  moreover have "hd R = xs ! (k + 1)" if "\<not> length xs \<le> k + 1"
    using that by (simp add: R hd_drop_conv_nth)
  ultimately show ?thesis using ends by auto
qed

lemma opt_step_shorter:
  assumes "fst ik + 1 < snd ik" and "snd ik < length (fst ti)"
  shows "path_length d (fst (opt_step d ti ik)) \<le> path_length d (fst ti)
    \<and> mset (fst (opt_step d ti ik)) = mset (fst ti) \<and> hd (fst (opt_step d ti ik)) = hd (fst ti)"
proof (cases "fst (opt_step d ti ik) = fst ti")
  case False
  let ?xs = "fst ti" and ?i = "fst ik" and ?k = "snd ik"
  from False have new: "fst (opt_step d ti ik) = reverse_part ?i ?k ?xs"
    and gain: "d (?xs ! ?i) (?xs ! ?k) + (if length ?xs \<le> ?k + 1 then 0 else d (?xs ! (?i + 1)) (?xs ! (?k + 1)))
      < d (?xs ! ?i) (?xs ! (?i + 1)) + (if length ?xs \<le> ?k + 1 then 0 else d (?xs ! ?k) (?xs ! (?k + 1)))
        - swap_gain_min"
    by (auto simp: opt_step_def Let_def split: if_splits)
  have "0 < swap_gain_min" by (simp add: swap_gain_min_def)
  then have "path_length d (reverse_part ?i ?k ?xs) \<le> path_length d ?xs"
    using gain reverse_part_length [OF assms] by linarith
  moreover obtain A S R where "?xs = A @ S @ R" "reverse_part ?i ?k ?xs = A @ rev S @ R"
    "A \<noteq> []" "hd A = hd ?xs"
    using split_at_edges [OF assms] by metis
  ultimately show ?thesis unfolding new by auto
qed simp

lemma opt_fold_shorter:
  assumes "\<forall>ik \<in> set iks. fst ik + 1 < snd ik \<and> snd ik < length (fst ti)"
  shows "path_length d (fst (foldl (opt_step d) ti iks)) \<le> path_length d (fst ti)
    \<and> mset (fst (foldl (opt_step d) ti iks)) = mset (fst ti)
    \<and> hd (fst (foldl (opt_step d) ti iks)) = hd (fst ti)"
  using assms
proof (induction iks arbitrary: ti)
  case (Cons ik iks)
  then have one: "path_length d (fst (opt_step d ti ik)) \<le> path_length d (fst ti)
    \<and> mset (fst (opt_step d ti ik)) = mset (fst ti) \<and> hd (fst (opt_step d ti ik)) = hd (fst ti)"
    by (intro opt_step_shorter) simp_all
  then have "length (fst (opt_step d ti ik)) = length (fst ti)" by (metis size_mset)
  with Cons.prems have "\<forall>jk \<in> set iks. fst jk + 1 < snd jk \<and> snd jk < length (fst (opt_step d ti ik))"
    by simp
  from Cons.IH [OF this] one show ?case by auto
qed simp

lemma opt_round_shorter:
  "path_length d (fst (opt_round d xs)) \<le> path_length d xs \<and> mset (fst (opt_round d xs)) = mset xs
   \<and> hd (fst (opt_round d xs)) = hd xs"
  using opt_fold_shorter [of "opt_pairs (length xs)" "(xs, False)"]
  by (simp add: opt_round_def) (auto simp: opt_pairs_def)

lemma opt_rounds_shorter:
  "path_length d (opt_rounds n d xs) \<le> path_length d xs \<and> mset (opt_rounds n d xs) = mset xs
   \<and> hd (opt_rounds n d xs) = hd xs"
proof (induction n arbitrary: xs)
  case (Suc n)
  obtain ys b where r: "opt_round d xs = (ys, b)" by fastforce
  with opt_round_shorter [of xs] Suc.IH [of ys] show ?case by (auto intro: order_trans)
qed simp

text \<open>A round that reports no improvement changed nothing; one that does gained more than the margin.\<close>

lemma opt_fold_flag:
  assumes "\<forall>ik \<in> set iks. fst ik + 1 < snd ik \<and> snd ik < length (fst ti)"
  shows "(\<not> snd (foldl (opt_step d) ti iks) \<longrightarrow> foldl (opt_step d) ti iks = ti)
    \<and> (snd (foldl (opt_step d) ti iks) \<longrightarrow> snd ti
       \<or> path_length d (fst (foldl (opt_step d) ti iks)) < path_length d (fst ti) - swap_gain_min)"
  using assms
proof (induction iks arbitrary: ti)
  case (Cons ik iks)
  have ik: "fst ik + 1 < snd ik" "snd ik < length (fst ti)" using Cons.prems by simp_all
  let ?t = "opt_step d ti ik"
  have "mset (fst ?t) = mset (fst ti)" using opt_step_shorter [OF ik] by simp
  then have "length (fst ?t) = length (fst ti)" by (metis size_mset)
  then have ok: "\<forall>jk \<in> set iks. fst jk + 1 < snd jk \<and> snd jk < length (fst ?t)"
    using Cons.prems by simp
  have step: "?t = ti \<or> (snd ?t \<and> path_length d (fst ?t) < path_length d (fst ti) - swap_gain_min)"
    using reverse_part_length [OF ik] by (auto simp: opt_step_def Let_def)
  from Cons.IH [OF ok] opt_fold_shorter [OF ok] step show ?case by auto
qed simp

lemma opt_round_flag:
  "\<not> snd (opt_round d xs) \<Longrightarrow> fst (opt_round d xs) = xs"
  "snd (opt_round d xs) \<Longrightarrow> path_length d (fst (opt_round d xs)) < path_length d xs - swap_gain_min"
  using opt_fold_flag [of "opt_pairs (length xs)" "(xs, False)"]
  by (auto simp: opt_round_def opt_pairs_def)

lemma opt_rounds_progress:
  "\<not> snd (opt_round d (opt_rounds n d xs))
   \<or> path_length d (opt_rounds n d xs) \<le> path_length d xs - of_nat n * swap_gain_min"
proof (induction n arbitrary: xs)
  case (Suc n)
  show ?case
  proof (cases "snd (opt_round d xs)")
    case True
    define ys where "ys = fst (opt_round d xs)"
    have "path_length d ys < path_length d xs - swap_gain_min"
      using opt_round_flag(2) [OF True] by (simp add: ys_def)
    moreover have "opt_rounds (Suc n) d xs = opt_rounds n d ys"
      using True by (simp add: ys_def case_prod_beta)
    ultimately show ?thesis using Suc.IH [of ys] by (auto simp: algebra_simps)
  next
    case False
    with opt_round_flag(1) [OF False] show ?thesis by (simp add: case_prod_beta)
  qed
qed simp

lemma two_opt_shorter:
  "path_length d (two_opt d xs) \<le> path_length d xs \<and> mset (two_opt d xs) = mset xs
   \<and> hd (two_opt d xs) = hd xs"
  unfolding two_opt_def by (rule opt_rounds_shorter)

lemma nearest_tour_mset: "mset (nearest_tour d x xs) = mset xs"
proof (induction d x xs rule: nearest_tour.induct)
  case (2 d cur x xs)
  let ?n = "min_by (d cur) x xs"
  have "?n \<in># mset (x # xs)" using min_by_in [of "d cur" x xs] by auto
  then have "add_mset ?n (mset (remove1 ?n (x # xs))) = mset (x # xs)"
    by (simp only: mset_remove1 insert_DiffM)
  then show ?case using 2 [OF refl] by (simp add: Let_def del: remove1.simps)
qed simp

lemma tour_of_mset: "mset (tour_of d xs) = mset xs"
  using two_opt_shorter nearest_tour_mset by (simp add: tour_of_def split: list.splits)

lemma tour_of_start: "xs \<noteq> [] \<Longrightarrow> hd (tour_of d xs) = hd xs"
  using two_opt_shorter by (auto simp: tour_of_def split: list.splits)

lemma tour_of_shorter:
  "path_length d (tour_of d (x # rest)) \<le> path_length d (x # nearest_tour d x rest)
   \<or> length rest \<le> 1"
  using two_opt_shorter [of "x # nearest_tour d x rest"] by (auto simp: tour_of_def)

end

interpretation km: distance place_km
  by unfold_locales (simp add: place_km_def straight_km_sym)

section \<open>Orders and legs\<close>

definition ordered_places :: "place list \<Rightarrow> place list" where
  "ordered_places places =
     concat (map (\<lambda>day. tour_of place_km (filter (\<lambda>p. pl_day p = day) places)) (day_order places))"

lemma order_places_ids: "order_places places = map pl_id (ordered_places places)"
  by (simp add: order_places_def ordered_places_def tour_def map_concat comp_def)

lemma mset_concat_filter:
  "distinct ds \<Longrightarrow> \<forall>x \<in> set xs. f x \<in> set ds
   \<Longrightarrow> mset (concat (map (\<lambda>d. filter (\<lambda>x. f x = d) xs) ds)) = mset xs"
proof (induction ds arbitrary: xs)
  case Nil
  then show ?case by (cases xs) auto
next
  case (Cons d ds)
  let ?rest = "filter (\<lambda>x. f x \<noteq> d) xs"
  have "filter (\<lambda>x. f x = e) ?rest = filter (\<lambda>x. f x = e) xs" if "e \<in> set ds" for e
    unfolding filter_filter by (rule filter_cong) (use that Cons.prems(1) in auto)
  then have same: "map (\<lambda>d. filter (\<lambda>x. f x = d) ?rest) ds = map (\<lambda>d. filter (\<lambda>x. f x = d) xs) ds"
    by (intro map_cong refl)
  have "mset (concat (map (\<lambda>d. filter (\<lambda>x. f x = d) ?rest) ds)) = mset ?rest"
    using Cons.prems by (intro Cons.IH) auto
  then have "mset (concat (map (\<lambda>d. filter (\<lambda>x. f x = d) xs) ds)) = mset ?rest"
    unfolding same .
  moreover have "mset (filter (\<lambda>x. f x = d) xs) + mset ?rest = mset xs"
    unfolding mset_filter by (rule multiset_partition [symmetric])
  ultimately show ?case by simp
qed

lemma mset_concat_cong:
  "(\<And>x. x \<in> set xs \<Longrightarrow> mset (f x) = mset (g x)) \<Longrightarrow> mset (concat (map f xs)) = mset (concat (map g xs))"
  by (induction xs) auto

lemma ordered_places_mset: "mset (ordered_places ps) = mset ps"
proof -
  have "mset (ordered_places ps)
      = mset (concat (map (\<lambda>day. filter (\<lambda>p. pl_day p = day) ps) (day_order ps)))"
    unfolding ordered_places_def by (rule mset_concat_cong) (simp only: km.tour_of_mset)
  also have "\<dots> = mset ps"
    by (rule mset_concat_filter) (simp_all add: day_order_def)
  finally show ?thesis .
qed

lemma sorted_concat_days:
  assumes "sorted_wrt (<) ds" and "\<And>d x. d \<in> set ds \<Longrightarrow> x \<in> set (g d) \<Longrightarrow> f x = d"
  shows "sorted (map f (concat (map g ds)))"
  using assms
proof (induction ds)
  case (Cons d ds)
  have "sorted (map f (g d))"
    using Cons.prems(2) [of d] by (simp add: sorted_iff_nth_mono)
  with Cons show ?case by (fastforce simp: sorted_append)
qed simp

lemma ordered_places_sorted: "sorted (map pl_day (ordered_places ps))"
  unfolding ordered_places_def
proof (rule sorted_concat_days)
  show "sorted_wrt (<) (day_order ps)" by (simp add: day_order_def strict_sorted_iff)
  fix d p
  assume "p \<in> set (tour_of place_km (filter (\<lambda>p. pl_day p = d) ps))"
  then have "p \<in># mset (tour_of place_km (filter (\<lambda>p. pl_day p = d) ps))" by simp
  then show "pl_day p = d" unfolding km.tour_of_mset by simp
qed

lemma by_id_Some: "distinct (map pl_id ps) \<Longrightarrow> p \<in> set ps \<Longrightarrow> by_id ps (pl_id p) = Some p"
  unfolding by_id_def by (rule map_of_is_SomeI) (simp_all add: comp_def rev_map [symmetric])

lemma by_id_in: "by_id ps i = Some p \<Longrightarrow> p \<in> set ps \<and> pl_id p = i"
  by (auto simp: by_id_def dest: map_of_SomeD)

lemma by_id_dom: "by_id ps i \<noteq> None \<longleftrightarrow> i \<in> pl_id ` set ps"
  by (auto simp: by_id_def map_of_eq_None_iff image_image)

text \<open>The day of a place given by its id.\<close>

definition day_of :: "place list \<Rightarrow> int \<Rightarrow> int" where
  "day_of ps i = (case by_id ps i of None \<Rightarrow> 0 | Some p \<Rightarrow> pl_day p)"

lemma day_of_map: "distinct (map pl_id ps) \<Longrightarrow> set qs \<subseteq> set ps \<Longrightarrow> map (day_of ps) (map pl_id qs) = map pl_day qs"
  by (auto simp: day_of_def by_id_Some)

text \<open>
  The contract between a visiting order and its legs: one leg less than there are places, the i-th
  from the i-th place to the next.
\<close>

definition legs_match :: "int list \<Rightarrow> leg list \<Rightarrow> bool" where
  "legs_match order legs \<longleftrightarrow> length legs = length order - 1
     \<and> (\<forall>i < length legs. lg_from (legs ! i) = order ! i \<and> lg_to (legs ! i) = order ! (i + 1)
          \<and> valid_leg (legs ! i))"

definition in_korea :: "place \<Rightarrow> bool" where
  "in_korea p \<longleftrightarrow> 33 \<le> pl_lat p \<and> pl_lat p \<le> 43"

lemma valid_place_in_korea: "valid_place p \<Longrightarrow> in_korea p"
  by (simp add: valid_place_def in_korea_def)

lemma place_km_nonneg: "in_korea p \<Longrightarrow> in_korea q \<Longrightarrow> 0 \<le> place_km p q"
  unfolding place_km_def in_korea_def by (rule straight_km_bounds(1)) auto

lemma old_leg_ends: "old_leg legs a b = Some l \<Longrightarrow> l \<in> set legs \<and> lg_from l = a \<and> lg_to l = b"
  by (auto simp: old_leg_def dest: map_of_SomeD)

lemma make_leg_props:
  assumes "\<forall>p \<in> set ps. in_korea p" and "\<forall>l \<in> set legs. valid_leg l"
  shows "lg_from (make_leg m ps legs a b) = a \<and> lg_to (make_leg m ps legs a b) = b
    \<and> valid_leg (make_leg m ps legs a b)"
proof (cases "old_leg legs a b")
  case None
  have "valid_leg (make_leg m ps legs a b) \<and> lg_from (make_leg m ps legs a b) = a
      \<and> lg_to (make_leg m ps legs a b) = b"
    if "by_id ps a = Some p" "by_id ps b = Some q" for p q
  proof -
    have "in_korea p" "in_korea q" using by_id_in that assms(1) by blast+
    then have "0 \<le> round_digits 2 (place_km p q)"
      by (intro round_digits_nonneg place_km_nonneg)
    then show ?thesis
      using that None walk_minutes_pos [of "place_km p q" m]
      by (simp add: make_leg_def valid_leg_def Let_def)
  qed
  then show ?thesis
    using None by (cases "by_id ps a"; cases "by_id ps b") (auto simp: make_leg_def valid_leg_def)
next
  case (Some l)
  with old_leg_ends [OF Some] assms(2) show ?thesis by (simp add: make_leg_def)
qed

lemma rebuild_legs_match:
  assumes "\<forall>p \<in> set ps. in_korea p" and "\<forall>l \<in> set legs. valid_leg l"
  shows "legs_match order (rebuild_legs r ps legs order)"
  using make_leg_props [OF assms] by (simp add: legs_match_def rebuild_legs_def)

lemma rebuild_legs_minutes:
  assumes "set order \<subseteq> pl_id ` set ps"
  shows "\<forall>l \<in> set (rebuild_legs r ps [] order). 1 \<le> lg_min l"
proof -
  have "1 \<le> lg_min (make_leg m ps [] (order ! i) (order ! (i + 1)))" if "i < length order - 1" for i m
  proof -
    have "order ! i \<in> set order" "order ! (i + 1) \<in> set order" using that by auto
    with assms by_id_dom [of ps] obtain p q where "by_id ps (order ! i) = Some p"
      "by_id ps (order ! (i + 1)) = Some q" by blast
    then show ?thesis using walk_minutes_pos
      by (simp add: make_leg_def old_leg_def Let_def)
  qed
  then show ?thesis by (auto simp: rebuild_legs_def)
qed

lemma recommend_route_run:
  "\<not> has_error s \<Longrightarrow> st_places s = Some ps \<Longrightarrow> ps \<noteq> []
   \<Longrightarrow> recommend_route E s =
      (let order = (if rq_stage (st_request s) = StageRoute \<and> \<not> rq_optimize (st_request s)
                    then map pl_id ps else map pl_id (ordered_places ps))
       in Inr (s\<lparr>st_order := Some order, st_legs := Some (rebuild_legs (st_request s) ps [] order)\<rparr>))"
  by (simp add: recommend_route_def order_places_ids Let_def)

section \<open>The contract of the node\<close>

interpretation recommend_route: quiet_early_node recommend_route
  by unfold_locales (unfold recommend_route_def Let_def run_iffs,
    auto intro!: early_fields early_fail_with)

section \<open>Properties\<close>

lemma recommend_route_ok:
  assumes "\<not> has_error s" and "st_places s = Some ps" and "ps \<noteq> []" and "distinct (map pl_id ps)"
    and "\<forall>p \<in> set ps. in_korea p"
    and "rq_stage (st_request s) = StageRoute \<Longrightarrow> sorted (map pl_day ps)"
  shows "\<exists>order legs. recommend_route E s = Inr (s\<lparr>st_order := Some order, st_legs := Some legs\<rparr>)
    \<and> mset order = mset (map pl_id ps) \<and> sorted (map (day_of ps) order)
    \<and> legs_match order legs \<and> (\<forall>l \<in> set legs. 1 \<le> lg_min l)"
proof -
  define qs where "qs = (if rq_stage (st_request s) = StageRoute \<and> \<not> rq_optimize (st_request s)
      then ps else ordered_places ps)"
  have mset: "mset qs = mset ps" by (simp add: qs_def ordered_places_mset)
  then have sub: "set qs \<subseteq> set ps" by (metis order_refl set_mset_mset)
  have sorted: "sorted (map pl_day qs)"
    using assms(6) ordered_places_sorted by (auto simp: qs_def)
  have run: "recommend_route E s = Inr (s\<lparr>st_order := Some (map pl_id qs),
      st_legs := Some (rebuild_legs (st_request s) ps [] (map pl_id qs))\<rparr>)"
    using recommend_route_run [OF assms(1-3)] by (auto simp: qs_def Let_def)
  have "sorted (map (day_of ps) (map pl_id qs))"
    unfolding day_of_map [OF assms(4) sub] by (rule sorted)
  moreover have "mset (map pl_id qs) = mset (map pl_id ps)" using mset by (metis mset_map)
  moreover have "legs_match (map pl_id qs) (rebuild_legs (st_request s) ps [] (map pl_id qs))"
    using assms(5) by (intro rebuild_legs_match) simp_all
  moreover have "\<forall>l \<in> set (rebuild_legs (st_request s) ps [] (map pl_id qs)). 1 \<le> lg_min l"
    using sub by (intro rebuild_legs_minutes) auto
  ultimately show ?thesis using run by blast
qed

text \<open>
  C22: The route of a job: for places with pairwise different ids, in day order where the user's own
  order is kept, the node never fails; the visiting order is a permutation of the ids that never
  goes back to an earlier day, and the legs match it one by one, from 1 minute on, with
  non-negative distances.
\<close>

theorem recommend_route_correct:
  assumes "\<not> has_error s" and "st_places s = Some ps" and "ps \<noteq> []" and "distinct (map pl_id ps)"
    and "\<forall>p \<in> set ps. in_korea p"
    and "rq_stage (st_request s) = StageRoute \<Longrightarrow> sorted (map pl_day ps)"
  shows "\<exists>order legs. recommend_route E s = Inr (s\<lparr>st_order := Some order, st_legs := Some legs\<rparr>)
    \<and> mset order = mset (map pl_id ps) \<and> sorted (map (day_of ps) order)
    \<and> legs_match order legs \<and> (\<forall>l \<in> set legs. 1 \<le> lg_min l)"
  using assms by (rule recommend_route_ok)

theorem recommend_route_correct_witness:
  "\<exists>order legs. recommend_route offline_env
       ((start_state [] (march_request 2))\<lparr>st_places := Some [sample_place 0 1, sample_place 1 2]\<rparr>)
     = Inr ((start_state [] (march_request 2))\<lparr>st_places := Some [sample_place 0 1, sample_place 1 2],
          st_order := Some order, st_legs := Some legs\<rparr>)
     \<and> mset order = {#0, 1#} \<and> length legs = 1"
proof -
  let ?s = "(start_state [] (march_request 2))\<lparr>st_places := Some [sample_place 0 1, sample_place 1 2]\<rparr>"
  have "\<not> has_error ?s" "st_places ?s = Some [sample_place 0 1, sample_place 1 2]"
    "[sample_place 0 1, sample_place 1 2] \<noteq> []"
    "distinct (map pl_id [sample_place 0 1, sample_place 1 2])"
    "\<forall>p \<in> set [sample_place 0 1, sample_place 1 2]. in_korea p"
    "sorted (map pl_day [sample_place 0 1, sample_place 1 2])"
    by (simp_all add: start_state_def has_error_def in_korea_def)
  from recommend_route_correct [OF this] obtain order legs where run:
    "recommend_route offline_env ?s = Inr (?s\<lparr>st_order := Some order, st_legs := Some legs\<rparr>)"
    and m: "mset order = mset (map pl_id [sample_place 0 1, sample_place 1 2])"
    and l: "legs_match order legs" by blast
  from m have "length order = 2" by (metis length_map list.size(3,4) One_nat_def Suc_1 add.commute plus_1_eq_Suc size_mset)
  with run m l show ?thesis by (auto simp: legs_match_def)
qed

text \<open>
  C34: The tour of a day visits exactly the day's places, starts with the first of them, and is never
  longer than the nearest-neighbour tour it was improved from.
\<close>

theorem tour_improves_nearest:
  "mset (tour_of place_km (x # rest)) = mset (x # rest) \<and> hd (tour_of place_km (x # rest)) = x
   \<and> path_length place_km (tour_of place_km (x # rest))
     \<le> path_length place_km (x # nearest_tour place_km x rest)"
proof (cases "length rest \<le> 1")
  case True
  then have "rest = [] \<or> (\<exists>y. rest = [y])" by (cases rest) auto
  then show ?thesis by (auto simp: tour_of_def)
next
  case False
  then show ?thesis
    using km.tour_of_mset [of "x # rest"] km.tour_of_start [of "x # rest"] km.tour_of_shorter [of x rest]
    by auto
qed

text \<open>
  What the bounded number of rounds costs: the improved tour either has no exchange left that
  gains more than the margin, or each of the twenty rounds shortened it by more than the margin.
\<close>

theorem two_opt_local_optimum:
  "snd (opt_round place_km (two_opt place_km t)) = False
   \<or> path_length place_km (two_opt place_km t) \<le> path_length place_km t - 20 * swap_gain_min"
  using km.opt_rounds_progress [of max_rounds t] by (simp add: two_opt_def max_rounds_def)

text \<open>
  The distance is that of points on a sphere: for latitudes within range the argument of the
  square root and of the arc sine lies between 0 and 1, so neither fails, and the result is
  symmetric, zero for a point and itself, and at most half the circumference of the earth.
\<close>

theorem straight_km_well_defined:
  assumes "\<bar>lat1\<bar> \<le> 90" and "\<bar>lat2\<bar> \<le> 90"
  shows "0 \<le> haversine_arg lat1 lng1 lat2 lng2 \<and> haversine_arg lat1 lng1 lat2 lng2 \<le> 1
    \<and> straight_km lat1 lng1 lat2 lng2 = straight_km lat2 lng2 lat1 lng1
    \<and> straight_km lat1 lng1 lat1 lng1 = 0
    \<and> 0 \<le> straight_km lat1 lng1 lat2 lng2 \<and> straight_km lat1 lng1 lat2 lng2 \<le> 6371 * pi"
  using haversine_arg_bounds [OF assms] straight_km_bounds [OF assms] straight_km_sym straight_km_self
  by (simp add: earth_radius_def)

theorem straight_km_well_defined_witness:
  "haversine_arg 37 127 35 129 \<le> 1 \<and> straight_km 37 127 35 129 = straight_km 35 129 37 127"
  using straight_km_well_defined [of 37 35 127 129] by simp

end
