(* ===== verification/Timeline.thy ===== *)
theory Timeline
  imports Planning Route
begin

text \<open>
  The time axis (app/nodes/agent_nodes.py): visiting times from stay and travel times
  (\<open>_plan_timeline\<close>, \<open>build_timeline\<close>), and the shortening of the days that run over
  (\<open>fit_time_budget\<close>). Minutes are counted from midnight.
\<close>

section \<open>Times\<close>

definition two_digits :: "int \<Rightarrow> pystr" where
  "two_digits n = pad_zeros 2 (int_text n)"

definition minutes_to_hhmm :: "int \<Rightarrow> pystr" where
  "minutes_to_hhmm minutes =
     (let capped = max 0 (min minutes (23 * 60 + 59))
      in two_digits (capped div 60) @ [58] @ two_digits (capped mod 60))"

text \<open>\<open>out[order[i]] = max(0, leg.estimated_duration_min)\<close>, read with \<open>get(pid, 0)\<close>.\<close>

definition leg_minutes :: "leg list \<Rightarrow> int list \<Rightarrow> int \<Rightarrow> int" where
  "leg_minutes legs order pid =
     (case map_of (rev (zip order (map (\<lambda>l. max 0 (lg_min l)) legs))) pid of
        None \<Rightarrow> 0 | Some m \<Rightarrow> m)"

definition same_day_next :: "place list \<Rightarrow> int \<Rightarrow> int list \<Rightarrow> bool" where
  "same_day_next places day rest =
     (case rest of
        [] \<Rightarrow> False
      | q # _ \<Rightarrow> (case by_id places q of None \<Rightarrow> False | Some p \<Rightarrow> pl_day p = day))"

text \<open>What the loop of \<open>_plan_timeline\<close> reads and does not change.\<close>

record clock =
  ck_places :: "place list"
  ck_travel :: "int \<Rightarrow> int"
  ck_stay :: "int \<Rightarrow> int"
  ck_start :: int
  ck_end :: int
  ck_buffer :: int

fun timeline_loop ::
    "clock \<Rightarrow> int option \<Rightarrow> int \<Rightarrow> int list \<Rightarrow> (int \<times> slot) list \<Rightarrow> int list
     \<Rightarrow> (int \<times> slot) list \<times> int list" where
  "timeline_loop K current cursor [] timeline overflowed = (timeline, overflowed)"
| "timeline_loop K current cursor (pid # rest) timeline overflowed =
     (case by_id (ck_places K) pid of
        None \<Rightarrow> timeline_loop K current cursor rest timeline overflowed
      | Some p \<Rightarrow>
          (let day = pl_day p;
               cursor = (if current = Some day then cursor else ck_start K);
               stay = ck_stay K pid;
               visit_end = cursor + stay;
               slot = \<lparr>sl_stay = stay, sl_start = minutes_to_hhmm cursor,
                       sl_end = minutes_to_hhmm visit_end, sl_source = None\<rparr>;
               overflowed = (if ck_end K < visit_end \<and> day \<notin> set overflowed
                             then overflowed @ [day] else overflowed);
               cursor = (if same_day_next (ck_places K) day rest
                         then visit_end + ck_travel K pid + ck_buffer K else visit_end)
           in timeline_loop K (Some day) cursor rest (AList.update pid slot timeline) overflowed))"

definition clock_of ::
    "env \<Rightarrow> request \<Rightarrow> place list \<Rightarrow> int list \<Rightarrow> leg list \<Rightarrow> (int \<Rightarrow> int) \<Rightarrow> clock" where
  "clock_of E r places order legs stay =
     \<lparr>ck_places = places, ck_travel = leg_minutes legs order, ck_stay = stay,
      ck_start = minute_of_day (dr_time_start (rq_date r)),
      ck_end = minute_of_day (dr_time_end (rq_date r)),
      ck_buffer = max 0 (cf_buffer (en_settings E))\<rparr>"

definition plan_timeline ::
    "env \<Rightarrow> request \<Rightarrow> place list \<Rightarrow> int list \<Rightarrow> leg list \<Rightarrow> (int \<Rightarrow> int)
     \<Rightarrow> (int \<times> slot) list \<times> int list" where
  "plan_timeline E r places order legs stay =
     (let K = clock_of E r places order legs stay
      in timeline_loop K None (ck_start K) order [] [])"

section \<open>Building the time axis\<close>

definition warn_no_opening_hours :: pystr where
  "warn_no_opening_hours =
     [0xC601, 0xC5C5, 0xC2DC, 0xAC04, 0xC740, 32, 0xD655, 0xC778, 0xD558, 0xC9C0, 32,
     0xC54A, 0xC558, 0xC2B5, 0xB2C8, 0xB2E4]"

definition warn_travel_estimated :: pystr where
  "warn_travel_estimated =
     [0xC790, 0xB3D9, 0xCC28, 0xB7, 0xB300, 0xC911, 0xAD50, 0xD1B5, 32, 0xC774, 0xB3D9,
     0xC2DC, 0xAC04, 0xC740, 32, 0xCD94, 0xC815, 0xAC12, 0xC785, 0xB2C8, 0xB2E4]"

definition warn_trimmed :: pystr where
  "warn_trimmed =
     [0xD558, 0xB8E8, 32, 0xD65C, 0xB3D9, 32, 0xC2DC, 0xAC04, 0xC5D0, 32, 0xB9DE, 0xCDB0,
     32, 0xC77C, 0xBD80, 32, 0xC77C, 0xC815, 0xC744, 32, 0xC904, 0xC600, 0xC2B5, 0xB2C8,
     0xB2E4]"

definition dwell_key :: "place \<Rightarrow> pystr" where
  "dwell_key p = (case pl_content_id p of
     Some cid \<Rightarrow> if cid = [] then lit ''pid:'' @ int_text (pl_id p) else cid
   | None \<Rightarrow> lit ''pid:'' @ int_text (pl_id p))"

definition dwell_request :: "place list \<Rightarrow> (pystr \<times> pystr option \<times> int option) list" where
  "dwell_request places = map (\<lambda>p. (dwell_key p, pl_group_code p, pl_crs_min p)) places"

text \<open>\<open>int(v or 0)\<close>.\<close>

definition int_or_zero :: "env \<Rightarrow> pyval \<Rightarrow> pyexn + int" where
  "int_or_zero E v =
     (if \<not> truthy v then Inr 0
      else case v of
          PInt n \<Rightarrow> Inr n
        | PBool b \<Rightarrow> Inr 1
        | PFloat (Fin r) \<Rightarrow> Inr (int_trunc r)
        | PFloat NaN \<Rightarrow> Inl ValueError
        | PFloat _ \<Rightarrow> Inl OverflowError
        | PStr t \<Rightarrow> (case en_pi E t of None \<Rightarrow> Inl ValueError | Some n \<Rightarrow> Inr n)
        | _ \<Rightarrow> Inl TypeError)"

definition estimates_by_key :: "pydict list \<Rightarrow> pyexn + (pyval \<times> pydict) list" where
  "estimates_by_key es =
     bindE (mapE (\<lambda>e. bindE (hash_key (dget e ''content_id'')) (\<lambda>k. Inr (k, e))) es)
       (\<lambda>kvs. Inr (dict_of_pairs kvs))"

definition estimate_of :: "(pyval \<times> pydict) list \<Rightarrow> place \<Rightarrow> pydict" where
  "estimate_of by_key p = (case map_of by_key (PStr (dwell_key p)) of None \<Rightarrow> [] | Some e \<Rightarrow> e)"

definition stay_source :: "env \<Rightarrow> pydict \<Rightarrow> pystr" where
  "stay_source E est =
     (if truthy (dget est ''source'') then py_str E (dget est ''source'') else lit ''default'')"

text \<open>The last entry of an id wins, as in the dictionary the code fills.\<close>

definition lookup_last :: "(int \<times> 'a) list \<Rightarrow> 'a \<Rightarrow> int \<Rightarrow> 'a" where
  "lookup_last kvs dflt i = (case map_of (rev kvs) i of None \<Rightarrow> dflt | Some v \<Rightarrow> v)"

definition with_sources :: "(int \<Rightarrow> pystr) \<Rightarrow> (int \<times> slot) list \<Rightarrow> (int \<times> slot) list" where
  "with_sources source timeline =
     map (\<lambda>kv. (fst kv, (snd kv)\<lparr>sl_source := Some (source (fst kv))\<rparr>)) timeline"

definition legs_of :: "agent_state \<Rightarrow> leg list" where
  "legs_of s = (case st_legs s of None \<Rightarrow> [] | Some ls \<Rightarrow> ls)"

definition order_of :: "agent_state \<Rightarrow> int list" where
  "order_of s = (case st_order s of None \<Rightarrow> [] | Some xs \<Rightarrow> xs)"

definition timeline_warnings :: "agent_state \<Rightarrow> agent_state" where
  "timeline_warnings s =
     (let s = add_warning warn_no_opening_hours s
      in if rq_mobility (st_request s) = Some Car \<or> rq_mobility (st_request s) = Some Transit
         then add_warning warn_travel_estimated s else s)"

definition apply_estimates :: "env \<Rightarrow> agent_state \<Rightarrow> (pyval \<times> pydict) list \<Rightarrow> pyexn + agent_state" where
  "apply_estimates E s by_key =
     (let places = places_of s
      in bindE (mapE (\<lambda>p. int_or_zero E (dget (estimate_of by_key p) ''stay_minutes'')) places)
        (\<lambda>stays.
          (let stay = lookup_last (zip (map pl_id places) stays) 0;
               source = lookup_last (map (\<lambda>p. (pl_id p, stay_source E (estimate_of by_key p))) places)
                          (lit ''default'');
               (timeline, overflowed) =
                 plan_timeline E (st_request s) places (order_of s) (legs_of s) stay;
               s = s\<lparr>st_timeline := with_sources source timeline,
                     st_tl_status := Some TimelineOk\<rparr>
           in Inr (if overflowed = [] then s else s\<lparr>st_overflow := overflowed\<rparr>))))"

definition build_timeline :: node where
  "build_timeline E s =
     (if has_error s then Inr s
      else if \<not> cf_timeline (en_settings E) \<or> places_of s = [] then Inr s
      else
        (let s = timeline_warnings s
         in case en_dwell E (dwell_request (places_of s)) of
              Inl e \<Rightarrow>
                if is_http_error e \<or> is_value_error e
                then Inr (s\<lparr>st_tl_status := Some Unverified\<rparr>) else Inl e
            | Inr resp \<Rightarrow>
                bindE (case resp of PDict d \<Rightarrow> iter_or_empty (dget d ''estimates'')
                       | _ \<Rightarrow> Inl AttributeError) (\<lambda>es.
                bindE (estimates_by_key (dicts_of es)) (apply_estimates E s))))"

section \<open>Fitting the time budget\<close>

definition floor_min :: int where "floor_min = 10"
definition keep_min :: nat where "keep_min = 2"

definition remaining :: "int set \<Rightarrow> int list \<Rightarrow> int list" where
  "remaining dropped order = filter (\<lambda>i. i \<notin> dropped) order"

definition plan_timeline_with ::
    "env \<Rightarrow> agent_state \<Rightarrow> (int \<Rightarrow> int) \<Rightarrow> int list \<Rightarrow> int set \<Rightarrow> (int \<times> slot) list \<times> int list" where
  "plan_timeline_with E s stay order dropped =
     (let order = remaining dropped order
      in plan_timeline E (st_request s) (filter (\<lambda>p. pl_id p \<notin> dropped) (places_of s)) order
           (rebuild_legs (st_request s) (places_of s) (legs_of s) order) stay)"

definition shrink :: "int list \<Rightarrow> (int \<Rightarrow> int) \<Rightarrow> int \<Rightarrow> int" where
  "shrink ids stay = (\<lambda>i. if i \<in> set ids \<and> floor_min < stay i then floor_min else stay i)"

text \<open>The last place of the day that the user did not pin.\<close>

definition is_pinned :: "agent_state \<Rightarrow> int \<Rightarrow> bool" where
  "is_pinned s i =
     (case by_id (places_of s) i of
        None \<Rightarrow> True
      | Some p \<Rightarrow> (case pl_content_id p of None \<Rightarrow> False
                  | Some cid \<Rightarrow> cid \<in> set (case st_pinned s of None \<Rightarrow> [] | Some xs \<Rightarrow> xs)))"

definition droppable :: "agent_state \<Rightarrow> int list \<Rightarrow> int option" where
  "droppable s ids = List.find (\<lambda>i. \<not> is_pinned s i) (rev ids)"

fun fit_day ::
    "env \<Rightarrow> agent_state \<Rightarrow> int list \<Rightarrow> int \<Rightarrow> nat \<Rightarrow> int list \<Rightarrow> (int \<Rightarrow> int) \<times> int set
     \<Rightarrow> (int \<Rightarrow> int) \<times> int set" where
  "fit_day E s order day 0 ids (stay, dropped) = (stay, dropped)"
| "fit_day E s order day (Suc n) ids (stay, dropped) =
     (let stay = shrink ids stay;
          still = snd (plan_timeline_with E s stay order dropped)
      in if day \<notin> set still then (stay, dropped)
         else if length ids \<le> keep_min then (stay, dropped)
         else (case droppable s ids of
                 None \<Rightarrow> (stay, dropped)
               | Some i \<Rightarrow> fit_day E s order day n (remove1 i ids) (stay, insert i dropped)))"

definition day_ids :: "agent_state \<Rightarrow> int list \<Rightarrow> int \<Rightarrow> int set \<Rightarrow> int list" where
  "day_ids s order day dropped =
     filter (\<lambda>i. (case by_id (places_of s) i of None \<Rightarrow> False | Some p \<Rightarrow> pl_day p = day)
                 \<and> i \<notin> dropped) order"

text \<open>A day without places leaves the loop variable unset, and deleting it raises.\<close>

fun fit_days ::
    "env \<Rightarrow> agent_state \<Rightarrow> int list \<Rightarrow> int list \<Rightarrow> (int \<Rightarrow> int) \<times> int set
     \<Rightarrow> pyexn + (int \<Rightarrow> int) \<times> int set" where
  "fit_days E s order [] sd = Inr sd"
| "fit_days E s order (day # days) sd =
     (let ids = day_ids s order day (snd sd)
      in if ids = [] then Inl UnboundLocalError
         else fit_days E s order days (fit_day E s order day (length ids) ids sd))"

definition drop_places :: "int set \<Rightarrow> int list \<Rightarrow> agent_state \<Rightarrow> agent_state" where
  "drop_places dropped order s =
     (if dropped = {} then s
      else
        (let places = filter (\<lambda>p. pl_id p \<notin> dropped) (places_of s); order = remaining dropped order
         in s\<lparr>st_places := Some places, st_order := Some order,
              st_legs := Some (rebuild_legs (st_request s) places (legs_of s) order)\<rparr>))"

definition user_fixed :: "agent_state \<Rightarrow> bool" where
  "user_fixed s \<longleftrightarrow> rq_stage (st_request s) = StageRoute
     \<or> (rq_stage (st_request s) = StageMode1 \<and> given_places (st_request s) \<noteq> [] \<and> st_pinned s = None)"

definition old_source :: "(int \<times> slot) list \<Rightarrow> int \<Rightarrow> pystr" where
  "old_source timeline i =
     (case map_of timeline i of
        None \<Rightarrow> lit ''default''
      | Some sl \<Rightarrow> (case sl_source sl of None \<Rightarrow> lit ''default'' | Some src \<Rightarrow> src))"

definition fit_time_budget :: node where
  "fit_time_budget E s =
     (if has_error s then Inr s
      else if \<not> cf_timeline (en_settings E) \<or> st_overflow s = [] then Inr s
      else if user_fixed s
      then Inr (fail_with ''selected places exceed the activity time budget'' ''invalid_request''
                  (s\<lparr>st_tl_status := Some Unverified\<rparr>))
      else
        (let order = order_of s;
             stay0 = (\<lambda>i. case map_of (st_timeline s) i of None \<Rightarrow> 0 | Some sl \<Rightarrow> sl_stay sl)
         in bindE (fit_days E s order (st_overflow s) (stay0, {})) (\<lambda>(stay, dropped).
              (let s1 = drop_places dropped order s;
                   (timeline, still) = plan_timeline_with E s1 stay (remaining dropped order) dropped
               in if still \<noteq> []
                  then Inr (fail_with ''verified places exceed the activity time budget''
                              ''invalid_request''
                              (s1\<lparr>st_tl_status := Some Unverified, st_overflow := still\<rparr>))
                  else Inr (add_warning warn_trimmed
                         (s1\<lparr>st_timeline := with_sources (old_source (st_timeline s)) timeline,
                             st_tl_status := Some Trimmed, st_overflow := []\<rparr>))))))"

section \<open>The schedule behind the texts\<close>

text \<open>
  The same recursion with the times as numbers: id, day, start and end of each visit. It is the
  specification the texts of the timeline are read against.
\<close>

record visit =
  vs_id :: int
  vs_day :: int
  vs_start :: int
  vs_end :: int

fun schedule :: "clock \<Rightarrow> int option \<Rightarrow> int \<Rightarrow> int list \<Rightarrow> visit list" where
  "schedule K current cursor [] = []"
| "schedule K current cursor (pid # rest) =
     (case by_id (ck_places K) pid of
        None \<Rightarrow> schedule K current cursor rest
      | Some p \<Rightarrow>
          (let day = pl_day p;
               start = (if current = Some day then cursor else ck_start K);
               visit_end = start + ck_stay K pid
           in \<lparr>vs_id = pid, vs_day = day, vs_start = start, vs_end = visit_end\<rparr>
              # schedule K (Some day)
                  (if same_day_next (ck_places K) day rest
                   then visit_end + ck_travel K pid + ck_buffer K else visit_end) rest))"

definition slot_of :: "clock \<Rightarrow> visit \<Rightarrow> int \<times> slot" where
  "slot_of K v =
     (vs_id v, \<lparr>sl_stay = ck_stay K (vs_id v), sl_start = minutes_to_hhmm (vs_start v),
               sl_end = minutes_to_hhmm (vs_end v), sl_source = None\<rparr>)"

definition note_overflow :: "clock \<Rightarrow> int list \<Rightarrow> visit \<Rightarrow> int list" where
  "note_overflow K ov v = (if ck_end K < vs_end v \<and> vs_day v \<notin> set ov then ov @ [vs_day v] else ov)"

lemma update_new: "k \<notin> fst ` set al \<Longrightarrow> AList.update k v al = al @ [(k, v)]"
  by (induction al) auto

lemma timeline_loop_schedule:
  "distinct order \<Longrightarrow> set order \<inter> fst ` set tm = {}
   \<Longrightarrow> timeline_loop K current cursor order tm ov
     = (tm @ map (slot_of K) (schedule K current cursor order),
        foldl (note_overflow K) ov (schedule K current cursor order))"
proof (induction order arbitrary: current cursor tm ov)
  case (Cons pid rest)
  have new: "AList.update pid sl tm = tm @ [(pid, sl)]" for sl
    using Cons.prems by (intro update_new) auto
  have IH: "timeline_loop K cur c rest (tm @ [(pid, sl)]) ov'
      = (tm @ (pid, sl) # map (slot_of K) (schedule K cur c rest),
         foldl (note_overflow K) ov' (schedule K cur c rest))" for cur c sl ov'
    using Cons.prems by (subst Cons.IH) auto
  show ?case
  proof (cases "by_id (ck_places K) pid")
    case None
    with Cons show ?thesis by simp
  next
    case (Some p)
    then show ?thesis by (simp add: Let_def new IH slot_of_def note_overflow_def [of K ov])
  qed
qed simp

lemma set_note_overflow:
  "set (foldl (note_overflow K) ov vs) = set ov \<union> {vs_day v | v. v \<in> set vs \<and> ck_end K < vs_end v}"
  by (induction vs arbitrary: ov) (auto simp: note_overflow_def)

lemma schedule_ids:
  "\<forall>pid \<in> set order. by_id (ck_places K) pid \<noteq> None \<Longrightarrow> map vs_id (schedule K current cursor order) = order"
  by (induction K current cursor order rule: schedule.induct) (auto simp: Let_def)

lemma schedule_day: "v \<in> set (schedule K current cursor order) \<Longrightarrow> vs_day v = day_of (ck_places K) (vs_id v)"
  by (induction K current cursor order rule: schedule.induct)
     (auto simp: Let_def day_of_def split: option.splits)

lemma schedule_end: "v \<in> set (schedule K current cursor order) \<Longrightarrow> vs_end v = vs_start v + ck_stay K (vs_id v)"
  by (induction K current cursor order rule: schedule.induct)
     (auto simp: Let_def split: option.splits)

lemma schedule_in: "v \<in> set (schedule K current cursor order) \<Longrightarrow> vs_id v \<in> set order"
  by (induction K current cursor order rule: schedule.induct)
     (auto simp: Let_def split: option.splits)

text \<open>
  With days in ascending order and no negative duration, a later visit of the same day starts no
  earlier than the end of an earlier one plus the way and the pause between.
\<close>

definition follows :: "clock \<Rightarrow> visit \<Rightarrow> visit \<Rightarrow> bool" where
  "follows K v w \<longleftrightarrow> (vs_day v = vs_day w
     \<longrightarrow> vs_end v + ck_travel K (vs_id v) + ck_buffer K \<le> vs_start w)"

definition calm :: "clock \<Rightarrow> bool" where
  "calm K \<longleftrightarrow> (\<forall>i. 0 \<le> ck_stay K i \<and> 0 \<le> ck_travel K i) \<and> 0 \<le> ck_buffer K"

lemma schedule_start:
  assumes "calm K" and "sorted (map (day_of (ck_places K)) order)"
    and "\<forall>i \<in> set order. by_id (ck_places K) i \<noteq> None" and "ck_start K \<le> cursor"
    and "\<forall>d. current = Some d \<longrightarrow> (\<forall>i \<in> set order. d \<le> day_of (ck_places K) i)"
  shows "(\<forall>v \<in> set (schedule K current cursor order). ck_start K \<le> vs_start v
           \<and> (current = Some (vs_day v) \<longrightarrow> cursor \<le> vs_start v))
     \<and> sorted_wrt (follows K) (schedule K current cursor order)"
  using assms
proof (induction K current cursor order rule: schedule.induct)
  case (2 K current cursor pid rest)
  from 2(5) obtain p where p: "by_id (ck_places K) pid = Some p" by auto
  have day: "day_of (ck_places K) pid = pl_day p" using p by (simp add: day_of_def)
  define start where "start = (if current = Some (pl_day p) then cursor else ck_start K)"
  define ve where "ve = start + ck_stay K pid"
  define nx where "nx = (if same_day_next (ck_places K) (pl_day p) rest
      then ve + ck_travel K pid + ck_buffer K else ve)"
  have calm: "0 \<le> ck_stay K pid" "0 \<le> ck_travel K pid" "0 \<le> ck_buffer K"
    using 2(3) by (auto simp: calm_def)
  have ge: "ck_start K \<le> start" "ck_start K \<le> nx" "start \<le> nx"
    using 2(6) calm by (auto simp: start_def ve_def nx_def)
  have IH: "(\<forall>v \<in> set (schedule K (Some (pl_day p)) nx rest). ck_start K \<le> vs_start v
           \<and> (pl_day p = vs_day v \<longrightarrow> nx \<le> vs_start v))
     \<and> sorted_wrt (follows K) (schedule K (Some (pl_day p)) nx rest)"
    using 2(2) [OF p refl refl refl, folded start_def, folded ve_def, folded nx_def] 2(3-5) ge(2) day
    by auto
  have sch: "schedule K current cursor (pid # rest)
      = \<lparr>vs_id = pid, vs_day = pl_day p, vs_start = start, vs_end = ve\<rparr> # schedule K (Some (pl_day p)) nx rest"
    using p by (simp add: Let_def start_def ve_def nx_def)
  have same: "same_day_next (ck_places K) (pl_day p) rest"
    if v: "v \<in> set (schedule K (Some (pl_day p)) nx rest)" "vs_day v = pl_day p" for v
  proof -
    have vin: "vs_id v \<in> set rest" using schedule_in [OF v(1)] .
    then obtain q qs where rest: "rest = q # qs" by (cases rest) auto
    have "pl_day p \<le> day_of (ck_places K) q" using 2(4) day rest by simp
    moreover have "day_of (ck_places K) q \<le> day_of (ck_places K) (vs_id v)"
      using 2(4) vin rest by auto
    moreover have "day_of (ck_places K) (vs_id v) = pl_day p" using schedule_day [OF v(1)] v(2) by simp
    ultimately have "day_of (ck_places K) q = pl_day p" by simp
    then show ?thesis using 2(5) rest by (auto simp: same_day_next_def day_of_def)
  qed
  have first: "follows K \<lparr>vs_id = pid, vs_day = pl_day p, vs_start = start, vs_end = ve\<rparr> v"
    if "v \<in> set (schedule K (Some (pl_day p)) nx rest)" for v
    using IH same [OF that] that by (auto simp: follows_def nx_def)
  have later: "cursor \<le> vs_start v" if "v \<in> set (schedule K (Some (pl_day p)) nx rest)"
      "current = Some (vs_day v)" for v
  proof -
    have "vs_day v \<le> pl_day p" using 2(7) that(2) day by auto
    moreover have "pl_day p \<le> vs_day v"
      using schedule_day [OF that(1)] schedule_in [OF that(1)] 2(4) day by auto
    ultimately have "vs_day v = pl_day p" by simp
    with IH that ge(3) show ?thesis by (auto simp: start_def)
  qed
  show ?case unfolding sch using IH ge first later by (auto simp: start_def)
qed simp

text \<open>What follows what, exactly: the way and the pause on the same day, the start time on a new one.\<close>

definition visits :: "clock \<Rightarrow> int list \<Rightarrow> visit list" where
  "visits K order = schedule K None (ck_start K) order"

lemma schedule_hd:
  "by_id (ck_places K) pid = Some p
   \<Longrightarrow> vs_start (schedule K cur c (pid # rest) ! 0) = (if cur = Some (pl_day p) then c else ck_start K)"
  by (simp add: Let_def)

lemma schedule_step:
  "\<forall>pid \<in> set order. by_id (ck_places K) pid \<noteq> None \<Longrightarrow> Suc i < length order
   \<Longrightarrow> vs_start (schedule K cur c order ! Suc i)
     = (if day_of (ck_places K) (order ! i) = day_of (ck_places K) (order ! Suc i)
        then vs_end (schedule K cur c order ! i) + ck_travel K (order ! i) + ck_buffer K
        else ck_start K)"
proof (induction order arbitrary: cur c i)
  case (Cons pid rest)
  from Cons.prems(1) obtain p where p: "by_id (ck_places K) pid = Some p" by auto
  show ?case
  proof (cases i)
    case 0
    with Cons.prems obtain q qs where rest: "rest = q # qs" by (cases rest) auto
    with Cons.prems(1) obtain r where r: "by_id (ck_places K) q = Some r" by auto
    show ?thesis unfolding 0 rest using p r
      by (simp add: Let_def same_day_next_def day_of_def)
  next
    case (Suc j)
    then show ?thesis using Cons.prems p by (simp add: Let_def Cons.IH)
  qed
qed simp

lemma leg_minutes_nth:
  assumes "legs_match order legs" and "distinct order" and "i < length legs"
  shows "leg_minutes legs order (order ! i) = lg_min (legs ! i)"
proof -
  let ?z = "zip order (map (\<lambda>l. max 0 (lg_min l)) legs)"
  have len: "length legs \<le> length order" and min: "0 \<le> lg_min (legs ! i)"
    using assms(1,3) by (auto simp: legs_match_def valid_leg_def)
  have "map fst ?z = take (length legs) order" using len by (simp add: map_fst_zip_take)
  then have "distinct (map fst ?z)" using assms(2) by simp
  then have "distinct (map fst (rev ?z))" by (simp add: rev_map [symmetric])
  moreover have "(order ! i, max 0 (lg_min (legs ! i))) \<in> set (rev ?z)"
    using assms(3) len by (auto simp: in_set_zip intro!: exI [of _ i])
  ultimately have "map_of (rev ?z) (order ! i) = Some (max 0 (lg_min (legs ! i)))"
    by (rule map_of_is_SomeI)
  with min show ?thesis by (simp add: leg_minutes_def)
qed

lemma leg_minutes_nonneg: "0 \<le> leg_minutes legs order i"
  by (auto simp: leg_minutes_def split: option.splits dest!: map_of_SomeD set_zip_rightD)

lemma rebuild_legs_same:
  assumes "legs_match order legs" and "distinct order"
  shows "rebuild_legs r ps legs order = legs"
proof (rule nth_equalityI)
  show len: "length (rebuild_legs r ps legs order) = length legs"
    using assms(1) by (simp add: legs_match_def rebuild_legs_def)
  fix i assume "i < length (rebuild_legs r ps legs order)"
  then have i: "i < length legs" using len by simp
  let ?kv = "\<lambda>l. ((lg_from l, lg_to l), l)"
  have key: "?kv (legs ! j) = ((order ! j, order ! (j + 1)), legs ! j)" if "j < length legs" for j
    using assms(1) that by (simp add: legs_match_def)
  have "inj_on (\<lambda>l. (lg_from l, lg_to l)) (set legs)" and "distinct legs"
  proof -
    have eq: "j = k" if "j < length legs" "k < length legs"
      "lg_from (legs ! j) = lg_from (legs ! k)" for j k
      using that assms by (simp add: legs_match_def nth_eq_iff_index_eq)
    show "inj_on (\<lambda>l. (lg_from l, lg_to l)) (set legs)"
    proof (rule inj_onI)
      fix a b assume ab: "a \<in> set legs" "b \<in> set legs" "(lg_from a, lg_to a) = (lg_from b, lg_to b)"
      from ab(1,2) obtain j k where "j < length legs" "k < length legs" "a = legs ! j" "b = legs ! k"
        by (auto simp: in_set_conv_nth)
      with eq [of j k] ab(3) show "a = b" by simp
    qed
    show "distinct legs" using eq by (auto simp: distinct_conv_nth)
  qed
  then have "distinct (map fst (rev (map ?kv legs)))"
    by (simp add: rev_map [symmetric] distinct_map comp_def)
  moreover have "((order ! i, order ! (i + 1)), legs ! i) \<in> set (rev (map ?kv legs))"
    using key [OF i] i by (metis (no_types, lifting) image_eqI list.set_map nth_mem set_rev)
  ultimately have "old_leg legs (order ! i) (order ! (i + 1)) = Some (legs ! i)"
    unfolding old_leg_def by (rule map_of_is_SomeI)
  then show "rebuild_legs r ps legs order ! i = legs ! i"
    using i len by (simp add: rebuild_legs_def make_leg_def)
qed

text \<open>The texts of the times.\<close>

lemma two_digits_read:
  assumes "0 \<le> n" and "n < 100"
  shows "length (two_digits n) = 2 \<and> int (digits_value (two_digits n)) = n"
proof -
  have "length (nat_digits k) \<le> 2" if "k < 100" for k
  proof (cases "k < 10")
    case False
    then have "nat_digits k = nat_digits (k div 10) @ [48 + k mod 10]"
      by (subst nat_digits.simps) simp
    moreover have "k div 10 < 10" using that by simp
    then have "length (nat_digits (k div 10)) = 1" by (subst nat_digits.simps) simp
    ultimately show ?thesis by simp
  qed (subst nat_digits.simps, simp)
  from this [of "nat n"] assms show ?thesis
    by (simp add: two_digits_def int_text_def pad_zeros_def)
qed

lemma minutes_to_hhmm_length: "length (minutes_to_hhmm m) = 5"
proof -
  let ?c = "max 0 (min m (23 * 60 + 59))"
  have "0 \<le> ?c div 60" "?c div 60 < 100" "0 \<le> ?c mod 60" "?c mod 60 < 100"
    by (auto intro: order.strict_trans [OF pos_mod_bound])
  from two_digits_read [OF this(1,2)] two_digits_read [OF this(3,4)]
  show ?thesis by (simp add: minutes_to_hhmm_def Let_def)
qed

section \<open>What shortening keeps\<close>

text \<open>Places, visiting order and legs that belong together.\<close>

definition route_ok :: "place list \<Rightarrow> int list \<Rightarrow> leg list \<Rightarrow> bool" where
  "route_ok ps order legs \<longleftrightarrow> distinct (map pl_id ps) \<and> mset order = mset (map pl_id ps)
     \<and> sorted (map (day_of ps) order) \<and> legs_match order legs \<and> (\<forall>p \<in> set ps. in_korea p)"

lemma route_ok_order:
  assumes "route_ok ps order legs"
  shows "distinct order" and "set order = pl_id ` set ps" and "\<forall>i \<in> set order. by_id ps i \<noteq> None"
proof -
  have m: "mset order = mset (map pl_id ps)" and d: "distinct (map pl_id ps)"
    using assms by (simp_all add: route_ok_def)
  show s: "set order = pl_id ` set ps" using arg_cong [OF m, of set_mset] by simp
  show "distinct order" by (rule iffD2 [OF mset_eq_imp_distinct_iff [OF m] d])
  show "\<forall>i \<in> set order. by_id ps i \<noteq> None"
  proof
    fix i assume "i \<in> set order"
    then show "by_id ps i \<noteq> None" using s by_id_dom [of ps i] by blast
  qed
qed

lemma by_id_filter:
  assumes "distinct (map pl_id ps)" and "P i"
  shows "by_id (filter (\<lambda>p. P (pl_id p)) ps) i = by_id ps i"
proof (cases "by_id ps i")
  case None
  then have "i \<notin> pl_id ` set ps" using by_id_dom [of ps i] by blast
  then have "i \<notin> pl_id ` set (filter (\<lambda>p. P (pl_id p)) ps)" by auto
  then show ?thesis using None by_id_dom [of "filter (\<lambda>p. P (pl_id p)) ps" i] by metis
next
  case (Some p)
  with by_id_in [of ps i p] have p: "p \<in> set ps" "pl_id p = i" by blast+
  have "distinct (map pl_id (filter (\<lambda>p. P (pl_id p)) ps))" using assms(1) by (rule distinct_map_filter)
  with p assms(2) have "by_id (filter (\<lambda>p. P (pl_id p)) ps) (pl_id p) = Some p"
    by (intro by_id_Some) auto
  with Some p show ?thesis by simp
qed

lemma route_ok_drop:
  assumes "route_ok ps order legs"
  shows "route_ok (filter (\<lambda>p. pl_id p \<notin> D) ps) (remaining D order)
     (rebuild_legs r (filter (\<lambda>p. pl_id p \<notin> D) ps) legs (remaining D order))"
proof -
  let ?ps = "filter (\<lambda>p. pl_id p \<notin> D) ps"
  have d: "distinct (map pl_id ps)" and m: "mset order = mset (map pl_id ps)"
    and k: "\<forall>p \<in> set ps. in_korea p" and l: "legs_match order legs"
    and s: "sorted (map (day_of ps) order)"
    using assms by (simp_all add: route_ok_def)
  have "mset (remaining D order) = filter_mset (\<lambda>i. i \<notin> D) (mset (map pl_id ps))"
    unfolding remaining_def m [symmetric] by simp
  also have "\<dots> = mset (filter (\<lambda>i. i \<notin> D) (map pl_id ps))" by simp
  also have "filter (\<lambda>i. i \<notin> D) (map pl_id ps) = map pl_id ?ps" by (simp add: filter_map comp_def)
  finally have "mset (remaining D order) = mset (map pl_id ?ps)" .
  moreover have "map (day_of ?ps) (remaining D order) = map (day_of ps) (remaining D order)"
    using by_id_filter [OF d, of "\<lambda>i. i \<notin> D"] by (auto simp: day_of_def remaining_def)
  then have "sorted (map (day_of ?ps) (remaining D order))"
    using s sorted_filter by (metis remaining_def)
  moreover have "\<forall>l \<in> set legs. valid_leg l"
    using l by (metis in_set_conv_nth legs_match_def)
  ultimately show ?thesis
    using d k rebuild_legs_match [of ?ps legs] by (simp add: route_ok_def distinct_map_filter)
qed

lemma shrink_range:
  "shrink ids stay i \<le> stay i \<and> (shrink ids stay i = stay i \<or> shrink ids stay i = 10)"
  by (simp add: shrink_def floor_min_def)

definition shortened :: "(int \<Rightarrow> int) \<Rightarrow> (int \<Rightarrow> int) \<Rightarrow> bool" where
  "shortened a b \<longleftrightarrow> (\<forall>i. b i \<le> a i \<and> (b i = a i \<or> b i = 10))"

lemma shortened_trans: "shortened a b \<Longrightarrow> shortened b c \<Longrightarrow> shortened a c"
  unfolding shortened_def by (metis order_trans)

lemma shortened_shrink: "shortened stay (shrink ids stay)"
  unfolding shortened_def using shrink_range by blast

lemma find_Some_in: "List.find P xs = Some x \<Longrightarrow> x \<in> set xs \<and> P x"
  by (induction xs) (auto split: if_splits)

lemma droppable_Some: "droppable s ids = Some i \<Longrightarrow> i \<in> set ids \<and> \<not> is_pinned s i"
  using find_Some_in [of _ "rev ids" i] by (auto simp: droppable_def)

lemma fit_day_props:
  assumes "fit_day E s order day n ids (stay, D) = (stay', D')" and "distinct ids" and "set ids \<inter> D = {}"
  shows "D \<subseteq> D' \<and> D' \<subseteq> D \<union> {i \<in> set ids. \<not> is_pinned s i} \<and> shortened stay stay'
     \<and> min 2 (length ids) \<le> length (filter (\<lambda>i. i \<notin> D') ids)"
  using assms
proof (induction n arbitrary: ids stay D)
  case 0
  then have "filter (\<lambda>i. i \<notin> D') ids = ids" by (intro filter_True) auto
  with 0 show ?case by (simp add: shortened_def)
next
  case (Suc n)
  let ?stay = "shrink ids stay"
  have all: "filter (\<lambda>i. i \<notin> D) ids = ids" using Suc.prems(3) by (intro filter_True) auto
  show ?case
  proof (cases "\<exists>i. day \<in> set (snd (plan_timeline_with E s ?stay order D))
      \<and> \<not> length ids \<le> keep_min \<and> droppable s ids = Some i")
    case False
    with Suc.prems(1) have "stay' = ?stay" "D' = D"
      by (auto simp: Let_def split: if_splits option.splits)
    then show ?thesis using all shortened_shrink by auto
  next
    case True
    then obtain i where i: "day \<in> set (snd (plan_timeline_with E s ?stay order D))"
      "2 < length ids" "droppable s ids = Some i" by (auto simp: keep_min_def)
    have in_ids: "i \<in> set ids" "\<not> is_pinned s i" using droppable_Some [OF i(3)] by auto
    have run: "fit_day E s order day n (remove1 i ids) (?stay, insert i D) = (stay', D')"
      using Suc.prems(1) i by (simp add: Let_def keep_min_def)
    have IH: "insert i D \<subseteq> D' \<and> D' \<subseteq> insert i D \<union> {j \<in> set (remove1 i ids). \<not> is_pinned s j}
      \<and> shortened ?stay stay'
      \<and> min 2 (length (remove1 i ids)) \<le> length (filter (\<lambda>i. i \<notin> D') (remove1 i ids))"
      using Suc.prems by (intro Suc.IH [OF run]) auto
    have "filter (\<lambda>j. j \<notin> D') ids = filter (\<lambda>j. j \<notin> D') (remove1 i ids)"
      using IH Suc.prems(2) by (auto simp: distinct_remove1_removeAll removeAll_filter_not_eq intro: filter_cong)
    moreover have "min 2 (length (remove1 i ids)) = 2" using in_ids i by (simp add: length_remove1)
    moreover have "shortened stay stay'" using IH shortened_trans [OF shortened_shrink] by blast
    ultimately show ?thesis using IH in_ids set_remove1_subset [of i ids] by auto
  qed
qed

lemma day_ids_subset: "D \<subseteq> D' \<Longrightarrow> day_ids s order d D' = filter (\<lambda>i. i \<notin> D') (day_ids s order d D)"
  by (auto simp: day_ids_def intro!: filter_cong)

definition kept :: "agent_state \<Rightarrow> int list \<Rightarrow> int set \<Rightarrow> bool" where
  "kept s order D \<longleftrightarrow> (\<forall>i \<in> D. \<not> is_pinned s i)
     \<and> (\<forall>d. min 2 (length (day_ids s order d {})) \<le> length (day_ids s order d D))"

lemma kept_nonempty: "kept s order D \<Longrightarrow> day_ids s order d {} \<noteq> [] \<Longrightarrow> day_ids s order d D \<noteq> []"
  by (cases "day_ids s order d {}") (auto simp: kept_def dest!: spec [of _ d])

lemma fit_day_kept:
  assumes "kept s order D" and "distinct order"
    and "fit_day E s order d n (day_ids s order d D) (stay, D) = (stay', D')"
  shows "kept s order D' \<and> shortened stay stay'"
proof -
  let ?ids = "day_ids s order d D"
  have "distinct ?ids" "set ?ids \<inter> D = {}" using assms(2) by (auto simp: day_ids_def)
  from fit_day_props [OF assms(3) this]
  have P: "D \<subseteq> D'" "D' \<subseteq> D \<union> {i \<in> set ?ids. \<not> is_pinned s i}" "shortened stay stay'"
    "min 2 (length ?ids) \<le> length (day_ids s order d D')"
    using day_ids_subset [of D D' s order d] by auto
  have "min 2 (length (day_ids s order e {})) \<le> length (day_ids s order e D')" for e
  proof (cases "e = d")
    case True
    then show ?thesis using P(4) assms(1) by (auto simp: kept_def dest: spec [of _ d])
  next
    case False
    have "day_ids s order e D' = day_ids s order e D"
      unfolding day_ids_def using P(1,2) False
      by (intro filter_cong) (auto simp: day_ids_def split: option.splits)
    then show ?thesis using assms(1) by (simp add: kept_def)
  qed
  then show ?thesis using P assms(1) by (auto simp: kept_def)
qed

lemma fit_days_kept:
  assumes "kept s order D" and "distinct order" and "\<forall>d \<in> set days. day_ids s order d {} \<noteq> []"
  shows "\<exists>stay' D'. fit_days E s order days (stay, D) = Inr (stay', D') \<and> kept s order D'
    \<and> shortened stay stay'"
  using assms
proof (induction days arbitrary: stay D)
  case (Cons d days)
  let ?ids = "day_ids s order d D"
  obtain stay1 D1 where one: "fit_day E s order d (length ?ids) ?ids (stay, D) = (stay1, D1)"
    by (metis surj_pair)
  from fit_day_kept [OF Cons.prems(1,2) one] have k: "kept s order D1" "shortened stay stay1" by auto
  have "\<forall>d \<in> set days. day_ids s order d {} \<noteq> []" using Cons.prems(3) by simp
  from Cons.IH [OF k(1) Cons.prems(2) this] obtain stay' D' where
    rest: "fit_days E s order days (stay1, D1) = Inr (stay', D')" "kept s order D'" "shortened stay1 stay'"
    by blast
  have "?ids \<noteq> []" using kept_nonempty [OF Cons.prems(1)] Cons.prems(3) by simp
  then have "fit_days E s order (d # days) (stay, D) = Inr (stay', D')"
    using one rest(1) by (simp add: Let_def)
  with rest(2) shortened_trans [OF k(2) rest(3)] show ?case by (intro exI conjI)
qed (auto simp: shortened_def)

text \<open>The visits of a whole plan.\<close>

definition planned ::
    "env \<Rightarrow> request \<Rightarrow> place list \<Rightarrow> int list \<Rightarrow> leg list \<Rightarrow> (int \<Rightarrow> int) \<Rightarrow> visit list" where
  "planned E r ps order legs stay = visits (clock_of E r ps order legs stay) order"

definition time_texts :: "(int \<Rightarrow> int) \<Rightarrow> visit \<Rightarrow> int \<times> slot" where
  "time_texts stay v =
     (vs_id v, \<lparr>sl_stay = stay (vs_id v), sl_start = minutes_to_hhmm (vs_start v),
               sl_end = minutes_to_hhmm (vs_end v), sl_source = None\<rparr>)"

definition over_days :: "request \<Rightarrow> visit list \<Rightarrow> int set" where
  "over_days r vs = {vs_day v | v. v \<in> set vs \<and> minute_of_day (dr_time_end (rq_date r)) < vs_end v}"

lemma plan_timeline_planned:
  assumes "distinct order"
  obtains ov where "plan_timeline E r ps order legs stay
      = (map (time_texts stay) (planned E r ps order legs stay), ov)"
    and "set ov = over_days r (planned E r ps order legs stay)"
proof -
  let ?K = "clock_of E r ps order legs stay"
  have "slot_of ?K = time_texts stay" by (simp add: fun_eq_iff slot_of_def time_texts_def clock_of_def)
  moreover have "ck_end ?K = minute_of_day (dr_time_end (rq_date r))" by (simp add: clock_of_def)
  ultimately show ?thesis
    using that timeline_loop_schedule [OF assms, of "[]" ?K None "ck_start ?K" "[]"]
      set_note_overflow [of ?K "[]"]
    by (simp add: plan_timeline_def planned_def visits_def over_days_def Let_def)
qed

lemma planned_ids:
  "\<forall>i \<in> set order. by_id ps i \<noteq> None \<Longrightarrow> map vs_id (planned E r ps order legs stay) = order"
  unfolding planned_def visits_def by (rule schedule_ids) (simp add: clock_of_def)

lemma over_days_real:
  assumes "\<forall>i \<in> set order. by_id ps i \<noteq> None" and "d \<in> over_days q (planned E r ps order legs stay)"
  shows "\<exists>i \<in> set order. day_of ps i = d"
proof -
  from assms(2) obtain v where v: "v \<in> set (planned E r ps order legs stay)" "vs_day v = d"
    by (auto simp: over_days_def)
  have "vs_day v = day_of ps (vs_id v)"
    using v(1) schedule_day [of v "clock_of E r ps order legs stay"]
    by (simp add: planned_def visits_def clock_of_def)
  moreover have "vs_id v \<in> set order"
    using v(1) schedule_in [of v "clock_of E r ps order legs stay"] by (simp add: planned_def visits_def)
  ultimately show ?thesis using v by auto
qed

section \<open>The contract of the nodes\<close>

lemma timeline_warnings_tame: "tame m s (timeline_warnings s)"
  by (auto simp: timeline_warnings_def add_warning_def Let_def intro!: tame_fields)

lemma apply_estimates_tame:
  assumes "apply_estimates E s by_key = Inr s'"
  shows "tame m s s'"
proof -
  from assms obtain stays where stays:
    "mapE (\<lambda>p. int_or_zero E (dget (estimate_of by_key p) ''stay_minutes'')) (places_of s) = Inr stays"
    by (auto simp: apply_estimates_def Let_def bindE_Inr_iff)
  obtain slots ov where "plan_timeline E (st_request s) (places_of s) (order_of s) (legs_of s)
      (lookup_last (zip (map pl_id (places_of s)) stays) 0) = (slots, ov)" by fastforce
  with assms stays show ?thesis
    by (auto simp: apply_estimates_def Let_def intro!: tame_fields split: if_splits)
qed

interpretation build_timeline: quiet_node build_timeline
proof
  fix E s s'
  assume "build_timeline E s = Inr s'"
  then consider "s' = s"
    | "s' = (timeline_warnings s)\<lparr>st_tl_status := Some Unverified\<rparr>"
    | by_key where "apply_estimates E (timeline_warnings s) by_key = Inr s'"
    unfolding build_timeline_def Let_def run_iffs by auto
  then show "tame 0 s s'"
  proof cases
    case 2
    have "tame 0 (timeline_warnings s) s'" unfolding 2 by (auto intro!: tame_fields)
    with timeline_warnings_tame show ?thesis by (rule tame_trans)
  next
    case 3
    from timeline_warnings_tame apply_estimates_tame [OF 3] show ?thesis by (rule tame_trans)
  qed simp
qed

lemma drop_places_tame: "tame m s (drop_places D order s)"
  by (auto simp: drop_places_def Let_def intro!: tame_fields)

text \<open>The ways the node ends.\<close>

lemma fit_time_budget_shape:
  assumes "fit_time_budget E s = Inr s'"
  obtains (same) "s' = s"
  | (fixed) "s' = fail_with ''selected places exceed the activity time budget'' ''invalid_request''
        (s\<lparr>st_tl_status := Some Unverified\<rparr>)"
  | (late) D still where "s' = fail_with ''verified places exceed the activity time budget'' ''invalid_request''
        ((drop_places D (order_of s) s)\<lparr>st_tl_status := Some Unverified, st_overflow := still\<rparr>)"
  | (fitted) D timeline where "s' = add_warning warn_trimmed
        ((drop_places D (order_of s) s)\<lparr>st_timeline := with_sources (old_source (st_timeline s)) timeline,
           st_tl_status := Some Trimmed, st_overflow := []\<rparr>)"
proof (cases "has_error s \<or> \<not> cf_timeline (en_settings E) \<or> st_overflow s = [] \<or> user_fixed s")
  case True
  with assms same fixed show ?thesis by (auto simp: fit_time_budget_def split: if_splits)
next
  case False
  with assms obtain sd where fit: "fit_days E s (order_of s) (st_overflow s)
      (\<lambda>i. case map_of (st_timeline s) i of None \<Rightarrow> 0 | Some sl \<Rightarrow> sl_stay sl, {}) = Inr sd"
    by (auto simp: fit_time_budget_def bindE_Inr_iff Let_def)
  obtain stay D where sd: "sd = (stay, D)" by fastforce
  let ?s1 = "drop_places D (order_of s) s"
  obtain timeline still where plan:
    "plan_timeline_with E ?s1 stay (remaining D (order_of s)) D = (timeline, still)" by fastforce
  have "s' = (if still \<noteq> []
      then fail_with ''verified places exceed the activity time budget'' ''invalid_request''
             (?s1\<lparr>st_tl_status := Some Unverified, st_overflow := still\<rparr>)
      else add_warning warn_trimmed
             (?s1\<lparr>st_timeline := with_sources (old_source (st_timeline s)) timeline,
                st_tl_status := Some Trimmed, st_overflow := []\<rparr>))"
    using assms False fit plan unfolding sd by (auto simp: fit_time_budget_def Let_def)
  then show ?thesis using late fitted by (cases "still = []") auto
qed

interpretation fit_time_budget: quiet_node fit_time_budget
proof
  fix E s s'
  assume "fit_time_budget E s = Inr s'"
  then show "tame 0 s s'"
  proof (cases rule: fit_time_budget_shape)
    case fixed
    have "tame 0 s (s\<lparr>st_tl_status := Some Unverified\<rparr>)" by (auto intro!: tame_fields)
    then show ?thesis unfolding fixed by (rule tame_fail_with) simp
  next
    case (late D still)
    have "tame 0 (drop_places D (order_of s) s)
        ((drop_places D (order_of s) s)\<lparr>st_tl_status := Some Unverified, st_overflow := still\<rparr>)"
      by (auto intro!: tame_fields)
    note this [THEN tame_trans [OF drop_places_tame]]
    then show ?thesis unfolding late by (rule tame_fail_with) simp
  next
    case (fitted D timeline)
    have "tame 0 (drop_places D (order_of s) s) s'"
      unfolding fitted by (auto intro!: tame_fields simp: add_warning_def)
    with drop_places_tame show ?thesis by (rule tame_trans)
  qed simp
qed

section \<open>Properties\<close>

text \<open>
  The texts of the times are read back: for a minute of the day, \<open>HH:MM\<close> is five characters
  long and its digits give the hour and the minute; a time beyond the day is shown as 23:59.
\<close>

theorem minutes_to_hhmm_read_back:
  "length (minutes_to_hhmm m) = 5
   \<and> 60 * int (digits_value (take 2 (minutes_to_hhmm m))) + int (digits_value (drop 3 (minutes_to_hhmm m)))
     = max 0 (min m 1439)"
proof -
  let ?c = "max 0 (min m (23 * 60 + 59))"
  have c: "0 \<le> ?c" "?c \<le> 1439" by simp_all
  then have "0 \<le> ?c div 60" "?c div 60 < 100" "0 \<le> ?c mod 60" "?c mod 60 < 100"
    by (auto intro: order.strict_trans [OF pos_mod_bound])
  from two_digits_read [OF this(1,2)] two_digits_read [OF this(3,4)]
  show ?thesis by (simp add: minutes_to_hhmm_def Let_def)
qed

text \<open>
  C14: The time axis of a plan whose places, order and legs belong together: the timeline lists the
  places in visiting order with the texts of the planned visits; each visit ends its stay time after
  its start; the first visit of a day starts at the start time, every other one exactly the minutes
  of the leg and the pause after the end of the visit before; and the days reported as overflowing
  are exactly those with a visit that ends after the end time.
\<close>

theorem plan_timeline_schedule:
  assumes "route_ok ps order legs"
  shows "let vs = planned E r ps order legs stay; start = minute_of_day (dr_time_start (rq_date r))
    in map vs_id vs = order
     \<and> (\<exists>ov. plan_timeline E r ps order legs stay = (map (time_texts stay) vs, ov)
          \<and> set ov = over_days r vs)
     \<and> (\<forall>v \<in> set vs. vs_end v = vs_start v + stay (vs_id v) \<and> vs_day v = day_of ps (vs_id v))
     \<and> (order \<noteq> [] \<longrightarrow> vs_start (vs ! 0) = start)
     \<and> (\<forall>i. Suc i < length order \<longrightarrow> vs_start (vs ! Suc i) =
          (if day_of ps (order ! i) = day_of ps (order ! Suc i)
           then vs_end (vs ! i) + lg_min (legs ! i) + max 0 (cf_buffer (en_settings E)) else start))"
proof -
  let ?K = "clock_of E r ps order legs stay" and ?vs = "planned E r ps order legs stay"
  note o = route_ok_order [OF assms]
  have match: "legs_match order legs" using assms by (simp add: route_ok_def)
  have K: "ck_places ?K = ps" "ck_stay ?K = stay" "ck_travel ?K = leg_minutes legs order"
    "ck_start ?K = minute_of_day (dr_time_start (rq_date r))"
    "ck_buffer ?K = max 0 (cf_buffer (en_settings E))" by (simp_all add: clock_of_def)
  obtain ov where "plan_timeline E r ps order legs stay = (map (time_texts stay) ?vs, ov)"
    "set ov = over_days r ?vs" by (rule plan_timeline_planned [OF o(1)])
  moreover have "\<forall>v \<in> set ?vs. vs_end v = vs_start v + stay (vs_id v) \<and> vs_day v = day_of ps (vs_id v)"
    using schedule_end [of _ ?K] schedule_day [of _ ?K] by (simp add: planned_def visits_def K)
  moreover have "vs_start (?vs ! 0) = ck_start ?K" if "order \<noteq> []"
  proof -
    from that obtain q qs where "order = q # qs" by (cases order) auto
    moreover from this o(3) obtain p where "by_id ps q = Some p" by auto
    ultimately show ?thesis by (simp add: planned_def visits_def clock_of_def Let_def)
  qed
  moreover have "vs_start (?vs ! Suc i) =
      (if day_of ps (order ! i) = day_of ps (order ! Suc i)
       then vs_end (?vs ! i) + lg_min (legs ! i) + ck_buffer ?K else ck_start ?K)"
    if "Suc i < length order" for i
  proof -
    have "i < length legs" using that match by (simp add: legs_match_def)
    from leg_minutes_nth [OF match o(1) this] schedule_step [of order ?K i None "ck_start ?K"] that o(3)
    show ?thesis by (simp add: planned_def visits_def K)
  qed
  ultimately show ?thesis using planned_ids [OF o(3)] by (simp add: Let_def K)
qed

definition two_places :: "place list" where
  "two_places = [sample_place 0 1, sample_place 1 1]"

definition half_hour_leg :: "leg list" where
  "half_hour_leg = [\<lparr>lg_from = 0, lg_to = 1, lg_mode = Walk, lg_km = 2, lg_min = 30\<rparr>]"

lemma two_places_ok: "route_ok two_places [0, 1] half_hour_leg"
  by (simp add: route_ok_def two_places_def half_hour_leg_def legs_match_def valid_leg_def
      in_korea_def day_of_def by_id_def)

theorem plan_timeline_schedule_witness:
  "vs_start (planned offline_env (march_request 1) two_places [0, 1] half_hour_leg (\<lambda>_. 60) ! 0) = 540
   \<and> map vs_id (planned offline_env (march_request 1) two_places [0, 1] half_hour_leg (\<lambda>_. 60)) = [0, 1]"
  using plan_timeline_schedule [OF two_places_ok, of offline_env "march_request 1" "\<lambda>_. 60"]
  by (simp add: Let_def march_request_def minute_of_day_def)

lemma build_timeline_ok:
  assumes "build_timeline E s = Inr s'" and "route_ok (places_of s) (order_of s) (legs_of s)"
    and "st_tl_status s = None" and "st_overflow s = []"
  shows "st_error s' = st_error s \<and> st_places s' = st_places s \<and> st_order s' = st_order s
    \<and> st_legs s' = st_legs s \<and> st_llm_used s' = st_llm_used s
    \<and> (case st_tl_status s' of
         None \<Rightarrow> s' = s
       | Some Unverified \<Rightarrow> st_timeline s' = st_timeline s \<and> st_overflow s' = []
       | Some TimelineOk \<Rightarrow> (\<exists>stay source.
           let vs = planned E (st_request s) (places_of s) (order_of s) (legs_of s) stay
           in st_timeline s' = with_sources source (map (time_texts stay) vs)
              \<and> set (st_overflow s') = over_days (st_request s) vs)
       | Some Trimmed \<Rightarrow> False)"
proof -
  let ?w = "timeline_warnings s"
  have frame: "st_error ?w = st_error s" "st_places ?w = st_places s" "st_order ?w = st_order s"
    "st_legs ?w = st_legs s" "st_llm_used ?w = st_llm_used s" "st_request ?w = st_request s"
    "st_timeline ?w = st_timeline s" "st_overflow ?w = []" "places_of ?w = places_of s"
    "order_of ?w = order_of s" "legs_of ?w = legs_of s"
    using assms(4) by (simp_all add: timeline_warnings_def Let_def places_of_def order_of_def legs_of_def)
  from assms(1) consider "s' = s"
    | "s' = (timeline_warnings s)\<lparr>st_tl_status := Some Unverified\<rparr>"
    | by_key where "apply_estimates E (timeline_warnings s) by_key = Inr s'"
    unfolding build_timeline_def Let_def run_iffs by (auto simp: has_error_def)
  then show ?thesis
  proof cases
    case 1
    then show ?thesis using assms(3) by simp
  next
    case 2
    then show ?thesis by (simp add: frame)
  next
    case 3
    from 3 obtain stays where stays:
      "mapE (\<lambda>p. int_or_zero E (dget (estimate_of by_key p) ''stay_minutes'')) (places_of s) = Inr stays"
      by (auto simp: apply_estimates_def Let_def bindE_Inr_iff frame)
    let ?stay = "lookup_last (zip (map pl_id (places_of s)) stays) 0"
    obtain ov where plan: "plan_timeline E (st_request s) (places_of s) (order_of s) (legs_of s) ?stay
        = (map (time_texts ?stay) (planned E (st_request s) (places_of s) (order_of s) (legs_of s) ?stay), ov)"
      and ov: "set ov = over_days (st_request s)
        (planned E (st_request s) (places_of s) (order_of s) (legs_of s) ?stay)"
      by (rule plan_timeline_planned [OF route_ok_order(1) [OF assms(2)]])
    let ?source = "lookup_last (map (\<lambda>p. (pl_id p, stay_source E (estimate_of by_key p))) (places_of s))
        (lit ''default'')"
    let ?s1 = "?w\<lparr>st_timeline := with_sources ?source (map (time_texts ?stay)
        (planned E (st_request s) (places_of s) (order_of s) (legs_of s) ?stay)),
        st_tl_status := Some TimelineOk\<rparr>"
    from 3 have "s' = (if ov = [] then ?s1 else ?s1\<lparr>st_overflow := ov\<rparr>)"
      by (simp add: apply_estimates_def Let_def frame stays plan)
    then show ?thesis using ov by (auto simp: Let_def frame)
  qed
qed

text \<open>
  Building the time axis only adds to the state: it sets no error, spends no model call and
  leaves places, order and legs alone. When the hub fails, the timeline is marked unverified; when
  it answers, the timeline is the plan for the stay times it gave, with their sources, and the
  overflow days are exactly the days of the plan that end too late.
\<close>

theorem build_timeline_adds:
  assumes "build_timeline E s = Inr s'" and "route_ok (places_of s) (order_of s) (legs_of s)"
    and "st_tl_status s = None" and "st_overflow s = []"
  shows "st_error s' = st_error s \<and> st_places s' = st_places s \<and> st_order s' = st_order s
    \<and> st_legs s' = st_legs s \<and> st_llm_used s' = st_llm_used s
    \<and> (case st_tl_status s' of
         None \<Rightarrow> s' = s
       | Some Unverified \<Rightarrow> st_timeline s' = st_timeline s \<and> st_overflow s' = []
       | Some TimelineOk \<Rightarrow> (\<exists>stay source.
           let vs = planned E (st_request s) (places_of s) (order_of s) (legs_of s) stay
           in st_timeline s' = with_sources source (map (time_texts stay) vs)
              \<and> set (st_overflow s') = over_days (st_request s) vs)
       | Some Trimmed \<Rightarrow> False)"
  using assms by (rule build_timeline_ok)

definition routed_state :: "int list \<Rightarrow> agent_state" where
  "routed_state overflow = (start_state [] (march_request 1))\<lparr>st_places := Some two_places,
     st_order := Some [0, 1], st_legs := Some half_hour_leg, st_overflow := overflow\<rparr>"

lemma routed_state_fields [simp]:
  "places_of (routed_state ov) = two_places" "order_of (routed_state ov) = [0, 1]"
  "legs_of (routed_state ov) = half_hour_leg" "st_tl_status (routed_state ov) = None"
  "st_overflow (routed_state ov) = ov" "st_error (routed_state ov) = None"
  "st_request (routed_state ov) = march_request 1" "st_timeline (routed_state ov) = []"
  "\<not> has_error (routed_state ov)"
  by (simp_all add: routed_state_def places_of_def order_of_def legs_of_def start_state_def has_error_def)

lemma offline_timeline [simp]:
  "cf_timeline (en_settings offline_env)" "en_dwell offline_env ps = Inl HttpRequestError"
  by (simp_all add: offline_env_def default_settings_def)

theorem build_timeline_adds_witness:
  "\<exists>s'. build_timeline offline_env (routed_state []) = Inr s' \<and> st_error s' = None
     \<and> st_places s' = st_places (routed_state [])"
proof -
  obtain s' where run: "build_timeline offline_env (routed_state []) = Inr s'"
    by (simp add: build_timeline_def Let_def two_places_def is_http_error_def)
  from build_timeline_adds [OF run] have "st_error s' = None \<and> st_places s' = st_places (routed_state [])"
    using two_places_ok by simp
  with run show ?thesis by blast
qed

lemma fit_time_budget_ok:
  assumes "\<not> has_error s" and "route_ok (places_of s) (order_of s) (legs_of s)"
    and "st_overflow s \<noteq> []" and "set (st_overflow s) \<subseteq> pl_day ` set (places_of s)"
    and "cf_timeline (en_settings E)"
  shows "\<exists>s'. fit_time_budget E s = Inr s'
    \<and> (user_fixed s \<longrightarrow> has_error s' \<and> places_of s' = places_of s)
    \<and> (\<not> user_fixed s \<longrightarrow> (\<exists>D stay.
         places_of s' = filter (\<lambda>p. pl_id p \<notin> D) (places_of s) \<and> order_of s' = remaining D (order_of s)
         \<and> route_ok (places_of s') (order_of s') (legs_of s') \<and> kept s (order_of s) D
         \<and> shortened (\<lambda>i. case map_of (st_timeline s) i of None \<Rightarrow> 0 | Some sl \<Rightarrow> sl_stay sl) stay
         \<and> (let vs = planned E (st_request s) (places_of s') (order_of s') (legs_of s') stay
            in if over_days (st_request s) vs \<noteq> {}
               then has_error s' \<and> set (st_overflow s') = over_days (st_request s) vs
               else \<not> has_error s' \<and> st_overflow s' = [] \<and> st_tl_status s' = Some Trimmed
                 \<and> st_timeline s' = with_sources (old_source (st_timeline s)) (map (time_texts stay) vs))))"
proof (cases "user_fixed s")
  case True
  with assms show ?thesis by (simp add: fit_time_budget_def places_of_def)
next
  case False
  let ?order = "order_of s" and ?stay0 = "\<lambda>i. case map_of (st_timeline s) i of None \<Rightarrow> 0 | Some sl \<Rightarrow> sl_stay sl"
  note o = route_ok_order [OF assms(2)]
  have "kept s ?order {}" by (simp add: kept_def)
  moreover have "\<forall>d \<in> set (st_overflow s). day_ids s ?order d {} \<noteq> []"
  proof
    fix d assume "d \<in> set (st_overflow s)"
    with assms(4) obtain p where p: "p \<in> set (places_of s)" "pl_day p = d" by auto
    have "by_id (places_of s) (pl_id p) = Some p"
      using assms(2) p by (intro by_id_Some) (simp_all add: route_ok_def)
    moreover have "pl_id p \<in> set ?order" using p o(2) by simp
    ultimately show "day_ids s ?order d {} \<noteq> []" using p by (force simp: day_ids_def filter_empty_conv)
  qed
  ultimately obtain stay D where fit: "fit_days E s ?order (st_overflow s) (?stay0, {}) = Inr (stay, D)"
    and k: "kept s ?order D" "shortened ?stay0 stay"
    using fit_days_kept [of s ?order "{}" "st_overflow s" E ?stay0] o(1) by blast
  define s1 where "s1 = drop_places D ?order s"
  define ps legs where "ps = filter (\<lambda>p. pl_id p \<notin> D) (places_of s)" and "legs = legs_of s1"
  have s1: "places_of s1 = ps \<and> order_of s1 = remaining D ?order \<and> route_ok ps (remaining D ?order) legs
      \<and> st_request s1 = st_request s \<and> st_error s1 = st_error s"
    using assms(2) route_ok_drop [OF assms(2), of D "st_request s"]
    by (auto simp: s1_def ps_def legs_def drop_places_def places_of_def order_of_def legs_of_def
        Let_def remaining_def)
  have same: "rebuild_legs (st_request s1) (places_of s1) (legs_of s1) (remaining D ?order) = legs"
    unfolding legs_def [symmetric] using s1 route_ok_order(1) [of ps]
    by (intro rebuild_legs_same) (auto simp: route_ok_def)
  let ?vs = "planned E (st_request s) ps (remaining D ?order) legs stay"
  have "distinct (remaining D ?order)" using o(1) by (simp add: remaining_def)
  then obtain ov where "plan_timeline E (st_request s) ps (remaining D ?order) legs stay
      = (map (time_texts stay) ?vs, ov)" and ov: "set ov = over_days (st_request s) ?vs"
    by (rule plan_timeline_planned)
  then have plan: "plan_timeline_with E s1 stay (remaining D ?order) D = (map (time_texts stay) ?vs, ov)"
    using s1 same by (simp add: plan_timeline_with_def Let_def remaining_def ps_def)
  let ?f = "fail_with ''verified places exceed the activity time budget'' ''invalid_request''
     (s1\<lparr>st_tl_status := Some Unverified, st_overflow := ov\<rparr>)"
  let ?g = "add_warning warn_trimmed (s1\<lparr>st_timeline := with_sources (old_source (st_timeline s))
     (map (time_texts stay) ?vs), st_tl_status := Some Trimmed, st_overflow := []\<rparr>)"
  have run: "fit_time_budget E s = Inr (if ov \<noteq> [] then ?f else ?g)"
    using assms(1,3,5) False by (simp add: fit_time_budget_def Let_def fit plan flip: s1_def)
  have "\<exists>s'. fit_time_budget E s = Inr s' \<and> places_of s' = ps \<and> order_of s' = remaining D ?order
      \<and> legs_of s' = legs \<and> (if ov \<noteq> [] then has_error s' \<and> st_overflow s' = ov
         else \<not> has_error s' \<and> st_overflow s' = [] \<and> st_tl_status s' = Some Trimmed
           \<and> st_timeline s' = with_sources (old_source (st_timeline s)) (map (time_texts stay) ?vs))"
    unfolding run using s1 assms(1)
    by (simp add: places_of_def order_of_def legs_of_def legs_def fail_with_def add_warning_def
        has_error_def lit_def)
  then obtain s' where s': "fit_time_budget E s = Inr s'" "places_of s' = ps"
    "order_of s' = remaining D ?order" "legs_of s' = legs"
    "if ov \<noteq> [] then has_error s' \<and> st_overflow s' = ov
     else \<not> has_error s' \<and> st_overflow s' = [] \<and> st_tl_status s' = Some Trimmed
       \<and> st_timeline s' = with_sources (old_source (st_timeline s)) (map (time_texts stay) ?vs)" by blast
  moreover have "(over_days (st_request s) ?vs \<noteq> {}) = (ov \<noteq> [])" using ov by auto
  ultimately have "places_of s' = ps \<and> order_of s' = remaining D ?order
     \<and> route_ok (places_of s') (order_of s') (legs_of s') \<and> kept s ?order D \<and> shortened ?stay0 stay
     \<and> (let vs = planned E (st_request s) (places_of s') (order_of s') (legs_of s') stay
        in if over_days (st_request s) vs \<noteq> {}
           then has_error s' \<and> set (st_overflow s') = over_days (st_request s) vs
           else \<not> has_error s' \<and> st_overflow s' = [] \<and> st_tl_status s' = Some Trimmed
             \<and> st_timeline s' = with_sources (old_source (st_timeline s)) (map (time_texts stay) vs))"
    using s1 k ov by (simp add: Let_def split: if_splits)
  with s'(1) False show ?thesis unfolding ps_def by blast
qed

text \<open>
  C13: Shortening the days that run over: the node never raises. Places the user chose are never
  removed: such a request fails as it is. Otherwise only places the user did not pin are removed,
  at least two (or all there are) stay on every day, a stay is kept or cut to ten minutes, and
  places, order and legs still belong together. The job then either fails because visits still end
  too late, or goes on with a timeline that is the plan for the places left, none of them ending
  after the end time.
\<close>

theorem fit_time_budget_correct:
  assumes "\<not> has_error s" and "route_ok (places_of s) (order_of s) (legs_of s)"
    and "st_overflow s \<noteq> []" and "set (st_overflow s) \<subseteq> pl_day ` set (places_of s)"
    and "cf_timeline (en_settings E)"
  shows "\<exists>s'. fit_time_budget E s = Inr s'
    \<and> (user_fixed s \<longrightarrow> has_error s' \<and> places_of s' = places_of s)
    \<and> (\<not> user_fixed s \<longrightarrow> (\<exists>D stay.
         places_of s' = filter (\<lambda>p. pl_id p \<notin> D) (places_of s) \<and> order_of s' = remaining D (order_of s)
         \<and> route_ok (places_of s') (order_of s') (legs_of s') \<and> kept s (order_of s) D
         \<and> shortened (\<lambda>i. case map_of (st_timeline s) i of None \<Rightarrow> 0 | Some sl \<Rightarrow> sl_stay sl) stay
         \<and> (let vs = planned E (st_request s) (places_of s') (order_of s') (legs_of s') stay
            in if over_days (st_request s) vs \<noteq> {}
               then has_error s' \<and> set (st_overflow s') = over_days (st_request s) vs
               else \<not> has_error s' \<and> st_overflow s' = [] \<and> st_tl_status s' = Some Trimmed
                 \<and> st_timeline s' = with_sources (old_source (st_timeline s)) (map (time_texts stay) vs))))"
  using assms by (rule fit_time_budget_ok)

theorem fit_time_budget_correct_witness:
  "\<exists>s' D. fit_time_budget offline_env (routed_state [1]) = Inr s' \<and> order_of s' = remaining D [0, 1]
     \<and> route_ok (places_of s') (order_of s') (legs_of s') \<and> kept (routed_state [1]) [0, 1] D"
proof -
  have "pl_day ` set two_places = {1}" by (auto simp: two_places_def)
  moreover have "\<not> user_fixed (routed_state [1])" by (simp add: user_fixed_def march_request_def)
  ultimately show ?thesis
    using fit_time_budget_correct [of "routed_state [1]" offline_env] two_places_ok by auto
qed

end
