(* ===== verification/Selection.thy ===== *)
theory Selection
  imports Scoring Route
begin

text \<open>
  Choosing the places (app/nodes/agent_nodes.py): a candidate becomes a \<open>Place\<close> only when a verified
  source names it, places the user picked are checked against their source, the model chooses
  among candidates by index, and the user's places and the new ones are merged into one itinerary.
\<close>

section \<open>From a candidate to a place\<close>

text \<open>
  \<open>(v or "")[:n]\<close>. A list can be sliced too, which gives a value that is no text (\<open>None\<close>) and that
  \<open>Place\<close> rejects once all its arguments are computed.
\<close>

definition cut_text :: "nat \<Rightarrow> pyval \<Rightarrow> pyexn + pystr option" where
  "cut_text n v =
     (if \<not> truthy v then Inr (Some [])
      else case v of PStr s \<Rightarrow> Inr (Some (take n s)) | PList _ \<Rightarrow> Inr None | _ \<Rightarrow> Inl TypeError)"

definition need :: "pyexn \<Rightarrow> 'a option \<Rightarrow> pyexn + 'a" where
  "need e v = (case v of None \<Rightarrow> Inl e | Some x \<Rightarrow> Inr x)"

text \<open>\<open>float(c[k])\<close>.\<close>

definition float_field :: "env \<Rightarrow> pydict \<Rightarrow> string \<Rightarrow> pyexn + pyfloat" where
  "float_field E c k = bindE (need KeyError (map_of c (lit k))) (py_float (en_pf E))"

definition known_sources :: "pystr set" where
  "known_sources = {lit ''kakao'', lit ''durunubi''}"

text \<open>\<open>c.get("source") not in {"kakao", "durunubi"}\<close>.\<close>

definition source_known :: "pydict \<Rightarrow> pyexn + bool" where
  "source_known c =
     bindE (hash_key (dget c ''source''))
       (\<lambda>k. Inr (case k of PStr s \<Rightarrow> s \<in> known_sources | _ \<Rightarrow> False))"

text \<open>The checks and coercions that \<open>Place(...)\<close> makes.\<close>

definition checked_place :: "place \<Rightarrow> pyexn + place" where
  "checked_place p = (if valid_place p then Inr p else Inl ValidationError)"

definition opt_str_of :: "pydict \<Rightarrow> string \<Rightarrow> pyexn + pystr option" where
  "opt_str_of c k = need ValidationError (opt_str_field (dget c k))"

definition place_fields ::
    "env \<Rightarrow> int \<Rightarrow> pydict \<Rightarrow> pystr \<Rightarrow> int \<Rightarrow> pyexn + place" where
  "place_fields E pid c visit_time day =
     bindE (cut_text 80 (dget c ''name'')) (\<lambda>namef.
     bindE (cut_text 200 (dget c ''address'')) (\<lambda>addressf.
     bindE (float_field E c ''lat'') (\<lambda>latf.
     bindE (float_field E c ''lng'') (\<lambda>lngf.
     bindE (need ValidationError namef) (\<lambda>name.
     bindE (need ValidationError addressf) (\<lambda>address.
     bindE (need ValidationError (bounded_float 33 43 latf)) (\<lambda>lat.
     bindE (need ValidationError (bounded_float 124 132 lngf)) (\<lambda>lng.
     bindE (opt_str_of c ''content_id'') (\<lambda>cid.
     bindE (opt_str_of c ''source'') (\<lambda>source.
     bindE (need ValidationError (opt_str_field (neutralize_tags (dget c ''category'')))) (\<lambda>cat.
     bindE (opt_str_of c ''category_group_code'') (\<lambda>code.
     bindE (opt_str_of c ''phone'') (\<lambda>phone.
     bindE (opt_str_of c ''place_url'') (\<lambda>url.
     bindE (need ValidationError (opt_float_field (en_pd E) (dget c ''crs_dstnc_km''))) (\<lambda>km.
     bindE (need ValidationError (opt_int_field (en_pd E) (dget c ''crs_total_min''))) (\<lambda>mins.
     bindE (need ValidationError (opt_int_field (en_pd E) (dget c ''crs_level''))) (\<lambda>level.
     bindE (opt_str_of c ''brd_div'') (\<lambda>brd.
     bindE (opt_str_of c ''gpx_url'') (\<lambda>gpx.
     bindE (opt_str_of c ''route_idx'') (\<lambda>route.
       checked_place
         \<lparr>pl_id = pid, pl_day = day, pl_name = name, pl_address = address, pl_lat = lat,
          pl_lng = lng, pl_visit_time = neutralize_text visit_time, pl_content_id = cid,
          pl_source = source, pl_category = cat, pl_group_code = code, pl_phone = phone,
          pl_place_url = url, pl_crs_km = km, pl_crs_min = mins, pl_crs_level = level,
          pl_brd_div = brd, pl_gpx_url = gpx, pl_route_idx = route, pl_grounded = True,
          pl_stay_minutes = None, pl_visit_start = None, pl_visit_end = None,
          pl_stay_source = None, pl_reason = None, pl_bullets = None\<rparr>))))))))))))))))))))"

definition place_from_candidate ::
    "env \<Rightarrow> int \<Rightarrow> pydict \<Rightarrow> pystr \<Rightarrow> int \<Rightarrow> pyexn + place" where
  "place_from_candidate E pid c visit_time day =
     (case dget c ''content_id'' of
        PStr cid \<Rightarrow>
          if strip cid = [] then Inl ValueError
          else bindE (source_known c) (\<lambda>known.
                 if \<not> known \<or> contains_text (lit ''stub'') (ascii_lower cid) then Inl ValueError
                 else place_fields E pid c visit_time day)
      | _ \<Rightarrow> Inl ValueError)"

text \<open>\<open>except (ValidationError, KeyError, TypeError, ValueError, AttributeError)\<close>.\<close>

definition skips_candidate :: "pyexn \<Rightarrow> bool" where
  "skips_candidate e \<longleftrightarrow> is_value_error e \<or> e = KeyError \<or> e = TypeError \<or> e = AttributeError"

section \<open>Places the user picked\<close>

definition same_place :: "selected_place \<Rightarrow> place \<Rightarrow> bool" where
  "same_place given p \<longleftrightarrow>
     (case sp_content_id given of
        Some cid \<Rightarrow> if cid \<noteq> [] then pl_content_id p = Some cid
                    else strip (sp_name given) = strip (pl_name p)
                         \<and> straight_km (sp_lat given) (sp_lng given) (pl_lat p) (pl_lng p) \<le> 1 / 10
      | None \<Rightarrow> strip (sp_name given) = strip (pl_name p)
                \<and> straight_km (sp_lat given) (sp_lng given) (pl_lat p) (pl_lng p) \<le> 1 / 10)"

fun find_match :: "env \<Rightarrow> selected_place \<Rightarrow> nat \<Rightarrow> pyval list \<Rightarrow> pyexn + place option" where
  "find_match E given n [] = Inr None"
| "find_match E given n (PDict c # cs) =
     (case place_from_candidate E (int n) c [] (sp_day given) of
        Inl e \<Rightarrow> if skips_candidate e then find_match E given n cs else Inl e
      | Inr p \<Rightarrow> if same_place given p then Inr (Some p) else find_match E given n cs)"
| "find_match E given n (_ # cs) = find_match E given n cs"

text \<open>\<open>response.get("places") or []\<close>: a response that is no dictionary has no \<open>get\<close>.\<close>

definition get_iter :: "string \<Rightarrow> pyval \<Rightarrow> pyexn + pyval list" where
  "get_iter key resp =
     (case resp of PDict d \<Rightarrow> iter_or_empty (dget d key) | _ \<Rightarrow> Inl AttributeError)"

definition keyword_max :: nat where
  "keyword_max = 40"

fun verify_loop ::
    "env \<Rightarrow> request \<Rightarrow> selected_place list \<Rightarrow> place list \<Rightarrow> pyexn + place list option" where
  "verify_loop E r [] verified = Inr (Some verified)"
| "verify_loop E r (given # rest) verified =
     bindE (en_search E (rq_province r) (rq_city r) None
              (Some (take keyword_max (sp_name given))) default_size) (\<lambda>resp.
     bindE (get_iter ''places'' resp) (\<lambda>cs.
     bindE (find_match E given (length verified) cs) (\<lambda>match.
       (case match of
          None \<Rightarrow> Inr None
        | Some p \<Rightarrow> verify_loop E r rest (verified @ [p])))))"

definition verify_caught :: "pyexn \<Rightarrow> bool" where
  "verify_caught e \<longleftrightarrow> is_http_error e \<or> is_value_error e \<or> is_runtime_error e
     \<or> e = TypeError \<or> e = AttributeError"

definition verify_selected_places ::
    "env \<Rightarrow> agent_state \<Rightarrow> selected_place list \<Rightarrow> pyexn + place list \<times> agent_state" where
  "verify_selected_places E s selected =
     (case verify_loop E (st_request s) selected [] of
        Inl e \<Rightarrow> if verify_caught e then Inr ([], update_failure (exception_failure e) s) else Inl e
      | Inr None \<Rightarrow>
          Inr ([], fail_with ''selected place could not be verified with its source''
                     ''invalid_request'' s)
      | Inr (Some ps) \<Rightarrow> Inr (ps, s))"

definition load_given_places :: node where
  "load_given_places E s =
     (if has_error s then Inr s
      else
        (let selected = given_places (st_request s)
         in if selected = []
            then Inr (fail_with ''stage=route requires places'' ''invalid_request'' s)
            else
              bindE (verify_selected_places E (s\<lparr>st_path := Some (lit ''route'')\<rparr>) selected)
                (\<lambda>(ps, s'). Inr (s'\<lparr>st_places := Some ps, st_grounded := \<not> has_error s'\<rparr>))))"

definition place_of_selected :: "nat \<times> selected_place \<Rightarrow> pyexn + place" where
  "place_of_selected ip =
     (let p = snd ip
      in checked_place
        \<lparr>pl_id = int (fst ip), pl_day = sp_day p, pl_name = sp_name p, pl_address = sp_address p,
         pl_lat = sp_lat p, pl_lng = sp_lng p, pl_visit_time = [], pl_content_id = sp_content_id p,
         pl_source = None, pl_category = sp_category p, pl_group_code = None, pl_phone = None,
         pl_place_url = None, pl_crs_km = None, pl_crs_min = None, pl_crs_level = None,
         pl_brd_div = None, pl_gpx_url = None, pl_route_idx = None, pl_grounded = False,
         pl_stay_minutes = None, pl_visit_start = None, pl_visit_end = None,
         pl_stay_source = None, pl_reason = None, pl_bullets = None\<rparr>)"

definition places_from_selected :: "selected_place list \<Rightarrow> pyexn + place list" where
  "places_from_selected selected = mapE place_of_selected (enumerate 0 selected)"

definition pinned_places :: "agent_state \<Rightarrow> pyexn + place list" where
  "pinned_places s =
     (let r = st_request s
      in if rq_stage r \<noteq> StageMode1 \<or> given_places r = [] then Inr []
         else places_from_selected (given_places r))"

section \<open>Merging\<close>

definition pinned_on :: "place list \<Rightarrow> int \<Rightarrow> int" where
  "pinned_on pinned day = int (length (filter (\<lambda>p. pl_day p = day) pinned))"

definition reduce_day :: "place list \<Rightarrow> plan_day \<Rightarrow> plan_day" where
  "reduce_day pinned d = d\<lparr>pn_target := max 0 (pn_target d - pinned_on pinned (pn_day d))\<rparr>"

text \<open>Whether places are left to choose, and the plan with the user's places taken off.\<close>

definition remaining_targets :: "plan option \<Rightarrow> place list \<Rightarrow> bool \<times> plan option" where
  "remaining_targets plan pinned =
     (case plan of
        None \<Rightarrow> (True, None)
      | Some pl \<Rightarrow>
          if pn_days pl = [] then (True, Some pl)
          else (let days = map (reduce_day pinned) (pn_days pl)
                in (0 < sum_list (map pn_target days), Some (pl\<lparr>pn_days := days\<rparr>))))"

definition has_id :: "place \<Rightarrow> bool" where
  "has_id p \<longleftrightarrow> pl_content_id p \<noteq> None \<and> pl_content_id p \<noteq> Some []"

definition renumber :: "place list \<Rightarrow> place list" where
  "renumber ps = map (\<lambda>ip. (snd ip)\<lparr>pl_id := int (fst ip)\<rparr>) (enumerate 0 ps)"

definition merge_pinned :: "place list \<Rightarrow> place list \<Rightarrow> place list" where
  "merge_pinned pinned fresh =
     (let ids = pl_content_id ` set (filter has_id pinned)
      in renumber (sort_key pl_day
           (pinned @ filter (\<lambda>p. \<not> (has_id p \<and> pl_content_id p \<in> ids)) fresh)))"

section \<open>Reviews\<close>

definition snippet_of :: "pydict \<Rightarrow> pystr option" where
  "snippet_of r = nonempty_str (dget r ''description'')"

definition snippets_from_response :: "pyval \<Rightarrow> nat \<Rightarrow> pyexn + pystr list" where
  "snippets_from_response resp keep =
     bindE (response_dicts ''reviews'' resp) (\<lambda>rs. Inr (take keep (List.map_filter snippet_of rs)))"

definition review_query_max :: nat where
  "review_query_max = 60"

definition review_query :: "env \<Rightarrow> request \<Rightarrow> pyval \<Rightarrow> pystr" where
  "review_query E r name =
     (let region = (if rq_city r \<noteq> [] then rq_city r else rq_province r)
      in take review_query_max
           (if region \<noteq> [] then strip (region @ [32] @ py_str E name) else py_str E name))"

definition reviews_budget_left :: "env \<Rightarrow> agent_state \<Rightarrow> int" where
  "reviews_budget_left E s = max 0 (cf_reviews_cap (en_settings E) - int (st_reviews_used s))"

text \<open>
  The loop over the candidates; \<open>attempted\<close> counts the calls made. A failing call skips the
  candidate; what the loop does with the response is outside the handler.
\<close>

fun fetch_loop ::
    "env \<Rightarrow> request \<Rightarrow> int \<Rightarrow> pydict list \<Rightarrow> nat \<Rightarrow> nat \<Rightarrow> (pyval \<times> pystr list) list
     \<Rightarrow> pyexn + (pyval \<times> pystr list) list \<times> nat" where
  "fetch_loop E r limit [] attempted used reviews = Inr (reviews, used)"
| "fetch_loop E r limit (c # cs) attempted used reviews =
     (if limit \<le> int attempted then Inr (reviews, used)
      else if \<not> truthy (dget c ''content_id'') \<or> \<not> truthy (dget c ''name'')
      then fetch_loop E r limit cs attempted used reviews
      else
        (case en_reviews E used (review_query E r (dget c ''name''))
               (cf_reviews_display (en_settings E)) of
           Inl e \<Rightarrow>
             if is_exception e
             then fetch_loop E r limit cs (Suc attempted) (Suc used) reviews
             else Inl e
         | Inr resp \<Rightarrow>
             bindE (snippets_from_response resp (cf_reviews_display (en_settings E))) (\<lambda>snippets.
               if snippets = []
               then fetch_loop E r limit cs (Suc attempted) (Suc used) reviews
               else bindE (hash_key (dget c ''content_id'')) (\<lambda>k.
                      fetch_loop E r limit cs (Suc attempted) (Suc used)
                        (AList.update k snippets reviews)))))"

definition fetch_reviews_for ::
    "env \<Rightarrow> agent_state \<Rightarrow> pydict list \<Rightarrow> pyexn + (pyval \<times> pystr list) list \<times> agent_state" where
  "fetch_reviews_for E s candidates =
     bindE (fetch_loop E (st_request s)
              (min (cf_reviews_max_places (en_settings E)) (reviews_budget_left E s))
              candidates 0 (st_reviews_used s) [])
       (\<lambda>(reviews, used). Inr (reviews, s\<lparr>st_reviews_used := used\<rparr>))"

section \<open>Selection by the model\<close>

text \<open>The usable selections, each index once, then ordered by day.\<close>

fun pick_selections :: "int \<Rightarrow> nat \<Rightarrow> int set \<Rightarrow> place_selection list \<Rightarrow> place_selection list" where
  "pick_selections days n seen [] = []"
| "pick_selections days n seen (s # ss) =
     (if \<not> (1 \<le> sel_day s \<and> sel_day s \<le> days) then pick_selections days n seen ss
      else if 0 \<le> sel_index s \<and> sel_index s < int n \<and> sel_index s \<notin> seen
      then s # pick_selections days n (insert (sel_index s) seen) ss
      else pick_selections days n seen ss)"

text \<open>A candidate that cannot become a place is left out.\<close>

fun build_places ::
    "env \<Rightarrow> pydict list \<Rightarrow> place_selection list \<Rightarrow> place list \<Rightarrow> pyexn + place list" where
  "build_places E candidates [] places = Inr places"
| "build_places E candidates (s # ss) places =
     (case place_from_candidate E (int (length places)) (candidates ! nat (sel_index s))
             (sel_visit_time s) (sel_day s) of
        Inl e \<Rightarrow> if skips_candidate e then build_places E candidates ss places else Inl e
      | Inr p \<Rightarrow> build_places E candidates ss (places @ [p]))"

definition gather_reviews ::
    "env \<Rightarrow> agent_state \<Rightarrow> pydict list \<Rightarrow> pyexn + (pyval \<times> pystr list) list \<times> agent_state" where
  "gather_reviews E s candidates =
     (if cf_reviews_enrich (en_settings E) \<and> st_grounded s
      then bindE (fetch_reviews_for E s candidates) (\<lambda>(reviews, s1).
             Inr (reviews, if reviews = [] then s1 else s1\<lparr>st_reviews := reviews\<rparr>))
      else Inr ([], s))"

definition select_places :: "env \<Rightarrow> agent_state \<Rightarrow> pydict list \<Rightarrow> pyexn + agent_state" where
  "select_places E s candidates =
     bindE (gather_reviews E s candidates) (\<lambda>(reviews, s1).
     bindE (build_selection_prompt E (st_request s1) (weather_value (st_weather s1)) candidates
              reviews (st_plan s1)) (\<lambda>(system, prompt).
       (case call_structured E (parse_body E parse_places_selection) system prompt
               (cf_max_calls (en_settings E)) s1 of
          (Inl e, s2) \<Rightarrow>
            if is_exception e then Inr (update_failure (exception_failure e) s2) else Inl e
        | (Inr selections, s2) \<Rightarrow>
            (let chosen = sort_key sel_day (pick_selections (num_days (st_request s2)) (length candidates) {}
                             selections)
             in bindE (build_places E candidates chosen []) (\<lambda>places.
                  if places = []
                  then Inr (fail_with ''insufficient verified places: selection returned empty''
                              ''selection_invalid'' s2)
                  else Inr (s2\<lparr>st_places := Some places\<rparr>))))))"

section \<open>The node\<close>

definition days_covered :: "int \<Rightarrow> place list \<Rightarrow> bool" where
  "days_covered n ps \<longleftrightarrow>
     2 \<le> length ps \<and> list_all (\<lambda>day. \<exists>p \<in> set ps. pl_day p = day) [1..n]"

text \<open>Selection, the merge with the user's places and the final check.\<close>

definition finish_places :: "place list \<Rightarrow> agent_state \<Rightarrow> agent_state" where
  "finish_places pinned s =
     (let s = (if pinned \<noteq> [] \<and> \<not> has_error s
               then s\<lparr>st_places := Some (merge_pinned pinned (places_of s))\<rparr> else s)
      in if has_error s then s
         else if days_covered (num_days (st_request s)) (places_of s) then s
         else fail_with ''insufficient verified places for the requested days''
                ''selection_invalid'' s)"

definition choose_new_places :: "env \<Rightarrow> place list \<Rightarrow> agent_state \<Rightarrow> pyexn + agent_state" where
  "choose_new_places E pinned s =
     bindE (if st_candidates s \<noteq> []
            then bindE (cap_candidates (st_candidates s) (candidate_limit E (st_request s)))
                   (\<lambda>cs. select_places E (s\<lparr>st_candidates := cs, st_path := Some (lit ''select'')\<rparr>) cs)
            else Inr (fail_with ''insufficient verified places: no search candidates''
                        ''no_matching_places'' s))
       (\<lambda>s'. Inr (finish_places pinned s'))"

definition recommend_places :: node where
  "recommend_places E s =
     (if has_error s then Inr s
      else
        bindE (pinned_places s) (\<lambda>pinned0.
        bindE (if pinned0 = [] then Inr ([], s)
               else verify_selected_places E s (given_places (st_request s))) (\<lambda>(pinned, s1).
          if has_error s1 then Inr s1
          else
            (let s2 = s1\<lparr>st_pinned := Some (map (the \<circ> pl_content_id) (filter has_id pinned))\<rparr>;
                 (left, plan) = remaining_targets (st_plan s2) pinned;
                 s3 = (if pinned = [] then s2 else s2\<lparr>st_plan := plan\<rparr>)
             in if pinned \<noteq> [] \<and> \<not> left then Inr (s3\<lparr>st_places := Some pinned\<rparr>)
                else choose_new_places E pinned s3))))"

section \<open>Lemmas\<close>

text \<open>A place that a verified source names.\<close>

definition sourced :: "place \<Rightarrow> bool" where
  "sourced p \<longleftrightarrow> valid_place p \<and> pl_grounded p \<and> pl_source p \<in> Some ` known_sources
     \<and> (\<exists>cid. pl_content_id p = Some cid \<and> strip cid \<noteq> []
          \<and> \<not> contains_text (lit ''stub'') (ascii_lower cid))"

lemma need_Inr [simp]: "need e v = Inr x \<longleftrightarrow> v = Some x"
  by (simp add: need_def split: option.splits)

lemma checked_place_Inr [simp]: "checked_place p = Inr q \<longleftrightarrow> q = p \<and> valid_place p"
  by (auto simp: checked_place_def)

lemma opt_str_field_Some: "opt_str_field v = Some x \<Longrightarrow> v = opt_text x"
  by (cases v) (auto simp: opt_text_def)

lemma place_fields_props:
  "place_fields E pid c t day = Inr p
   \<Longrightarrow> valid_place p \<and> pl_id p = pid \<and> pl_day p = day \<and> pl_grounded p
      \<and> opt_text (pl_content_id p) = dget c ''content_id'' \<and> opt_text (pl_source p) = dget c ''source''"
  unfolding place_fields_def opt_str_of_def
  by (auto simp: bindE_Inr_iff dest!: opt_str_field_Some)

lemma opt_text_eq_PStr [simp]: "opt_text v = PStr s \<longleftrightarrow> v = Some s"
  by (auto simp: opt_text_def split: option.splits)

lemma place_from_candidate_props:
  assumes "place_from_candidate E pid c t day = Inr p"
  shows "sourced p \<and> pl_id p = pid \<and> pl_day p = day"
proof -
  obtain cid where cid: "dget c ''content_id'' = PStr cid"
    using assms by (auto simp: place_from_candidate_def split: pyval.splits)
  with assms have cid': "strip cid \<noteq> []" "\<not> contains_text (lit ''stub'') (ascii_lower cid)"
    and known: "source_known c = Inr True" and fields: "place_fields E pid c t day = Inr p"
    by (auto simp: place_from_candidate_def bindE_Inr_iff split: if_split_asm)
  from known obtain src where "dget c ''source'' = PStr src" "src \<in> known_sources"
    by (cases "dget c ''source''" rule: hash_key.cases)
       (auto simp: source_known_def bindE_Inr_iff split: pyval.splits if_splits)
  with place_fields_props [OF fields] cid cid' show ?thesis
    by (auto simp: sourced_def)
qed

lemma find_match_props:
  "find_match E given n cs = Inr (Some p)
   \<Longrightarrow> sourced p \<and> same_place given p \<and> pl_id p = int n \<and> pl_day p = sp_day given"
  by (induction E given n cs rule: find_match.induct)
     (auto dest: place_from_candidate_props split: sum.splits if_splits)

lemma verify_loop_props:
  "verify_loop E r selected verified = Inr (Some ps)
   \<Longrightarrow> \<exists>new. ps = verified @ new
        \<and> list_all2 (\<lambda>g p. same_place g p \<and> sourced p \<and> pl_day p = sp_day g) selected new
        \<and> map pl_id new = map (\<lambda>i. int (length verified + i)) [0..<length new]"
proof (induction E r selected verified rule: verify_loop.induct)
  case (2 E r given rest verified)
  then obtain resp cs p where run:
    "en_search E (rq_province r) (rq_city r) None (Some (take keyword_max (sp_name given))) default_size = Inr resp"
    "get_iter ''places'' resp = Inr cs" "find_match E given (length verified) cs = Inr (Some p)"
    "verify_loop E r rest (verified @ [p]) = Inr (Some ps)"
    by (auto simp: bindE_Inr_iff split: option.splits)
  from 2(1) [OF run(4)] obtain new where "ps = (verified @ [p]) @ new"
    "list_all2 (\<lambda>g p. same_place g p \<and> sourced p \<and> pl_day p = sp_day g) rest new"
    "map pl_id new = map (\<lambda>i. int (length (verified @ [p]) + i)) [0..<length new]" by blast
  moreover have "map (\<lambda>i. int (length verified + i)) [0..<Suc (length new)]
      = int (length verified) # map (\<lambda>i. int (length (verified @ [p]) + i)) [0..<length new]"
    by (simp add: upt_conv_Cons map_Suc_upt [symmetric] del: upt_Suc)
  ultimately show ?case using find_match_props [OF run(3)]
    by (intro exI [of _ "p # new"]) simp
qed simp

lemma verify_selected_props:
  assumes "verify_selected_places E s selected = Inr (ps, s')"
  shows "st_job s' = st_job s \<and> st_request s' = st_request s \<and> st_llm_used s' = st_llm_used s
    \<and> st_plan s' = st_plan s \<and> st_candidates s' = st_candidates s"
    and "has_error s' \<and> ps = [] \<or> s' = s
      \<and> list_all2 (\<lambda>g p. same_place g p \<and> sourced p \<and> pl_day p = sp_day g) selected ps
      \<and> map pl_id ps = map int [0..<length ps]"
proof -
  have "s' = s \<and> verify_loop E (st_request s) selected [] = Inr (Some ps)
      \<or> ps = [] \<and> (\<exists>e. s' = update_failure (exception_failure e) s)
      \<or> ps = [] \<and> (\<exists>m. m \<noteq> [] \<and> s' = fail_with m ''invalid_request'' s)"
    using assms by (auto simp: verify_selected_places_def split: sum.splits if_splits option.splits)
  then show "st_job s' = st_job s \<and> st_request s' = st_request s \<and> st_llm_used s' = st_llm_used s
    \<and> st_plan s' = st_plan s \<and> st_candidates s' = st_candidates s"
    "has_error s' \<and> ps = [] \<or> s' = s
      \<and> list_all2 (\<lambda>g p. same_place g p \<and> sourced p \<and> pl_day p = sp_day g) selected ps
      \<and> map pl_id ps = map int [0..<length ps]"
    using verify_loop_props [of E "st_request s" selected "[]" ps]
    by (auto simp: update_failure_def fail_with_def has_error_def exception_failure_nonempty)
qed

lemma pick_selections_props:
  "s \<in> set (pick_selections n m seen ss) \<Longrightarrow> 1 \<le> sel_day s \<and> sel_day s \<le> n
     \<and> 0 \<le> sel_index s \<and> sel_index s < int m \<and> sel_index s \<notin> seen \<and> s \<in> set ss"
  by (induction n m seen ss rule: pick_selections.induct) (auto split: if_splits)

lemma pick_selections_distinct: "distinct (map sel_index (pick_selections n m seen ss))"
  by (induction n m seen ss rule: pick_selections.induct)
     (auto dest: pick_selections_props)

lemma build_places_props:
  "build_places E cs chosen places = Inr ps
   \<Longrightarrow> \<exists>new. ps = places @ new \<and> list_all sourced new
        \<and> map pl_id new = map (\<lambda>i. int (length places + i)) [0..<length new]
        \<and> subseq (map pl_day new) (map sel_day chosen)"
proof (induction E cs chosen places rule: build_places.induct)
  case (2 E cs s ss places)
  show ?case
  proof (cases "place_from_candidate E (int (length places)) (cs ! nat (sel_index s)) (sel_visit_time s) (sel_day s)")
    case (Inl e)
    with 2(3) have "build_places E cs ss places = Inr ps" "skips_candidate e"
      by (auto split: if_splits)
    with 2(1) [OF Inl] show ?thesis by (auto intro: list_emb_Cons)
  next
    case (Inr p)
    with 2(3) have "build_places E cs ss (places @ [p]) = Inr ps" by simp
    from 2(2) [OF Inr this] obtain new where "ps = (places @ [p]) @ new" "list_all sourced new"
      "map pl_id new = map (\<lambda>i. int (length (places @ [p]) + i)) [0..<length new]"
      "subseq (map pl_day new) (map sel_day ss)" by blast
    moreover have "map (\<lambda>i. int (length places + i)) [0..<Suc (length new)]
        = int (length places) # map (\<lambda>i. int (length (places @ [p]) + i)) [0..<length new]"
      by (simp add: upt_conv_Cons map_Suc_upt [symmetric] del: upt_Suc)
    ultimately show ?thesis using place_from_candidate_props [OF Inr]
      by (intro exI [of _ "p # new"]) simp
  qed
qed simp

lemma set_subseq: "subseq xs ys \<Longrightarrow> set xs \<subseteq> set ys"
  by (auto simp: subseq_conv_nths set_nths)

lemma sorted_subseq: "subseq xs ys \<Longrightarrow> sorted ys \<Longrightarrow> sorted xs"
  for xs ys :: "'a :: linorder list"
  by (auto simp: subseq_conv_nths intro: sorted_nths)

lemma fetch_loop_calls:
  "fetch_loop E r limit cs attempted used reviews = Inr (rs, used')
   \<Longrightarrow> used \<le> used' \<and> int used' \<le> int used + max 0 (limit - int attempted)"
proof (induction E r limit cs attempted used reviews rule: fetch_loop.induct)
  case (2 E r limit c cs attempted used reviews)
  show ?case
  proof (cases "limit \<le> int attempted")
    case True
    with 2(5) show ?thesis by simp
  next
    case False
    show ?thesis
    proof (cases "\<not> truthy (dget c ''content_id'') \<or> \<not> truthy (dget c ''name'')")
      case True
      with 2(1) 2(5) False show ?thesis by simp
    next
      case named: False
      let ?call = "en_reviews E used (review_query E r (dget c ''name'')) (cf_reviews_display (en_settings E))"
      from 2(5) False named have "\<exists>rs0. fetch_loop E r limit cs (Suc attempted) (Suc used) rs0 = Inr (rs, used')
          \<and> (fetch_loop E r limit cs (Suc attempted) (Suc used) rs0 = Inr (rs, used')
              \<longrightarrow> Suc used \<le> used' \<and> int used' \<le> int (Suc used) + max 0 (limit - int (Suc attempted)))"
      proof (cases ?call)
        case (Inl e)
        with 2(2) [OF False named Inl] 2(5) False named show ?thesis by (auto split: if_splits)
      next
        case (Inr resp)
        with 2(5) False named obtain sn where
          sn: "snippets_from_response resp (cf_reviews_display (en_settings E)) = Inr sn"
          by (auto simp: bindE_Inr_iff)
        show ?thesis
        proof (cases "sn = []")
          case True
          with 2(3) [OF False named Inr True] 2(5) Inr sn False named show ?thesis by auto
        next
          case ne: False
          with 2(5) Inr sn False named obtain k where "hash_key (dget c ''content_id'') = Inr k"
            "fetch_loop E r limit cs (Suc attempted) (Suc used) (AList.update k sn reviews) = Inr (rs, used')"
            by (auto simp: bindE_Inr_iff)
          with 2(4) [OF False named Inr ne] show ?thesis by blast
        qed
      qed
      then show ?thesis using False by auto
    qed
  qed
qed simp

lemma gather_reviews_frame:
  assumes "gather_reviews E s cs = Inr (reviews, s')"
  shows "\<exists>rs used. s' = s\<lparr>st_reviews := rs, st_reviews_used := used\<rparr>"
proof -
  have "\<exists>rs used. s = s\<lparr>st_reviews := rs, st_reviews_used := used\<rparr>"
    by (rule exI [of _ "st_reviews s"], rule exI [of _ "st_reviews_used s"]) simp
  moreover have "\<exists>rs used'. s\<lparr>st_reviews_used := used\<rparr> = s\<lparr>st_reviews := rs, st_reviews_used := used'\<rparr>" for used
    by (rule exI [of _ "st_reviews s"], rule exI [of _ used]) simp
  moreover have "\<exists>rs used'. s\<lparr>st_reviews_used := used, st_reviews := x\<rparr>
      = s\<lparr>st_reviews := rs, st_reviews_used := used'\<rparr>" for used x
    by (rule exI [of _ x], rule exI [of _ used]) simp
  ultimately show ?thesis
    using assms by (auto simp: gather_reviews_def fetch_reviews_for_def bindE_Inr_iff split: if_splits)
qed

text \<open>What the call of the model can end with.\<close>

lemma select_places_cases:
  assumes "select_places E s cs = Inr s'"
  obtains (failed) s2 f where "s' = update_failure (exception_failure f) s2"
      and "st_job s2 = st_job s" "st_request s2 = st_request s" "st_plan s2 = st_plan s"
      and "st_pinned s2 = st_pinned s"
      and "st_llm_used s \<le> st_llm_used s2"
      and "st_llm_used s2 \<le> max (cf_max_calls (en_settings E)) (st_llm_used s)"
  | (empty) s2 where "s' = fail_with ''insufficient verified places: selection returned empty''
        ''selection_invalid'' s2"
      and "st_job s2 = st_job s" "st_request s2 = st_request s" "st_plan s2 = st_plan s"
      and "st_pinned s2 = st_pinned s"
      and "st_llm_used s \<le> st_llm_used s2"
      and "st_llm_used s2 \<le> max (cf_max_calls (en_settings E)) (st_llm_used s)"
  | (selected) s2 ps where "s' = s2\<lparr>st_places := Some ps\<rparr>" and "ps \<noteq> []"
      and "has_error s2 = has_error s"
      and "st_job s2 = st_job s" "st_request s2 = st_request s" "st_plan s2 = st_plan s"
      and "st_pinned s2 = st_pinned s"
      and "st_llm_used s \<le> st_llm_used s2"
      and "st_llm_used s2 \<le> max (cf_max_calls (en_settings E)) (st_llm_used s)"
      and "list_all sourced ps" and "map pl_id ps = map int [0..<length ps]"
      and "sorted (map pl_day ps)" and "\<forall>p \<in> set ps. 1 \<le> pl_day p \<and> pl_day p \<le> num_days (st_request s)"
proof -
  from assms obtain reviews s1 system prompt where g: "gather_reviews E s cs = Inr (reviews, s1)"
    and run: "(case call_structured E (parse_body E parse_places_selection) system prompt
               (cf_max_calls (en_settings E)) s1 of
          (Inl e, s2) \<Rightarrow>
            if is_exception e then Inr (update_failure (exception_failure e) s2) else Inl e
        | (Inr selections, s2) \<Rightarrow>
            (let chosen = sort_key sel_day (pick_selections (num_days (st_request s2)) (length cs) {}
                             selections)
             in bindE (build_places E cs chosen []) (\<lambda>places.
                  if places = []
                  then Inr (fail_with ''insufficient verified places: selection returned empty''
                              ''selection_invalid'' s2)
                  else Inr (s2\<lparr>st_places := Some places\<rparr>)))) = Inr s'"
    by (auto simp: select_places_def bindE_Inr_iff)
  obtain res s2 where call: "call_structured E (parse_body E parse_places_selection) system prompt
      (cf_max_calls (en_settings E)) s1 = (res, s2)" by fastforce
  from gather_reviews_frame [OF g] have s1: "st_job s1 = st_job s" "st_request s1 = st_request s"
    "st_plan s1 = st_plan s" "st_pinned s1 = st_pinned s" "st_llm_used s1 = st_llm_used s"
    "st_error s1 = st_error s" by auto
  from call obtain n us where s2: "s2 = s1\<lparr>st_llm_used := st_llm_used s1 + n, st_usage := st_usage s1 @ us\<rparr>"
    "n = 0 \<or> st_llm_used s1 + n \<le> cf_max_calls (en_settings E)"
    by (rule call_structured_frame)
  have frame: "st_job s2 = st_job s" "st_request s2 = st_request s" "st_plan s2 = st_plan s"
    "st_pinned s2 = st_pinned s" "st_llm_used s \<le> st_llm_used s2"
    "st_llm_used s2 \<le> max (cf_max_calls (en_settings E)) (st_llm_used s)"
    "has_error s2 = has_error s"
    using s1 s2 by (auto simp: has_error_def)
  show ?thesis
  proof (cases res)
    case (Inl e)
    with run call have "s' = update_failure (exception_failure e) s2" by (auto split: if_splits)
    with frame show ?thesis by (intro failed) auto
  next
    case (Inr selections)
    define chosen where "chosen = sort_key sel_day (pick_selections (num_days (st_request s)) (length cs) {} selections)"
    from run call Inr frame(2) obtain ps where b: "build_places E cs chosen [] = Inr ps"
      and s': "s' = (if ps = [] then fail_with ''insufficient verified places: selection returned empty''
          ''selection_invalid'' s2 else s2\<lparr>st_places := Some ps\<rparr>)"
      by (auto simp: chosen_def Let_def bindE_Inr_iff split: if_splits)
    show ?thesis
    proof (cases "ps = []")
      case True
      with s' frame show ?thesis by (intro empty) auto
    next
      case False
      from build_places_props [OF b] have props: "list_all sourced ps"
        "map pl_id ps = map int [0..<length ps]" and sub: "subseq (map pl_day ps) (map sel_day chosen)"
        by auto
      have "set (map pl_day ps) \<subseteq> sel_day ` set chosen"
        using set_subseq [OF sub] by simp
      then have "\<forall>p \<in> set ps. 1 \<le> pl_day p \<and> pl_day p \<le> num_days (st_request s)"
        by (force simp: chosen_def dest: pick_selections_props)
      moreover have "sorted (map pl_day ps)"
        by (rule sorted_subseq [OF sub]) (simp add: chosen_def)
      ultimately show ?thesis using s' False frame props by (intro selected) auto
    qed
  qed
qed

section \<open>The merged itinerary\<close>

lemma sourced_renumber: "sourced (p\<lparr>pl_id := i\<rparr>) = sourced p"
  by (simp add: sourced_def valid_place_def)

lemma map_snd_enumerate: "map (\<lambda>ip. f (snd ip)) (enumerate n xs) = map f xs"
  by (induction xs arbitrary: n) simp_all

lemma renumber_props:
  "map pl_id (renumber ps) = map int [0..<length (renumber ps)]"
  "map pl_day (renumber ps) = map pl_day ps"
  "list_all sourced (renumber ps) = list_all sourced ps"
  "length (renumber ps) = length ps"
proof -
  have "map (\<lambda>ip. int (fst ip)) (enumerate n ps) = map int [n..<n + length ps]" for n
  proof -
    have "map (\<lambda>ip. int (fst ip)) (enumerate n ps) = map int (map fst (enumerate n ps))"
      by (simp del: map_fst_enumerate)
    then show ?thesis by (simp only: map_fst_enumerate)
  qed
  then show "map pl_id (renumber ps) = map int [0..<length (renumber ps)]"
    by (simp add: renumber_def comp_def)
  show "map pl_day (renumber ps) = map pl_day ps"
    by (simp add: renumber_def comp_def map_snd_enumerate)
  show "list_all sourced (renumber ps) = list_all sourced ps"
  proof -
    have "list_all sourced (renumber ps) = list_all (\<lambda>x. x) (map (\<lambda>ip. sourced (snd ip)) (enumerate 0 ps))"
      by (simp add: renumber_def list.pred_map comp_def sourced_renumber)
    then show ?thesis unfolding map_snd_enumerate by (simp add: list.pred_map comp_def)
  qed
  show "length (renumber ps) = length ps" by (simp add: renumber_def)
qed

lemma renumber_member: "p \<in> set ps \<Longrightarrow> \<exists>i. p\<lparr>pl_id := i\<rparr> \<in> set (renumber ps)"
proof -
  assume "p \<in> set ps"
  then obtain j where "j < length ps" "ps ! j = p" by (auto simp: in_set_conv_nth)
  then have "renumber ps ! j = p\<lparr>pl_id := int j\<rparr>" "j < length (renumber ps)"
    by (simp_all add: renumber_def nth_enumerate_eq)
  then show ?thesis by (metis nth_mem)
qed

lemma merge_pinned_props:
  assumes "list_all sourced pinned" and "list_all sourced fresh"
    and "\<forall>p \<in> set pinned \<union> set fresh. 1 \<le> pl_day p \<and> pl_day p \<le> n"
  shows "list_all sourced (merge_pinned pinned fresh)"
    and "map pl_id (merge_pinned pinned fresh) = map int [0..<length (merge_pinned pinned fresh)]"
    and "sorted (map pl_day (merge_pinned pinned fresh))"
    and "\<forall>p \<in> set (merge_pinned pinned fresh). 1 \<le> pl_day p \<and> pl_day p \<le> n"
    and "p \<in> set pinned \<Longrightarrow> \<exists>i. p\<lparr>pl_id := i\<rparr> \<in> set (merge_pinned pinned fresh)"
proof -
  define kept where "kept = filter (\<lambda>p. \<not> (has_id p \<and> pl_content_id p \<in> pl_content_id ` set (filter has_id pinned))) fresh"
  define merged where "merged = sort_key pl_day (pinned @ kept)"
  have eq: "merge_pinned pinned fresh = renumber merged"
    by (simp add: merge_pinned_def Let_def merged_def kept_def)
  have set: "set merged \<subseteq> set pinned \<union> set fresh" "set pinned \<subseteq> set merged"
    by (auto simp: merged_def kept_def)
  show "list_all sourced (merge_pinned pinned fresh)"
    unfolding eq renumber_props using assms(1,2) set by (auto simp: list_all_iff)
  show "map pl_id (merge_pinned pinned fresh) = map int [0..<length (merge_pinned pinned fresh)]"
    unfolding eq by (rule renumber_props)
  show "sorted (map pl_day (merge_pinned pinned fresh))"
    unfolding eq renumber_props(2) by (simp add: merged_def)
  have "set (map pl_day (merge_pinned pinned fresh)) = set (map pl_day merged)"
    unfolding eq renumber_props(2) ..
  then have "pl_day p \<in> pl_day ` (set pinned \<union> set fresh)" if "p \<in> set (merge_pinned pinned fresh)" for p
    using that set(1) by auto
  then show "\<forall>p \<in> set (merge_pinned pinned fresh). 1 \<le> pl_day p \<and> pl_day p \<le> n"
    using assms(3) by (metis (no_types, lifting) imageE)
  show "\<exists>i. p\<lparr>pl_id := i\<rparr> \<in> set (merge_pinned pinned fresh)" if "p \<in> set pinned"
    unfolding eq using that set(2) by (intro renumber_member) auto
qed

text \<open>
  What the rest of the pipeline relies on: every place has a verified source and a day of the trip,
  the ids are the positions, there are at least two places and one on every day.
\<close>

definition itinerary_ok :: "int \<Rightarrow> place list \<Rightarrow> bool" where
  "itinerary_ok n ps \<longleftrightarrow> list_all sourced ps \<and> map pl_id ps = map int [0..<length ps]
     \<and> (\<forall>p \<in> set ps. 1 \<le> pl_day p \<and> pl_day p \<le> n) \<and> days_covered n ps"

text \<open>The plan \<open>plan_strategy\<close> makes: at least two stops on every day of the trip.\<close>

definition plan_ok :: "int \<Rightarrow> plan option \<Rightarrow> bool" where
  "plan_ok n plan \<longleftrightarrow> (\<exists>pl. plan = Some pl \<and> map pn_day (pn_days pl) = map (\<lambda>i. int i + 1) [0..<nat n]
     \<and> (\<forall>d \<in> set (pn_days pl). 2 \<le> pn_target d))"

lemma plan_for_ok: "plan_ok (num_days r) (Some (plan_for r pops))"
  using plan_for_days [of r pops] plan_for_target [of _ r pops] target_stops_bounds
  by (auto simp: plan_ok_def)

lemma sum_list_nonneg_zero:
  "(\<forall>x \<in> set xs. 0 \<le> x) \<Longrightarrow> \<not> 0 < sum_list xs \<Longrightarrow> \<forall>x \<in> set xs. x = 0" for xs :: "int list"
proof (induction xs)
  case (Cons x xs)
  then have "0 \<le> sum_list xs" by (simp add: sum_list_nonneg)
  with Cons show ?case by auto
qed simp

text \<open>When nothing is left to choose, the user's own places cover every day.\<close>

lemma no_targets_left:
  assumes "plan_ok n plan" and "1 \<le> n" and "\<not> fst (remaining_targets plan pinned)"
  shows "days_covered n pinned"
proof -
  from assms(1) obtain pl where pl: "plan = Some pl"
    "map pn_day (pn_days pl) = map (\<lambda>i. int i + 1) [0..<nat n]" "\<forall>d \<in> set (pn_days pl). 2 \<le> pn_target d"
    by (auto simp: plan_ok_def)
  have "\<not> 0 < sum_list (map pn_target (map (reduce_day pinned) (pn_days pl)))"
    using assms(3) pl(1) by (auto simp: remaining_targets_def Let_def split: if_splits)
  then have zero: "max 0 (pn_target d - pinned_on pinned (pn_day d)) = 0" if "d \<in> set (pn_days pl)" for d
    using sum_list_nonneg_zero [of "map pn_target (map (reduce_day pinned) (pn_days pl))"] that
    by (auto simp: reduce_day_def)
  have two: "2 \<le> length (filter (\<lambda>p. pl_day p = day) pinned)" if "1 \<le> day" "day \<le> n" for day
  proof -
    have "day = int (nat (day - 1)) + 1" "nat (day - 1) \<in> set [0..<nat n]" using that by auto
    then have "day \<in> (\<lambda>i. int i + 1) ` set [0..<nat n]" by (rule image_eqI)
    then have "day \<in> set (map pn_day (pn_days pl))" unfolding pl(2) by simp
    then obtain d where "d \<in> set (pn_days pl)" "pn_day d = day" by auto
    with zero pl(3) show ?thesis by (fastforce simp: pinned_on_def max_def split: if_splits)
  qed
  have "2 \<le> length pinned"
    using two [of 1] assms(2) length_filter_le [of "\<lambda>p. pl_day p = 1" pinned] by linarith
  moreover have "\<exists>p \<in> set pinned. pl_day p = day" if "1 \<le> day" "day \<le> n" for day
    using two [OF that] by (metis (mono_tags, lifting) filter_False list.size(3) not_numeral_le_zero)
  ultimately show ?thesis by (auto simp: days_covered_def list_all_iff)
qed

lemma finish_places_ok:
  assumes "finish_places pinned s = s'" and "\<not> has_error s'"
    and "\<not> has_error s \<Longrightarrow> list_all sourced (places_of s) \<and> map pl_id (places_of s) = map int [0..<length (places_of s)]
          \<and> (\<forall>p \<in> set (places_of s). 1 \<le> pl_day p \<and> pl_day p \<le> num_days (st_request s))"
    and "list_all sourced pinned" and "\<forall>p \<in> set pinned. 1 \<le> pl_day p \<and> pl_day p \<le> num_days (st_request s)"
  shows "itinerary_ok (num_days (st_request s)) (places_of s')
    \<and> (\<forall>p \<in> set pinned. \<exists>i. p\<lparr>pl_id := i\<rparr> \<in> set (places_of s'))"
proof -
  have noerr: "\<not> has_error s"
  proof
    assume "has_error s"
    then have "s' = s" using assms(1) by (simp add: finish_places_def)
    with \<open>has_error s\<close> assms(2) show False by simp
  qed
  define ps where "ps = (if pinned \<noteq> [] then merge_pinned pinned (places_of s) else places_of s)"
  define s1 where "s1 = (if pinned \<noteq> [] then s\<lparr>st_places := Some ps\<rparr> else s)"
  have s1: "places_of s1 = ps" "st_request s1 = st_request s" "\<not> has_error s1"
    using noerr by (auto simp: s1_def ps_def places_of_def has_error_def)
  have "s' = (if days_covered (num_days (st_request s)) ps then s1
      else fail_with ''insufficient verified places for the requested days'' ''selection_invalid'' s1)"
    using assms(1) noerr s1 by (auto simp: finish_places_def Let_def s1_def ps_def split: if_splits)
  with assms(2) have s': "s' = s1" and cov: "days_covered (num_days (st_request s)) ps"
    by (auto split: if_splits)
  note old = assms(3) [OF noerr]
  have "list_all sourced ps \<and> map pl_id ps = map int [0..<length ps]
      \<and> (\<forall>p \<in> set ps. 1 \<le> pl_day p \<and> pl_day p \<le> num_days (st_request s))
      \<and> (\<forall>p \<in> set pinned. \<exists>i. p\<lparr>pl_id := i\<rparr> \<in> set ps)"
  proof (cases "pinned = []")
    case True
    with old show ?thesis by (simp add: ps_def)
  next
    case False
    have days: "\<forall>p \<in> set pinned \<union> set (places_of s). 1 \<le> pl_day p \<and> pl_day p \<le> num_days (st_request s)"
      using old assms(5) by auto
    from False merge_pinned_props [OF assms(4) _ days] old show ?thesis by (auto simp: ps_def)
  qed
  with cov s' s1 show ?thesis by (simp add: itinerary_ok_def)
qed

lemma verified_days:
  assumes "list_all2 (\<lambda>g p. same_place g p \<and> sourced p \<and> pl_day p = sp_day g) gs ps"
    and "\<forall>g \<in> set gs. 1 \<le> sp_day g \<and> sp_day g \<le> n"
  shows "list_all sourced ps" and "\<forall>p \<in> set ps. 1 \<le> pl_day p \<and> pl_day p \<le> n"
  using assms by (induction rule: list_all2_induct) auto

text \<open>What the node does after the user's places are verified.\<close>

lemma recommend_places_cases:
  assumes "recommend_places E s = Inr s'" and "\<not> has_error s" and "\<not> has_error s'"
  obtains (full) pinned s1 where
      "list_all2 (\<lambda>g p. same_place g p \<and> sourced p \<and> pl_day p = sp_day g) (given_places (st_request s)) pinned"
      and "rq_stage (st_request s) = StageMode1"
      and "map pl_id pinned = map int [0..<length pinned]" and "pinned \<noteq> []"
      and "\<not> fst (remaining_targets (st_plan s) pinned)" and "s' = s1\<lparr>st_places := Some pinned\<rparr>"
      and "st_request s1 = st_request s"
  | (chosen) pinned s1 where "choose_new_places E pinned s1 = Inr s'"
      and "st_request s1 = st_request s" and "\<not> has_error s1"
      and "pinned = [] \<and> (rq_stage (st_request s) \<noteq> StageMode1 \<or> given_places (st_request s) = [])
        \<or> rq_stage (st_request s) = StageMode1 \<and> list_all2 (\<lambda>g p. same_place g p \<and> sourced p \<and> pl_day p = sp_day g) (given_places (st_request s)) pinned"
proof -
  define upd where "upd s1 pinned = s1\<lparr>st_pinned := Some (map (the \<circ> pl_content_id) (filter has_id pinned))\<rparr>"
    for s1 :: agent_state and pinned
  from assms(1,2) obtain pinned0 pinned s1 where p0: "pinned_places s = Inr pinned0"
    and ver: "(if pinned0 = [] then Inr ([], s)
               else verify_selected_places E s (given_places (st_request s))) = Inr (pinned, s1)"
    and rest: "(if has_error s1 then Inr s1
          else
            (let s2 = upd s1 pinned;
                 (left, plan) = remaining_targets (st_plan s2) pinned;
                 s3 = (if pinned = [] then s2 else s2\<lparr>st_plan := plan\<rparr>)
             in if pinned \<noteq> [] \<and> \<not> left then Inr (s3\<lparr>st_places := Some pinned\<rparr>)
                else choose_new_places E pinned s3)) = Inr s'"
    unfolding upd_def by (auto simp: recommend_places_def bindE_Inr_iff)
  have err: "\<not> has_error s1" using rest assms(3) by (auto split: if_splits)
  have mode: "rq_stage (st_request s) = StageMode1 \<and> given_places (st_request s) \<noteq> []" if "pinned0 \<noteq> []"
    using p0 that by (auto simp: pinned_places_def Let_def split: if_splits)
  have none: "rq_stage (st_request s) \<noteq> StageMode1 \<or> given_places (st_request s) = []" if empty0: "pinned0 = []"
  proof (rule ccontr)
    assume "\<not> ?thesis"
    then obtain g gs where g: "given_places (st_request s) = g # gs"
      and run: "places_from_selected (g # gs) = Inr []"
      using p0 empty0 by (cases "given_places (st_request s)") (auto simp: pinned_places_def Let_def split: if_splits)
    from run show False by (auto simp: places_from_selected_def bindE_Inr_iff)
  qed
  have v: "s1 = s \<and> list_all2 (\<lambda>g p. same_place g p \<and> sourced p \<and> pl_day p = sp_day g) (given_places (st_request s)) pinned
      \<and> map pl_id pinned = map int [0..<length pinned] \<and> pinned \<noteq> []" if "pinned0 \<noteq> []"
    using verify_selected_props(2) [of E s "given_places (st_request s)" pinned s1] ver that err mode [OF that]
    by (auto simp: list_all2_Nil2)
  obtain left plan where rt: "remaining_targets (st_plan s1) pinned = (left, plan)" by fastforce
  define s3 where "s3 = (if pinned = [] then upd s1 pinned else (upd s1 pinned)\<lparr>st_plan := plan\<rparr>)"
  have s3: "st_request s3 = st_request s1" "has_error s3 = has_error s1"
    by (auto simp: s3_def upd_def has_error_def)
  have run: "(if pinned \<noteq> [] \<and> \<not> left then Inr (s3\<lparr>st_places := Some pinned\<rparr>)
      else choose_new_places E pinned s3) = Inr s'"
    using rest err rt by (cases "pinned = []"; cases left) (simp_all add: s3_def upd_def Let_def)
  have plain: "pinned = [] \<and> s1 = s" if "pinned0 = []" using ver that by simp
  show ?thesis
  proof (cases "pinned \<noteq> [] \<and> \<not> left")
    case True
    with plain have "pinned0 \<noteq> []" by auto
    with v mode run True rt s3 show ?thesis by (intro full [of pinned s3]) auto
  next
    case False
    then have "choose_new_places E pinned s3 = Inr s'" using run by (simp split: if_splits)
    with plain none v mode s3 err show ?thesis by (cases "pinned0 = []") (auto intro: chosen)
  qed
qed

lemma same_place_renumber: "same_place g (p\<lparr>pl_id := i\<rparr>) = same_place g p"
  by (simp add: same_place_def split: option.split)

lemma list_all2_find: "list_all2 P xs ys \<Longrightarrow> x \<in> set xs \<Longrightarrow> \<exists>y \<in> set ys. P x y"
  by (induction rule: list_all2_induct) auto

lemma choose_new_places_ok:
  assumes "choose_new_places E pinned s = Inr s'" and "\<not> has_error s'" and "list_all sourced pinned"
    and "\<forall>p \<in> set pinned. 1 \<le> pl_day p \<and> pl_day p \<le> num_days (st_request s)"
  shows "itinerary_ok (num_days (st_request s)) (places_of s')
    \<and> (\<forall>p \<in> set pinned. \<exists>i. p\<lparr>pl_id := i\<rparr> \<in> set (places_of s'))"
proof -
  have goal: ?thesis if fin: "finish_places pinned s2 = s'" and req: "st_request s2 = st_request s"
      and old: "\<not> has_error s2 \<Longrightarrow> list_all sourced (places_of s2)
        \<and> map pl_id (places_of s2) = map int [0..<length (places_of s2)]
        \<and> (\<forall>p \<in> set (places_of s2). 1 \<le> pl_day p \<and> pl_day p \<le> num_days (st_request s2))" for s2
    using finish_places_ok [OF fin assms(2) old assms(3)] assms(4) req by simp
  show ?thesis
  proof (cases "st_candidates s = []")
    case True
    with assms(1) have "finish_places pinned (fail_with
        ''insufficient verified places: no search candidates'' ''no_matching_places'' s) = s'"
      by (simp add: choose_new_places_def)
    then show ?thesis by (rule goal) simp_all
  next
    case False
    with assms(1) obtain cs s2 where sel: "select_places E (s\<lparr>st_candidates := cs,
        st_path := Some (lit ''select'')\<rparr>) cs = Inr s2" and fin: "finish_places pinned s2 = s'"
      by (auto simp: choose_new_places_def bindE_Inr_iff)
    from sel show ?thesis
    proof (cases rule: select_places_cases)
      case (failed s3 f)
      then show ?thesis by (intro goal [OF fin]) auto
    next
      case (empty s3)
      then show ?thesis by (intro goal [OF fin]) auto
    next
      case (selected s3 ps)
      then show ?thesis by (intro goal [OF fin]) (auto simp: places_of_def)
    qed
  qed
qed

lemma given_days:
  assumes "valid_request r" and "input_ok r"
  shows "\<forall>g \<in> set (given_places r). 1 \<le> sp_day g \<and> sp_day g \<le> num_days r"
  using assms given_places_valid by (auto simp: input_ok_def valid_selected_def)

section \<open>Concrete run\<close>

text \<open>Two places of a one-day trip that the user keeps, and a hub that knows both.\<close>

definition kakao_candidate :: "string \<Rightarrow> pydict" where
  "kakao_candidate cid =
     [(lit ''content_id'', PStr (lit cid)), (lit ''source'', PStr (lit ''kakao'')),
      (lit ''name'', PStr (lit cid)), (lit ''category'', PStr (lit ''food > cafe'')),
      (lit ''lat'', PFloat (Fin 37)), (lit ''lng'', PFloat (Fin 127))]"

definition kept_place :: "string \<Rightarrow> selected_place" where
  "kept_place cid =
     \<lparr>sp_name = lit cid, sp_address = [], sp_lat = 37, sp_lng = 127, sp_day = 1,
      sp_content_id = Some (lit cid), sp_category = None\<rparr>"

definition mode1_request :: request where
  "mode1_request =
     (march_request 1)\<lparr>rq_stage := StageMode1, rq_places := Some [kept_place ''A'', kept_place ''B'']\<rparr>"

definition two_stops :: plan where
  "two_stops =
     \<lparr>pn_days = [\<lparr>pn_day = 1, pn_target = 2, pn_indoor = 0, pn_pop = None\<rparr>], pn_pace = lit ''normal''\<rparr>"

definition kakao_env :: env where
  "kakao_env = offline_env\<lparr>en_search := \<lambda>_ _ _ _ _. Inr (PDict [(lit ''places'',
     PList [PDict (kakao_candidate ''A''), PDict (kakao_candidate ''B'')])])\<rparr>"

lemma kakao_search:
  "en_search kakao_env pr ci mo kw n = Inr (PDict [(lit ''places'',
     PList [PDict (kakao_candidate ''A''), PDict (kakao_candidate ''B'')])])"
  by (simp add: kakao_env_def)

lemma kakao_place:
  assumes "cid = ''A'' \<or> cid = ''B''"
  shows "\<exists>p. place_from_candidate kakao_env n (kakao_candidate cid) [] 1 = Inr p
    \<and> pl_content_id p = Some (lit cid)"
proof -
  have strip: "strip (lit cid) \<noteq> []" using assms by (auto simp: strip_def lit_def is_space_def)
  have stub: "\<not> contains_text (lit ''stub'') (ascii_lower (lit cid))"
    using assms by (auto simp: contains_text_def lit_def ascii_lower_def sublist_code)
  have known: "source_known (kakao_candidate cid) = Inr True"
    by (simp add: source_known_def kakao_candidate_def dget_def known_sources_def)
  have texts: "text_ok (lit cid)" "text_ok (lit ''kakao'')" "text_ok []" "cid \<noteq> []" "length cid = 1"
    using assms by (auto simp: text_ok_def forbidden_text_char_def lit_def)
  have cat: "text_ok (neutralize_text t)" for t
    by (simp add: text_ok_iff_safe neutralize_text_safe)
  have empty: "neutralize_text [] = []" by (rule neutralize_text_id) simp
  have len: "length (lit cid) = 1" using texts by (simp add: lit_def)
  have "\<exists>p. place_fields kakao_env n (kakao_candidate cid) [] 1 = Inr p \<and> pl_content_id p = Some (lit cid)"
    using texts cat empty len
    by (simp add: place_fields_def kakao_candidate_def dget_def cut_text_def float_field_def need_def
        bounded_float_def opt_str_of_def neutralize_tags_def opt_float_field_def opt_int_field_def
        checked_place_def valid_place_def)
  with strip stub known show ?thesis
    by (simp add: place_from_candidate_def kakao_candidate_def dget_def)
qed

lemma mode1_run:
  "valid_request mode1_request \<and> input_ok mode1_request \<and> plan_ok 1 (Some two_stops)
   \<and> num_days mode1_request = 1
   \<and> (\<exists>s'. recommend_places kakao_env ((start_state [] mode1_request)\<lparr>st_plan := Some two_stops\<rparr>) = Inr s'
        \<and> \<not> has_error s')"
proof -
  let ?s = "(start_state [] mode1_request)\<lparr>st_plan := Some two_stops\<rparr>"
  have tok: "text_ok (lit ''A'')" "text_ok (lit ''B'')" "text_ok []"
    by (simp_all add: text_ok_def forbidden_text_char_def lit_def)
  have sel: "valid_selected (kept_place ''A'')" "valid_selected (kept_place ''B'')"
    using tok by (simp_all add: valid_selected_def kept_place_def) (simp_all add: lit_def)
  have given: "given_places mode1_request = [kept_place ''A'', kept_place ''B'']"
    by (simp add: given_places_def mode1_request_def)
  have days: "num_days mode1_request = 1"
    using march_num_days [of 1] by (simp add: num_days_def mode1_request_def)
  have valid: "valid_request mode1_request"
    using march_request_valid [of 1] sel by (simp add: valid_request_def mode1_request_def)
  have ok: "input_ok mode1_request"
    using march_input_ok [of 1] days given
    by (simp add: input_ok_def kept_place_def) (simp add: mode1_request_def)
  obtain a where a: "place_from_candidate kakao_env 0 (kakao_candidate ''A'') [] 1 = Inr a"
    "pl_content_id a = Some (lit ''A'')" using kakao_place by blast
  obtain a' where a': "place_from_candidate kakao_env 1 (kakao_candidate ''A'') [] 1 = Inr a'"
    "pl_content_id a' = Some (lit ''A'')" using kakao_place by blast
  obtain b where b: "place_from_candidate kakao_env 1 (kakao_candidate ''B'') [] 1 = Inr b"
    "pl_content_id b = Some (lit ''B'')" using kakao_place by blast
  have "verify_loop kakao_env mode1_request [kept_place ''A'', kept_place ''B''] [] = Inr (Some [a, b])"
    using a a' b
    by (simp add: kakao_search get_iter_def iter_or_empty_def dget_def same_place_def kept_place_def)
  then have ver: "verify_selected_places kakao_env ?s (given_places mode1_request) = Inr ([a, b], ?s)"
    by (simp add: verify_selected_places_def given start_state_def)
  have "\<exists>p0 rest. pinned_places ?s = Inr (p0 # rest)"
    using tok
    by (simp add: pinned_places_def Let_def start_state_def given) 
       (simp add: mode1_request_def places_from_selected_def place_of_selected_def checked_place_def
          kept_place_def valid_place_def lit_def)
  then obtain p0 ps where p0: "pinned_places ?s = Inr (p0 # ps)" by blast
  have err: "\<not> has_error ?s" by (simp add: start_state_def has_error_def)
  have "pl_day a = 1" "pl_day b = 1" using a b place_from_candidate_props by blast+
  then have left: "\<not> fst (remaining_targets (Some two_stops) [a, b])"
    by (simp add: remaining_targets_def two_stops_def reduce_day_def pinned_on_def)
  have "\<exists>s'. recommend_places kakao_env ?s = Inr s' \<and> \<not> has_error s'"
    using err p0 ver left
    by (simp add: recommend_places_def start_state_def case_prod_beta) (simp add: has_error_def)
  with valid ok days show ?thesis by (simp add: plan_ok_def two_stops_def)
qed

section \<open>The contract of the nodes\<close>

lemma verify_selected_early:
  "verify_selected_places E s gs = Inr (ps, s') \<Longrightarrow> early m s s'"
  by (auto simp: verify_selected_places_def intro!: early_exception early_fail_with
      split: sum.splits option.splits if_splits)

interpretation load_given_places: quiet_early_node load_given_places
proof
  fix E s s'
  assume run: "load_given_places E s = Inr s'"
  show "early 0 s s'"
  proof (cases "has_error s \<or> given_places (st_request s) = []")
    case True
    with run show ?thesis by (auto simp: load_given_places_def intro!: early_fail_with split: if_splits)
  next
    case False
    with run obtain ps t where v: "verify_selected_places E (s\<lparr>st_path := Some (lit ''route'')\<rparr>)
        (given_places (st_request s)) = Inr (ps, t)" "s' = t\<lparr>st_places := Some ps, st_grounded := \<not> has_error t\<rparr>"
      by (auto simp: load_given_places_def bindE_Inr_iff Let_def)
    have "early 0 s (s\<lparr>st_path := Some (lit ''route'')\<rparr>)" "early 0 t s'"
      by (auto intro!: early_fields simp: v(2))
    with verify_selected_early [OF v(1)] show ?thesis by (meson early_trans)
  qed
qed

lemma select_places_early:
  assumes "select_places E s cs = Inr s'"
  shows "early (cf_max_calls (en_settings E)) s s'"
proof -
  from assms obtain reviews s1 system prompt where g: "gather_reviews E s cs = Inr (reviews, s1)"
    and run: "(case call_structured E (parse_body E parse_places_selection) system prompt
               (cf_max_calls (en_settings E)) s1 of
          (Inl e, s2) \<Rightarrow>
            if is_exception e then Inr (update_failure (exception_failure e) s2) else Inl e
        | (Inr selections, s2) \<Rightarrow>
            (let chosen = sort_key sel_day (pick_selections (num_days (st_request s2)) (length cs) {}
                             selections)
             in bindE (build_places E cs chosen []) (\<lambda>places.
                  if places = []
                  then Inr (fail_with ''insufficient verified places: selection returned empty''
                              ''selection_invalid'' s2)
                  else Inr (s2\<lparr>st_places := Some places\<rparr>)))) = (Inr s' :: pyexn + agent_state)"
    by (auto simp: select_places_def bindE_Inr_iff)
  obtain res s2 where call: "call_structured E (parse_body E parse_places_selection) system prompt
      (cf_max_calls (en_settings E)) s1 = (res, s2)" by fastforce
  have "early (cf_max_calls (en_settings E)) s s1" using gather_reviews_frame [OF g] by (auto intro!: early_fields)
  moreover have "early (cf_max_calls (en_settings E)) s1 s2"
    by (rule call_structured_frame [OF call]) (auto simp: early_def tame_def coded_def)
  ultimately have t: "early (cf_max_calls (en_settings E)) s s2" by (rule early_trans)
  have keep: "early (cf_max_calls (en_settings E)) s (s2\<lparr>st_places := ps\<rparr>)" for ps
    by (rule early_trans [OF t]) (auto intro!: early_fields)
  show ?thesis
    using run call t keep
    by (cases res) (auto simp: Let_def bindE_Inr_iff intro!: early_exception early_fail_with split: if_splits)
qed

lemma finish_places_early: "early m s t \<Longrightarrow> early m s (finish_places pinned t)"
  by (auto simp: finish_places_def Let_def intro!: early_fail_with)
     (auto simp: early_def tame_def coded_def)

lemma choose_new_places_early:
  assumes "choose_new_places E pinned s = Inr s'"
  shows "early (cf_max_calls (en_settings E)) s s'"
proof (cases "st_candidates s = []")
  case True
  with assms show ?thesis by (auto simp: choose_new_places_def intro!: finish_places_early early_fail_with)
next
  case False
  with assms obtain cs s2 where "select_places E (s\<lparr>st_candidates := cs, st_path := Some (lit ''select'')\<rparr>) cs = Inr s2"
    and s': "s' = finish_places pinned s2" by (auto simp: choose_new_places_def bindE_Inr_iff)
  then have "early (cf_max_calls (en_settings E)) (s\<lparr>st_candidates := cs, st_path := Some (lit ''select'')\<rparr>) s2"
    by (intro select_places_early)
  moreover have "early (cf_max_calls (en_settings E)) s (s\<lparr>st_candidates := cs, st_path := Some (lit ''select'')\<rparr>)"
    by (auto intro!: early_fields)
  ultimately show ?thesis unfolding s' by (intro finish_places_early) (rule early_trans)
qed

interpretation recommend_places: early_node recommend_places
proof
  fix E s s'
  assume run: "recommend_places E s = Inr s'"
  let ?m = "cf_max_calls (en_settings E)"
  show "early ?m s s'"
  proof (cases "has_error s")
    case True
    with run show ?thesis by (simp add: recommend_places_def)
  next
    case False
    define upd where "upd s1 pinned = s1\<lparr>st_pinned := Some (map (the \<circ> pl_content_id) (filter has_id pinned))\<rparr>"
      for s1 :: agent_state and pinned
    from run False obtain pinned0 pinned s1 where p0: "pinned_places s = Inr pinned0"
      and ver: "(if pinned0 = [] then Inr ([], s) else verify_selected_places E s (given_places (st_request s))) = Inr (pinned, s1)"
      and rest: "(if has_error s1 then Inr s1
          else
            (let s2 = upd s1 pinned;
                 (left, plan) = remaining_targets (st_plan s2) pinned;
                 s3 = (if pinned = [] then s2 else s2\<lparr>st_plan := plan\<rparr>)
             in if pinned \<noteq> [] \<and> \<not> left then Inr (s3\<lparr>st_places := Some pinned\<rparr>)
                else choose_new_places E pinned s3)) = Inr s'"
      unfolding upd_def by (auto simp: recommend_places_def bindE_Inr_iff)
    obtain left plan where rt: "remaining_targets (st_plan (upd s1 pinned)) pinned = (left, plan)" by fastforce
    have t1: "early ?m s s1" using ver verify_selected_early by (auto split: if_splits)
    define s3 where "s3 = (if pinned = [] then upd s1 pinned else (upd s1 pinned)\<lparr>st_plan := plan\<rparr>)"
    have "early ?m s1 s3" "early ?m s1 (s3\<lparr>st_places := Some pinned\<rparr>)"
      by (auto simp: s3_def upd_def intro!: early_fields)
    note t3 = this [THEN early_trans [OF t1]]
    have "s' = s1 \<or> s' = s3\<lparr>st_places := Some pinned\<rparr> \<or> choose_new_places E pinned s3 = Inr s'"
      using rest rt by (auto simp: Let_def s3_def split: if_splits)
    then show ?thesis
      using t1 t3 early_trans [OF t3(1) choose_new_places_early] by blast
  qed
qed

section \<open>Properties\<close>

text \<open>
  C21: Every place a candidate becomes is one a verified source names: the source is kakao or
  durunubi, the identifier is neither blank nor a stub, the coordinates lie in Korea, no text
  contains a tag or control character, and id and day are the ones asked for.
\<close>

theorem place_from_candidate_sourced:
  assumes "place_from_candidate E pid c t day = Inr p"
  shows "sourced p \<and> 33 \<le> pl_lat p \<and> pl_lat p \<le> 43 \<and> 124 \<le> pl_lng p \<and> pl_lng p \<le> 132
    \<and> text_ok (pl_name p) \<and> text_ok (pl_visit_time p) \<and> opt_ok text_ok (pl_category p)
    \<and> pl_id p = pid \<and> pl_day p = day"
proof -
  have "sourced p \<and> pl_id p = pid \<and> pl_day p = day" by (rule place_from_candidate_props [OF assms])
  then show ?thesis by (simp add: sourced_def valid_place_def)
qed

theorem place_from_candidate_sourced_witness:
  "\<exists>p. place_from_candidate kakao_env 0 (kakao_candidate ''A'') [] 1 = Inr p \<and> sourced p"
  using kakao_place [of "''A''"] place_from_candidate_sourced by blast

lemma recommend_places_ok:
  assumes "valid_request (st_request s)" and "input_ok (st_request s)"
    and "plan_ok (num_days (st_request s)) (st_plan s)"
    and "\<not> has_error s" and "recommend_places E s = Inr s'" and "\<not> has_error s'"
  shows "itinerary_ok (num_days (st_request s)) (places_of s')"
  using assms(5,4,6)
proof (cases rule: recommend_places_cases)
  case (full pinned s1)
  with verified_days [OF full(1) given_days [OF assms(1,2)]]
    no_targets_left [OF assms(3) num_days_pos(1) [OF assms(1,2)] full(5)]
  show ?thesis by (simp add: itinerary_ok_def places_of_def)
next
  case (chosen pinned s1)
  then have "list_all sourced pinned"
    "\<forall>p \<in> set pinned. 1 \<le> pl_day p \<and> pl_day p \<le> num_days (st_request s1)"
    using verified_days [OF _ given_days [OF assms(1,2)]] by auto
  from choose_new_places_ok [OF chosen(1) assms(6) this] chosen(2) show ?thesis by simp
qed

text \<open>
  C12: When the recommendation succeeds on an accepted request and the plan of \<open>plan_strategy\<close>, the
  job has an itinerary: every place is a verified one on a day of the trip, the ids are 0 to n-1 in
  order, there are two places or more and none of the days is empty. This covers the branch in which
  the user's own places already fill every day and the model is not asked.
\<close>

theorem recommend_places_itinerary:
  assumes "valid_request (st_request s)" and "input_ok (st_request s)"
    and "plan_ok (num_days (st_request s)) (st_plan s)"
    and "\<not> has_error s" and "recommend_places E s = Inr s'" and "\<not> has_error s'"
  shows "itinerary_ok (num_days (st_request s)) (places_of s')"
  using assms by (rule recommend_places_ok)

theorem recommend_places_itinerary_witness:
  "\<exists>s'. recommend_places kakao_env ((start_state [] mode1_request)\<lparr>st_plan := Some two_stops\<rparr>) = Inr s'
     \<and> itinerary_ok 1 (places_of s')"
proof -
  let ?s = "(start_state [] mode1_request)\<lparr>st_plan := Some two_stops\<rparr>"
  from mode1_run obtain s' where run: "valid_request (st_request ?s)" "input_ok (st_request ?s)"
    "plan_ok (num_days (st_request ?s)) (st_plan ?s)" "\<not> has_error ?s"
    "recommend_places kakao_env ?s = Inr s'" "\<not> has_error s'"
    by (auto simp: start_state_def has_error_def)
  from recommend_places_itinerary [OF this] run(5) mode1_run show ?thesis
    by (auto simp: start_state_def)
qed

text \<open>
  C30: A job that works on the user's own places never replaces them: on success every place the
  request pinned is in the itinerary, with the source's data, on the day the user chose.
\<close>

theorem recommend_places_keeps_pinned:
  assumes "valid_request (st_request s)" and "input_ok (st_request s)"
    and "rq_stage (st_request s) = StageMode1" and "g \<in> set (given_places (st_request s))"
    and "\<not> has_error s" and "recommend_places E s = Inr s'" and "\<not> has_error s'"
  shows "\<exists>p \<in> set (places_of s'). same_place g p \<and> pl_day p = sp_day g \<and> sourced p"
  using assms(6,5,7)
proof (cases rule: recommend_places_cases)
  case (full pinned s1)
  with list_all2_find [OF full(1) assms(4)] show ?thesis by (auto simp: places_of_def)
next
  case (chosen pinned s1)
  then have v: "list_all2 (\<lambda>g p. same_place g p \<and> sourced p \<and> pl_day p = sp_day g)
        (given_places (st_request s)) pinned"
    using assms(3,4) by auto
  from list_all2_find [OF v assms(4)] obtain p where
    p: "p \<in> set pinned" "same_place g p" "pl_day p = sp_day g" "sourced p" by blast
  obtain i where "p\<lparr>pl_id := i\<rparr> \<in> set (places_of s')"
    using choose_new_places_ok [OF chosen(1) assms(7)] verified_days [OF v given_days [OF assms(1,2)]]
      chosen(2) p(1) by auto
  with p show ?thesis
    by (intro bexI [of _ "p\<lparr>pl_id := i\<rparr>"]) (simp_all add: same_place_renumber sourced_renumber)
qed

theorem recommend_places_keeps_pinned_witness:
  "\<exists>s'. recommend_places kakao_env ((start_state [] mode1_request)\<lparr>st_plan := Some two_stops\<rparr>) = Inr s'
     \<and> (\<exists>p \<in> set (places_of s'). same_place (kept_place ''B'') p)"
proof -
  let ?s = "(start_state [] mode1_request)\<lparr>st_plan := Some two_stops\<rparr>"
  have "rq_stage (st_request ?s) = StageMode1" "kept_place ''B'' \<in> set (given_places (st_request ?s))"
    by (simp_all add: start_state_def mode1_request_def given_places_def)
  moreover from mode1_run obtain s' where run: "valid_request (st_request ?s)" "input_ok (st_request ?s)"
    "\<not> has_error ?s" "recommend_places kakao_env ?s = Inr s'" "\<not> has_error s'"
    by (auto simp: start_state_def has_error_def)
  ultimately show ?thesis using recommend_places_keeps_pinned [of ?s "kept_place ''B''" kakao_env s'] by auto
qed

lemma load_given_places_ok:
  assumes "\<not> has_error s" and "load_given_places E s = Inr s'"
  shows "(has_error s' \<and> st_retryable s' \<noteq> None)
    \<or> (st_grounded s'
       \<and> list_all2 (\<lambda>g p. same_place g p \<and> sourced p \<and> pl_day p = sp_day g)
           (given_places (st_request s)) (places_of s')
       \<and> map pl_id (places_of s') = map int [0..<length (places_of s')])"
proof (cases "given_places (st_request s) = []")
  case True
  with assms show ?thesis by (auto simp: load_given_places_def)
next
  case False
  let ?s = "s\<lparr>st_path := Some (lit ''route'')\<rparr>"
  from False assms obtain ps s1 where v: "verify_selected_places E ?s (given_places (st_request s)) = Inr (ps, s1)"
    and s': "s' = s1\<lparr>st_places := Some ps, st_grounded := \<not> has_error s1\<rparr>"
    by (auto simp: load_given_places_def bindE_Inr_iff)
  have "has_error s1 \<Longrightarrow> st_retryable s1 \<noteq> None"
    using v assms(1) by (auto simp: verify_selected_places_def has_error_def split: sum.splits option.splits if_splits)
  with verify_selected_props(2) [OF v] s' assms(1) show ?thesis
    by (auto simp: has_error_def places_of_def)
qed

text \<open>
  The route of the user's own places: when they are accepted, each has been matched with a place
  of the source, in the order the user gave, on the user's day, and the ids are the positions;
  otherwise the job carries an error and is not marked as grounded.
\<close>

theorem load_given_places_verified:
  assumes "\<not> has_error s" and "load_given_places E s = Inr s'"
  shows "(has_error s' \<and> st_retryable s' \<noteq> None)
    \<or> (st_grounded s'
       \<and> list_all2 (\<lambda>g p. same_place g p \<and> sourced p \<and> pl_day p = sp_day g)
           (given_places (st_request s)) (places_of s')
       \<and> map pl_id (places_of s') = map int [0..<length (places_of s')])"
  using assms by (rule load_given_places_ok)

theorem load_given_places_verified_witness:
  "\<exists>s'. load_given_places offline_env (start_state [] mode1_request) = Inr s' \<and> \<not> st_grounded s'
     \<and> has_error s'"
proof -
  let ?s = "start_state [] mode1_request"
  have err: "\<not> has_error ?s" by (simp add: start_state_def has_error_def)
  obtain s' where run: "load_given_places offline_env ?s = Inr s'" "\<not> st_grounded s'"
    by (simp add: load_given_places_def verify_selected_places_def start_state_def mode1_request_def
        given_places_def offline_env_def verify_caught_def is_http_error_def has_error_def)
       (simp add: update_failure_def exception_failure_def)
  with load_given_places_verified [OF err run(1)] show ?thesis by auto
qed

text \<open>
  A coordinate that is an integer too large for a float raises an exception that no handler of the
  selection lists, and a review response whose list is a number raises outside the handler.
\<close>

lemma huge_coordinate_escapes:
  "py_float pf (PInt (10 ^ 400)) = Inl OverflowError \<and> \<not> skips_candidate OverflowError
   \<and> \<not> verify_caught OverflowError"
  by (simp add: skips_candidate_def verify_caught_def is_value_error_def is_http_error_def is_runtime_error_def)

lemma odd_review_response_escapes:
  "fetch_loop (offline_env\<lparr>en_reviews := \<lambda>_ _ _. Inr (PDict [(lit ''reviews'', PInt 5)])\<rparr>)
     (march_request 1) 3 [kakao_candidate ''A''] 0 0 [] = Inl TypeError"
  by (simp add: kakao_candidate_def dget_def snippets_from_response_def response_dicts_def
      iter_or_empty_def)

end
