(* ===== verification/Reasons.thy ===== *)
theory Reasons
  imports Selection
begin

text \<open>
  The reasons for the chosen places and the clothing advice: \<open>llm_reason\<close> of
  app/nodes/agent_nodes.py. It improves a finished itinerary and must not end the job: every
  failure of the model is absorbed and only noted in \<open>degraded_reason\<close>.
\<close>

section \<open>The node\<close>

definition coverage_feedback :: pystr where
  "coverage_feedback =
     lit ''<error_feedback>'' @ [10, 0xC544, 0xB798, 32] @ lit ''<places> '' @ [0xB294, 32,
     0xC9C1, 0xC804, 32, 0xC751, 0xB2F5, 0xC5D0, 0xC11C, 32] @ lit ''reason '' @ [0xC774,
     32, 0xB204, 0xB77D, 0xB41C, 32, 0xC7A5, 0xC18C, 0xB9CC, 10, 0xCD94, 0xB9B0, 32,
     0xBAA9, 0xB85D, 0xC785, 0xB2C8, 0xB2E4] @ lit ''. '' @ [0xAC01, 32]
     @ lit ''place_id '' @ [0xC5D0, 32, 0xB300, 0xD574, 32] @ lit ''1'' @ [0xAC74, 0xC529,
     32, 0xC791, 0xC131, 0xD558, 0xC2ED, 0xC2DC, 0xC624] @ lit ''.'' @ [10]
     @ lit ''</error_feedback>'' @ [10]"

definition ask_reasons ::
    "env \<Rightarrow> place list \<Rightarrow> pystr \<Rightarrow> agent_state \<Rightarrow> (pyexn + reason_envelope) \<times> agent_state" where
  "ask_reasons E targets feedback s =
     (case build_reason_prompt E (st_request s) (weather_value (st_weather s)) targets (st_reviews s) of
        Inl e \<Rightarrow> (Inl e, s)
      | Inr (system, prompt) \<Rightarrow>
          call_structured E (parse_body E parse_reason_envelope) system (prompt @ feedback)
            (cf_max_calls (en_settings E)) s)"

text \<open>The first reason of each known place.\<close>

fun collect_reasons :: "int set \<Rightarrow> (int \<times> pystr) list \<Rightarrow> place_reason list \<Rightarrow> (int \<times> pystr) list" where
  "collect_reasons valid found [] = found"
| "collect_reasons valid found (r # rs) =
     collect_reasons valid
       (if rs_place_id r \<in> valid \<and> rs_place_id r \<notin> fst ` set found
        then found @ [(rs_place_id r, rs_reason r)] else found) rs"

definition missing_of :: "place list \<Rightarrow> (int \<times> pystr) list \<Rightarrow> place list" where
  "missing_of places reasons = filter (\<lambda>p. pl_id p \<notin> fst ` set reasons) places"

text \<open>What is kept of the answers: a partial result is noted, an empty one not stored.\<close>

definition store_reasons :: "(int \<times> pystr) list \<Rightarrow> pystr \<Rightarrow> agent_state \<Rightarrow> agent_state" where
  "store_reasons reasons clothing s =
     (let s = (if missing_of (places_of s) reasons \<noteq> []
               then s\<lparr>st_degraded := Some (lit ''reason_coverage_partial'')\<rparr> else s)
      in if reasons = [] then s else s\<lparr>st_reasons := reasons, st_clothing := Some clothing\<rparr>)"

text \<open>The single second question, about the places that got no reason; its failure changes nothing.\<close>

definition complete_reasons ::
    "env \<Rightarrow> reason_envelope \<Rightarrow> (int \<times> pystr) list \<Rightarrow> agent_state \<Rightarrow> pyexn + agent_state" where
  "complete_reasons E envelope reasons s =
     (let places = places_of s; missing = missing_of places reasons
      in if missing \<noteq> [] \<and> st_llm_used s < cf_max_calls (en_settings E)
         then (case ask_reasons E missing coverage_feedback s of
                 (Inr envelope2, s2) \<Rightarrow>
                   Inr (store_reasons
                     (collect_reasons (pl_id ` set places) reasons (re_reasons envelope2))
                     (if re_clothing envelope = [] then re_clothing envelope2 else re_clothing envelope) s2)
               | (Inl e, s2) \<Rightarrow>
                   if is_exception e then Inr (store_reasons reasons (re_clothing envelope) s2) else Inl e)
         else Inr (store_reasons reasons (re_clothing envelope) s))"

definition llm_reason :: node where
  "llm_reason E s =
     (if has_error s \<or> places_of s = [] then Inr s
      else
        (case ask_reasons E (places_of s) [] s of
           (Inr envelope, s1) \<Rightarrow>
             complete_reasons E envelope
               (collect_reasons (pl_id ` set (places_of s)) [] (re_reasons envelope)) s1
         | (Inl e, s1) \<Rightarrow>
             if e = LLMBudgetExceeded
             then Inr (s1\<lparr>st_degraded := Some (lit ''llm_budget_exhausted'')\<rparr>)
             else if is_exception e
             then Inr (s1\<lparr>st_degraded := Some (lit ''llm_reason_failed:'' @ lit (exn_name e))\<rparr>)
             else Inl e))"

section \<open>Lemmas\<close>

text \<open>What a call of the model may change of the state.\<close>

definition spent :: "nat \<Rightarrow> agent_state \<Rightarrow> agent_state \<Rightarrow> bool" where
  "spent m s s' \<longleftrightarrow> (\<exists>n us. s' = s\<lparr>st_llm_used := st_llm_used s + n, st_usage := st_usage s @ us\<rparr>
     \<and> (n = 0 \<or> st_llm_used s + n \<le> m))"

lemma spent_refl: "spent m s s"
proof -
  have "s = s\<lparr>st_llm_used := st_llm_used s + 0, st_usage := st_usage s @ []\<rparr>" by simp
  then show ?thesis unfolding spent_def by blast
qed

lemma spent_trans:
  assumes "spent m s s1" and "spent m s1 s2"
  shows "spent m s s2"
proof -
  from assms obtain n us k vs where
    "s1 = s\<lparr>st_llm_used := st_llm_used s + n, st_usage := st_usage s @ us\<rparr>"
    "n = 0 \<or> st_llm_used s + n \<le> m"
    "s2 = s1\<lparr>st_llm_used := st_llm_used s1 + k, st_usage := st_usage s1 @ vs\<rparr>"
    "k = 0 \<or> st_llm_used s1 + k \<le> m"
    unfolding spent_def by blast
  then have "s2 = s\<lparr>st_llm_used := st_llm_used s + (n + k), st_usage := st_usage s @ (us @ vs)\<rparr>
     \<and> (n + k = 0 \<or> st_llm_used s + (n + k) \<le> m)" by auto
  then show ?thesis unfolding spent_def by blast
qed

lemma spent_fields:
  assumes "spent m s s'"
  shows "st_places s' = st_places s" "st_error s' = st_error s" "st_request s' = st_request s"
    "places_of s' = places_of s" "st_degraded s' = st_degraded s" "st_reasons s' = st_reasons s"
    "st_clothing s' = st_clothing s" "st_llm_used s' \<le> max m (st_llm_used s)"
  using assms by (auto simp: spent_def places_of_def)

lemma call_structured_spent:
  assumes "call_structured E parse system prompt m s = (r, s')"
  shows "spent m s s'"
  using call_structured_frame [OF assms] unfolding spent_def by metis

lemma ask_reasons_spent: "ask_reasons E ps feedback s = (r, s') \<Longrightarrow> spent (cf_max_calls (en_settings E)) s s'"
  by (auto simp: ask_reasons_def spent_refl split: sum.splits prod.splits dest: call_structured_spent)

lemma ask_reasons_valid:
  assumes "ask_reasons E ps feedback s = (Inr envelope, s')"
  shows "valid_reason_envelope envelope"
proof -
  from assms obtain system prompt where
    "call_structured E (parse_body E parse_reason_envelope) system (prompt @ feedback)
       (cf_max_calls (en_settings E)) s = (Inr envelope, s')"
    by (auto simp: ask_reasons_def split: sum.splits prod.splits)
  from call_structured_parsed [OF this] show ?thesis
    by (auto simp: parse_body_def bind_eq_Some_conv dest: parse_reason_envelope_valid)
qed

definition reasons_ok :: "place list \<Rightarrow> (int \<times> pystr) list \<Rightarrow> bool" where
  "reasons_ok ps rs \<longleftrightarrow> distinct (map fst rs) \<and> fst ` set rs \<subseteq> pl_id ` set ps
     \<and> (\<forall>(i, t) \<in> set rs. 1 \<le> length t \<and> length t \<le> 200 \<and> text_ok t)"

lemma collect_reasons_ok:
  "reasons_ok ps found \<Longrightarrow> \<forall>r \<in> set rs. valid_reason r
   \<Longrightarrow> reasons_ok ps (collect_reasons (pl_id ` set ps) found rs)"
proof (induction rs arbitrary: found)
  case (Cons r rs)
  have "reasons_ok ps (if rs_place_id r \<in> pl_id ` set ps \<and> rs_place_id r \<notin> fst ` set found
      then found @ [(rs_place_id r, rs_reason r)] else found)"
    using Cons.prems by (auto simp: reasons_ok_def valid_reason_def)
  then show ?case using Cons.prems(2) by (simp add: Cons.IH)
qed simp

lemma store_reasons_fields:
  "st_error (store_reasons rs c s) = st_error s" "st_places (store_reasons rs c s) = st_places s"
  "st_order (store_reasons rs c s) = st_order s" "st_legs (store_reasons rs c s) = st_legs s"
  "st_timeline (store_reasons rs c s) = st_timeline s" "st_llm_used (store_reasons rs c s) = st_llm_used s"
  "st_request (store_reasons rs c s) = st_request s"
  by (simp_all add: store_reasons_def Let_def)

lemma missing_of_Nil: "missing_of ps rs = [] \<longleftrightarrow> pl_id ` set ps \<subseteq> fst ` set rs"
  by (auto simp: missing_of_def filter_empty_conv)

lemma spent_more_fields:
  assumes "spent m s s'"
  shows "st_order s' = st_order s" "st_legs s' = st_legs s" "st_timeline s' = st_timeline s"
    "has_error s' = has_error s"
  using assms by (auto simp: spent_def has_error_def)

lemma complete_reasons_result:
  assumes "reasons_ok (places_of s) rs" and "valid_reason_envelope envelope"
  shows "(\<exists>s2 rs' c. complete_reasons E envelope rs s = Inr (store_reasons rs' c s2)
      \<and> spent (cf_max_calls (en_settings E)) s s2 \<and> reasons_ok (places_of s) rs')
    \<or> complete_reasons E envelope rs s = Inl CancelledError"
proof (cases "missing_of (places_of s) rs \<noteq> [] \<and> st_llm_used s < cf_max_calls (en_settings E)")
  case True
  obtain r s2 where ask: "ask_reasons E (missing_of (places_of s) rs) coverage_feedback s = (r, s2)"
    by fastforce
  note sp = ask_reasons_spent [OF ask]
  show ?thesis
  proof (cases r)
    case (Inl e)
    with True ask assms(1) sp show ?thesis
      by (cases "e = CancelledError") (auto simp: complete_reasons_def Let_def is_exception_def)
  next
    case (Inr e2)
    with ask have "valid_reason_envelope e2" by (auto intro: ask_reasons_valid)
    then have "reasons_ok (places_of s) (collect_reasons (pl_id ` set (places_of s)) rs (re_reasons e2))"
      using assms(1) by (intro collect_reasons_ok) (auto simp: valid_reason_envelope_def)
    with Inr True ask sp show ?thesis by (auto simp: complete_reasons_def Let_def)
  qed
next
  case False
  with assms(1) spent_refl show ?thesis by (auto simp: complete_reasons_def Let_def)
qed

text \<open>The four ways the node ends.\<close>

lemma llm_reason_cases:
  obtains (skipped) "has_error s \<or> places_of s = []" "llm_reason E s = Inr s"
  | (cancelled) "llm_reason E s = Inl CancelledError"
  | (degraded) s1 why where "llm_reason E s = Inr (s1\<lparr>st_degraded := Some why\<rparr>)"
      "spent (cf_max_calls (en_settings E)) s s1" "\<not> has_error s" "places_of s \<noteq> []"
  | (answered) s1 rs c where "llm_reason E s = Inr (store_reasons rs c s1)"
      "spent (cf_max_calls (en_settings E)) s s1" "reasons_ok (places_of s) rs"
      "\<not> has_error s" "places_of s \<noteq> []"
proof (cases "has_error s \<or> places_of s = []")
  case True
  then show ?thesis using that(1) by (simp add: llm_reason_def)
next
  case False
  obtain r s1 where ask: "ask_reasons E (places_of s) [] s = (r, s1)" by fastforce
  note sp = ask_reasons_spent [OF ask]
  show ?thesis
  proof (cases r)
    case (Inl e)
    show ?thesis
    proof (cases "e = CancelledError")
      case True
      then show ?thesis using False ask Inl that(2) by (simp add: llm_reason_def is_exception_def)
    next
      case no: False
      have "\<exists>why. llm_reason E s = Inr (s1\<lparr>st_degraded := Some why\<rparr>)"
        using False ask Inl no by (auto simp: llm_reason_def is_exception_def)
      then show ?thesis using that(3) sp False by blast
    qed
  next
    case (Inr envelope)
    let ?rs = "collect_reasons (pl_id ` set (places_of s)) [] (re_reasons envelope)"
    have val: "valid_reason_envelope envelope" using ask Inr by (auto intro: ask_reasons_valid)
    then have "reasons_ok (places_of s1) ?rs"
      unfolding spent_fields(4) [OF sp]
      by (intro collect_reasons_ok) (auto simp: valid_reason_envelope_def reasons_ok_def)
    from complete_reasons_result [OF this val, of E] show ?thesis
      using False ask Inr that(2,4) spent_trans [OF sp] spent_fields(4) [OF sp]
      by (auto simp: llm_reason_def)
  qed
qed

text \<open>The views of places always exist, so a question about them can always be asked.\<close>

lemma place_view_Inr: "\<exists>v. place_view reviews p = Inr v"
  by (cases "pl_content_id p") (simp_all add: place_view_def snippets_for_def opt_text_def)

lemma build_reason_prompt_Inr: "\<exists>system prompt. build_reason_prompt E r w ps reviews = Inr (system, prompt)"
proof -
  have "\<exists>vs. mapE (place_view reviews) ps = Inr vs"
    using place_view_Inr by (induction ps) (auto, metis bindE_simps(2))
  then show ?thesis by (auto simp: build_reason_prompt_def Let_def)
qed

section \<open>The contract of the node\<close>

interpretation llm_reason: pipeline_node llm_reason
proof
  fix E s s'
  assume run: "llm_reason E s = Inr s'"
  have sp: "tame (cf_max_calls (en_settings E)) s t" if "spent (cf_max_calls (en_settings E)) s t" for t
    using that by (auto simp: spent_def tame_def coded_def)
  show "tame (cf_max_calls (en_settings E)) s s'"
  proof (cases rule: llm_reason_cases [of s E])
    case (degraded s1 why)
    have "tame (cf_max_calls (en_settings E)) s1 s'" using degraded(1) run by (auto intro!: tame_fields)
    with sp [OF degraded(2)] show ?thesis by (rule tame_trans)
  next
    case (answered s1 rs c)
    have "tame (cf_max_calls (en_settings E)) s1 s'"
      using answered(1) run by (auto intro!: tame_fields simp: store_reasons_def Let_def)
    with sp [OF answered(2)] show ?thesis by (rule tame_trans)
  qed (use run in auto)
qed

section \<open>Properties\<close>

text \<open>
  C37: The reasons only improve a finished job: whatever the model or the transport does, the only
  exception that leaves the node is a cancellation. Otherwise no error is set, places, order, legs
  and timeline stay, the budget of calls holds, and the reasons stored, if any, belong to places of
  the itinerary, one each, with texts of 1 to 200 characters free of tags and control characters.
\<close>

theorem llm_reason_enhances:
  "case llm_reason E s of
     Inl e \<Rightarrow> e = CancelledError
   | Inr s' \<Rightarrow> st_error s' = st_error s \<and> st_places s' = st_places s \<and> st_order s' = st_order s
       \<and> st_legs s' = st_legs s \<and> st_timeline s' = st_timeline s
       \<and> st_llm_used s' \<le> max (cf_max_calls (en_settings E)) (st_llm_used s)
       \<and> (st_reasons s' = st_reasons s \<or> reasons_ok (places_of s) (st_reasons s'))"
proof (cases rule: llm_reason_cases [of s E])
  case (degraded s1 why)
  then show ?thesis using spent_fields [OF degraded(2)] spent_more_fields [OF degraded(2)] by simp
next
  case (answered s1 rs c)
  have "st_reasons (store_reasons rs c s1) = st_reasons s \<or> st_reasons (store_reasons rs c s1) = rs"
    using spent_fields [OF answered(2)] by (simp add: store_reasons_def Let_def)
  with answered spent_fields [OF answered(2)] spent_more_fields [OF answered(2)]
  show ?thesis by (auto simp: store_reasons_fields)
qed simp_all

text \<open>
  The note that the result is degraded is exact: it is absent if and only if every place of the
  itinerary got a reason.
\<close>

theorem llm_reason_degraded_iff:
  assumes "llm_reason E s = Inr s'" and "\<not> has_error s" and "places_of s \<noteq> []"
    and "st_degraded s = None" and "st_reasons s = []"
  shows "st_degraded s' = None \<longleftrightarrow> fst ` set (st_reasons s') = pl_id ` set (places_of s)"
proof (cases rule: llm_reason_cases [of s E])
  case (degraded s1 why)
  then show ?thesis using assms spent_fields [OF degraded(2)] by auto
next
  case (answered s1 rs c)
  note f = spent_fields [OF answered(2)]
  have s': "s' = store_reasons rs c s1" using assms(1) answered(1) by simp
  have "st_degraded s' = None \<longleftrightarrow> missing_of (places_of s) rs = []"
    using assms(4) f by (simp add: s' store_reasons_def Let_def)
  moreover have "st_reasons s' = rs"
    using assms(5) f by (simp add: s' store_reasons_def Let_def)
  ultimately show ?thesis using answered(3) by (auto simp: missing_of_Nil reasons_ok_def)
qed (use assms in auto)

theorem llm_reason_degraded_iff_witness:
  "\<exists>s'. llm_reason offline_env ((start_state [] (march_request 1))\<lparr>st_places := Some [sample_place 0 1]\<rparr>) = Inr s'
     \<and> st_degraded s' \<noteq> None \<and> fst ` set (st_reasons s') \<noteq> {0}"
proof -
  let ?s = "(start_state [] (march_request 1))\<lparr>st_places := Some [sample_place 0 1]\<rparr>"
  have s: "\<not> has_error ?s" "places_of ?s = [sample_place 0 1]" "st_degraded ?s = None" "st_reasons ?s = []"
    by (simp_all add: start_state_def has_error_def places_of_def)
  obtain system prompt where "build_reason_prompt offline_env (st_request ?s) (weather_value (st_weather ?s))
      (places_of ?s) (st_reviews ?s) = Inr (system, prompt)"
    using build_reason_prompt_Inr by blast
  then obtain s1 where "ask_reasons offline_env (places_of ?s) [] ?s = (Inl AsyncTimeoutError, s1)"
    by (simp add: ask_reasons_def call_structured_def consume_budget_def call_inner_def Let_def
        generate_structured_def offline_env_def default_settings_def start_state_def)
  then obtain s' where run: "llm_reason offline_env ?s = Inr s'" "st_degraded s' \<noteq> None"
    using s by (auto simp: llm_reason_def is_exception_def)
  with llm_reason_degraded_iff [OF run(1)] s show ?thesis by auto
qed

end
