(* ===== verification/Publish.thy ===== *)
theory Publish
  imports Timeline Reasons
begin

text \<open>
  The end of a job: merging the results into the places (\<open>build_payload\<close>), the training signal
  (\<open>_training_signal\<close>), the payload (\<open>publish_done\<close>, all of app/nodes/agent_nodes.py) and the message
  that \<open>StreamsPublisher.publish\<close> of app/clients/agent_clients.py adds to the stream.
\<close>

section \<open>Merging\<close>

definition merge_slot :: "slot \<Rightarrow> place \<Rightarrow> place" where
  "merge_slot sl p =
     (let p = p\<lparr>pl_stay_minutes := Some (sl_stay sl), pl_visit_start := Some (sl_start sl),
                pl_visit_end := Some (sl_end sl)\<rparr>
      in case sl_source sl of None \<Rightarrow> p | Some src \<Rightarrow> p\<lparr>pl_stay_source := Some src\<rparr>)"

definition merge_place :: "agent_state \<Rightarrow> place \<Rightarrow> place" where
  "merge_place s p =
     (let p1 = (case map_of (st_reasons s) (pl_id p) of None \<Rightarrow> p | Some t \<Rightarrow> p\<lparr>pl_reason := Some t\<rparr>);
          p2 = (case map_of (st_summaries s) (pl_id p) of
                  None \<Rightarrow> p1 | Some bs \<Rightarrow> p1\<lparr>pl_bullets := Some bs\<rparr>)
      in case map_of (st_timeline s) (pl_id p) of None \<Rightarrow> p2 | Some sl \<Rightarrow> merge_slot sl p2)"

definition build_payload :: node where
  "build_payload E s =
     (if has_error s then Inr s
      else if (st_reasons s \<noteq> [] \<or> st_summaries s \<noteq> [] \<or> st_timeline s \<noteq> []) \<and> places_of s \<noteq> []
      then Inr (s\<lparr>st_places := Some (map (merge_place s) (places_of s))\<rparr>)
      else Inr s)"

section \<open>The training signal\<close>

definition training_schema_version :: int where
  "training_schema_version = 2"

definition candidate_signal :: "nat \<times> pydict \<Rightarrow> pyval" where
  "candidate_signal ic =
     PDict ((lit ''rank'', PInt (int (fst ic)))
       # map (\<lambda>k. (lit k, dget (snd ic) k))
           [''content_id'', ''name'', ''category'', ''category_group_code'', ''lat'', ''lng''])"

definition chosen_ids :: "place list \<Rightarrow> pyval list" where
  "chosen_ids ps = List.map_filter
     (\<lambda>p. case pl_content_id p of None \<Rightarrow> None | Some c \<Rightarrow> if c = [] then None else Some (PStr c)) ps"

definition opt_int :: "int option \<Rightarrow> pyval" where
  "opt_int v = (case v of None \<Rightarrow> PNone | Some n \<Rightarrow> PInt n)"

definition usage_signal :: "usage \<Rightarrow> pyval" where
  "usage_signal u =
     PDict [(lit ''prompt'', opt_int (us_prompt u)), (lit ''output'', opt_int (us_output u)),
            (lit ''total'', opt_int (us_total u))]"

definition sum_tokens :: "(usage \<Rightarrow> int option) \<Rightarrow> usage list \<Rightarrow> int" where
  "sum_tokens f us = sum_list (map (\<lambda>u. case f u of None \<Rightarrow> 0 | Some n \<Rightarrow> n) us)"

text \<open>How \<open>json.dumps\<close> writes the key of a dictionary.\<close>

fun json_key :: "env \<Rightarrow> pyval \<Rightarrow> pystr" where
  "json_key E (PStr s) = s"
| "json_key E PNone = lit ''null''"
| "json_key E v = json_text (en_frepr E) v"

definition training_fields :: "env \<Rightarrow> agent_state \<Rightarrow> pystr \<Rightarrow> (pystr \<times> pyval) list" where
  "training_fields E s path =
     [(lit ''schema_version'', PInt training_schema_version),
      (lit ''path'', PStr path),
      (lit ''grounded'', PBool (st_grounded s)),
      (lit ''model'', PStr (cf_model (en_settings E))),
      (lit ''candidate_count'', PInt (int (length (st_candidates s)))),
      (lit ''candidates'', PList (map candidate_signal (enumerate 0 (st_candidates s)))),
      (lit ''chosen_content_ids'', PList (chosen_ids (places_of s))),
      (lit ''request'', safe_request_view (st_request s)),
      (lit ''ranking_config'', PDict
         [(lit ''personalization_enabled'', PBool (cf_personalization (en_settings E))),
          (lit ''rules_enabled'', PBool (cf_rules (en_settings E)))])]
     @ (if st_scores s = [] then []
        else [(lit ''scores_pre_cap'',
               PDict (map (\<lambda>kv. (json_key E (fst kv), PFloat (snd kv))) (st_scores s)))])
     @ (if st_usage s = [] then []
        else [(lit ''llm_usage'', PList (map usage_signal (st_usage s))),
              (lit ''llm_tokens'', PDict
                 [(lit ''calls'', PInt (int (length (st_usage s)))),
                  (lit ''prompt'', PInt (sum_tokens us_prompt (st_usage s))),
                  (lit ''output'', PInt (sum_tokens us_output (st_usage s))),
                  (lit ''total'', PInt (sum_tokens us_total (st_usage s)))])])"

definition training_signal :: "env \<Rightarrow> agent_state \<Rightarrow> pystr option" where
  "training_signal E s =
     (if \<not> cf_training (en_settings E) \<or> has_error s then None
      else case st_path s of
          None \<Rightarrow> None
        | Some path \<Rightarrow>
            if path = [] then None
            else Some (json_text (en_frepr E) (PDict (training_fields E s path))))"

section \<open>The message\<close>

text \<open>
  The length of the UTF-8 form; a lone surrogate has none, and encoding it raises
  \<open>UnicodeEncodeError\<close>, a subclass of \<open>ValueError\<close>.
\<close>

definition utf8_char :: "nat \<Rightarrow> nat option" where
  "utf8_char c =
     (if c < 0x80 then Some 1 else if c < 0x800 then Some 2
      else if 0xD800 \<le> c \<and> c < 0xE000 then None
      else if c < 0x10000 then Some 3 else Some 4)"

definition utf8_length :: "pystr \<Rightarrow> pyexn + nat" where
  "utf8_length t =
     bindE (mapE (\<lambda>c. case utf8_char c of None \<Rightarrow> Inl ValueError | Some n \<Rightarrow> Inr n) t)
       (\<lambda>ns. Inr (sum_list ns))"

definition training_field_max :: nat where
  "training_field_max = 256 * 1024"

record message =
  ms_job :: pystr
  ms_status :: job_status
  ms_payload :: pystr
  ms_training :: "pystr option"
  ms_maxlen :: "int option"

text \<open>
  The stream and what the publisher is built with: the JSON text pydantic gives a payload, the
  sealing of the body when a key is set, the bound on the stream's length, and \<open>XADD\<close>.
\<close>

record publisher =
  pb_dump :: "payload \<Rightarrow> pyexn + pystr"
  pb_seal :: "(pystr \<Rightarrow> pyexn + pystr) option"
  pb_maxlen :: int
  pb_xadd :: "message \<Rightarrow> pyexn + pystr"

definition training_field :: "env \<Rightarrow> pystr option \<Rightarrow> pyexn + pystr option" where
  "training_field E training =
     (case training of
        None \<Rightarrow> Inr None
      | Some t \<Rightarrow>
          if \<not> cf_training (en_settings E) \<or> t = [] then Inr None
          else bindE (utf8_length t) (\<lambda>n. Inr (if n \<le> training_field_max then Some t else None)))"

text \<open>The message that reached the stream.\<close>

definition publish ::
    "publisher \<Rightarrow> env \<Rightarrow> pystr \<Rightarrow> job_status \<Rightarrow> pystr \<Rightarrow> pystr option \<Rightarrow> pyexn + message" where
  "publish P E job status payload_json training =
     bindE (case pb_seal P of None \<Rightarrow> Inr payload_json | Some seal \<Rightarrow> seal payload_json) (\<lambda>body.
     bindE (training_field E training) (\<lambda>tr.
       (let m = \<lparr>ms_job = job, ms_status = status, ms_payload = body, ms_training = tr,
                 ms_maxlen = (if 0 < pb_maxlen P then Some (pb_maxlen P) else None)\<rparr>
        in bindE (pb_xadd P m) (\<lambda>_. Inr m))))"

section \<open>The last node\<close>

definition code_or :: "string \<Rightarrow> pystr option \<Rightarrow> pystr" where
  "code_or dflt c = (case c of None \<Rightarrow> lit dflt | Some t \<Rightarrow> t)"

definition done_payload :: "agent_state \<Rightarrow> pyexn + payload" where
  "done_payload s =
     bindE (need KeyError (st_places s)) (\<lambda>places.
     bindE (need KeyError (st_order s)) (\<lambda>order.
     bindE (need KeyError (st_legs s)) (\<lambda>legs.
       Inr \<lparr>jp_job_id = st_job s, jp_status = Done, jp_places = Some places,
            jp_visit_order = Some order, jp_legs = Some legs, jp_clothing = st_clothing s,
            jp_timeline_status = st_tl_status s,
            jp_warnings = (if st_warnings s = [] then None else Some (st_warnings s)),
            jp_error = None, jp_code = None, jp_retryable = None\<rparr>)))"

definition final_payload :: "agent_state \<Rightarrow> pyexn + payload" where
  "final_payload s =
     (if has_error s
      then Inr (failed_payload (st_job s) (code_or ''generation_failed'' (st_code s))
                  (case st_retryable s of None \<Rightarrow> False | Some b \<Rightarrow> b))
      else done_payload s)"

definition publish_done :: "publisher \<Rightarrow> env \<Rightarrow> agent_state \<Rightarrow> pyexn + payload \<times> message" where
  "publish_done P E s =
     bindE (final_payload s) (\<lambda>payload.
     bindE (pb_dump P payload) (\<lambda>text.
     bindE (publish P E (st_job s) (jp_status payload) text (training_signal E s)) (\<lambda>m.
       Inr (payload, m))))"

section \<open>Lemmas\<close>

lemma merge_slot_fields [simp]:
  "pl_id (merge_slot sl p) = pl_id p" "pl_day (merge_slot sl p) = pl_day p"
  "pl_lat (merge_slot sl p) = pl_lat p" "pl_lng (merge_slot sl p) = pl_lng p"
  "pl_reason (merge_slot sl p) = pl_reason p" "pl_bullets (merge_slot sl p) = pl_bullets p"
  by (simp_all add: merge_slot_def Let_def split: option.splits)

lemma merge_place_fields [simp]:
  "pl_id (merge_place s p) = pl_id p" "pl_day (merge_place s p) = pl_day p"
  "pl_lat (merge_place s p) = pl_lat p" "pl_lng (merge_place s p) = pl_lng p"
  by (simp_all add: merge_place_def Let_def split: option.splits)

lemma merge_place_reason:
  "map_of (st_reasons s) (pl_id p) = Some t \<Longrightarrow> pl_reason (merge_place s p) = Some t"
  by (simp add: merge_place_def Let_def split: option.splits)

lemma merge_place_times:
  "map_of (st_timeline s) (pl_id p) = Some sl
   \<Longrightarrow> pl_visit_start (merge_place s p) = Some (sl_start sl) \<and> pl_visit_end (merge_place s p) = Some (sl_end sl)
      \<and> pl_stay_minutes (merge_place s p) = Some (sl_stay sl)"
  by (simp add: merge_place_def merge_slot_def Let_def split: option.splits)

text \<open>The places of the state after merging, whether or not there was anything to merge.\<close>

lemma merge_place_nothing:
  "st_reasons s = [] \<Longrightarrow> st_summaries s = [] \<Longrightarrow> st_timeline s = [] \<Longrightarrow> merge_place s p = p"
  by (simp add: merge_place_def Let_def)

lemma build_payload_run:
  assumes "\<not> has_error s"
  shows "build_payload E s = Inr (s\<lparr>st_places := map_option (map (merge_place s)) (st_places s)\<rparr>)"
proof (cases "(st_reasons s \<noteq> [] \<or> st_summaries s \<noteq> [] \<or> st_timeline s \<noteq> []) \<and> places_of s \<noteq> []")
  case True
  then show ?thesis using assms by (auto simp: build_payload_def places_of_def split: option.splits)
next
  case False
  then have "map (merge_place s) (places_of s) = places_of s"
    using merge_place_nothing [of s] by (auto simp: map_idI)
  then have "map_option (map (merge_place s)) (st_places s) = st_places s"
    by (auto simp: places_of_def split: option.splits)
  then show ?thesis using assms False by (simp only: build_payload_def if_False) simp
qed

lemma mapE_Inl_member:
  "x \<in> set xs \<Longrightarrow> (\<And>y. y \<in> set xs \<Longrightarrow> f y = Inl e \<or> (\<exists>v. f y = Inr v)) \<Longrightarrow> f x = Inl e \<Longrightarrow> mapE f xs = Inl e"
proof (induction xs)
  case (Cons y ys)
  then show ?case by (cases "f y = Inl e") fastforce+
qed simp

text \<open>A lone surrogate anywhere in the signal has no UTF-8 form.\<close>

lemma utf8_length_surrogate:
  assumes "c \<in> set t" and "0xD800 \<le> c" and "c < 0xE000"
  shows "utf8_length t = Inl ValueError"
proof -
  have "mapE (\<lambda>c. case utf8_char c of None \<Rightarrow> Inl ValueError | Some n \<Rightarrow> Inr n) t = Inl ValueError"
    by (rule mapE_Inl_member [OF assms(1)]) (use assms in \<open>auto simp: utf8_char_def split: option.splits\<close>)
  then show ?thesis by (simp add: utf8_length_def)
qed

lemma publish_message:
  "publish P E job status text training = Inr m
   \<Longrightarrow> ms_job m = job \<and> ms_status m = status \<and> training_field E training = Inr (ms_training m)
      \<and> (case pb_seal P of None \<Rightarrow> Inr text | Some seal \<Rightarrow> seal text) = Inr (ms_payload m)"
  by (auto simp: publish_def bindE_Inr_iff Let_def)

lemma training_signal_Some: "training_signal E s = Some t \<Longrightarrow> \<not> has_error s \<and> st_path s \<noteq> None"
  by (auto simp: training_signal_def split: if_splits option.splits)

lemma training_field_small:
  "training_field E training = Inr (Some t)
   \<Longrightarrow> training = Some t \<and> cf_training (en_settings E) \<and> (\<exists>n. utf8_length t = Inr n \<and> n \<le> training_field_max)"
  by (auto simp: training_field_def bindE_Inr_iff split: option.splits if_splits)

lemma map_of_visits:
  "map_of (with_sources source (map (time_texts stay) vs)) i =
     map_option (\<lambda>v. \<lparr>sl_stay = stay i, sl_start = minutes_to_hhmm (vs_start v),
                        sl_end = minutes_to_hhmm (vs_end v), sl_source = Some (source i)\<rparr>)
       (find (\<lambda>v. vs_id v = i) vs)"
  by (induction vs) (auto simp: with_sources_def time_texts_def)

text \<open>
  \<open>merged s vs stay source p q\<close>: \<open>q\<close> is the place \<open>p\<close> with the reason of its own id, the times
  of the visit that has its id, and in every other field, the coordinates among them, what it was;
  a place without a reason or without a visit keeps those fields too.
\<close>

definition merged :: "agent_state \<Rightarrow> visit list \<Rightarrow> (int \<Rightarrow> int) \<Rightarrow> (int \<Rightarrow> pystr) \<Rightarrow> place \<Rightarrow> place \<Rightarrow> bool" where
  "merged s vs stay source p q \<longleftrightarrow>
     q\<lparr>pl_reason := pl_reason p, pl_stay_minutes := pl_stay_minutes p, pl_visit_start := pl_visit_start p,
        pl_visit_end := pl_visit_end p, pl_stay_source := pl_stay_source p\<rparr> = p
     \<and> (\<forall>t. (pl_id p, t) \<in> set (st_reasons s) \<longrightarrow> pl_reason q = Some t)
     \<and> (pl_id p \<notin> fst ` set (st_reasons s) \<longrightarrow> pl_reason q = pl_reason p)
     \<and> (case find (\<lambda>v. vs_id v = pl_id p) vs of
          None \<Rightarrow> pl_stay_minutes q = pl_stay_minutes p \<and> pl_visit_start q = pl_visit_start p
            \<and> pl_visit_end q = pl_visit_end p \<and> pl_stay_source q = pl_stay_source p
        | Some v \<Rightarrow> pl_stay_minutes q = Some (stay (pl_id p))
            \<and> pl_visit_start q = Some (minutes_to_hhmm (vs_start v))
            \<and> pl_visit_end q = Some (minutes_to_hhmm (vs_end v))
            \<and> pl_stay_source q = Some (source (pl_id p)))"

lemma merge_place_merged:
  assumes "distinct (map fst (st_reasons s))" and "st_summaries s = []"
    and "st_timeline s = with_sources source (map (time_texts stay) vs)"
  shows "merged s vs stay source p (merge_place s p)"
proof (cases "map_of (st_reasons s) (pl_id p)")
  case None
  then have "pl_id p \<notin> fst ` set (st_reasons s)" by (simp add: map_of_eq_None_iff)
  moreover from this have "(pl_id p, t) \<notin> set (st_reasons s)" for t by force
  ultimately show ?thesis using None assms(2,3)
    by (simp add: merged_def merge_place_def merge_slot_def map_of_visits split: option.split)
next
  case (Some t)
  then have "t' = t" if "(pl_id p, t') \<in> set (st_reasons s)" for t'
    using that assms(1) by (metis map_of_is_SomeI option.inject)
  moreover have "pl_id p \<in> fst ` set (st_reasons s)" using map_of_SomeD [OF Some] by force
  ultimately show ?thesis using Some assms(2,3)
    by (simp add: merged_def merge_place_def merge_slot_def map_of_visits split: option.split)
qed

section \<open>The contract of the node\<close>

interpretation build_payload: quiet_node build_payload
  by unfold_locales (auto simp: build_payload_def intro!: tame_fields split: if_splits)

section \<open>Properties\<close>

text \<open>
  C38: Merging keeps the itinerary and the schema: every place stands where it stood, with every
  field but the reason and the visit as it was (its id, day, name and coordinates among them), shows
  the reason given for its own id and the stay, the start and end in clock time and the source of
  the visit with its own id, and is still a valid place although \<open>model_copy\<close> validates nothing,
  provided the stay times the hub gave lie within a day and its source names within their length.
\<close>

theorem build_payload_valid:
  assumes "\<not> has_error s" and "st_places s = Some ps" and "\<forall>p \<in> set ps. valid_place p"
    and "reasons_ok ps (st_reasons s)" and "st_summaries s = []"
    and "st_timeline s = with_sources source (map (time_texts stay) vs)"
    and "\<forall>i. 0 \<le> stay i \<and> stay i \<le> 1440 \<and> length (source i) \<le> 16"
  shows "\<exists>s'. build_payload E s = Inr s' \<and> (\<forall>p \<in> set (places_of s'). valid_place p)
    \<and> map pl_id (places_of s') = map pl_id ps \<and> map pl_day (places_of s') = map pl_day ps
    \<and> (\<forall>p \<in> set (places_of s'). (\<forall>t. (pl_id p, t) \<in> set (st_reasons s) \<longrightarrow> pl_reason p = Some t))
    \<and> list_all2 (merged s vs stay source) ps (places_of s')"
proof -
  let ?qs = "map (merge_place s) ps"
  have hhmm: "length (minutes_to_hhmm m) \<le> 5" for m
    by (simp add: minutes_to_hhmm_length)
  have "valid_place (merge_place s p)" if "p \<in> set ps" for p
  proof -
    have v: "valid_place p" using assms(3) that by blast
    have r: "1 \<le> length t \<and> length t \<le> 200 \<and> text_ok t" if "map_of (st_reasons s) i = Some t" for i t
      using assms(4) map_of_SomeD [OF that] by (auto simp: reasons_ok_def)
    have sl: "\<exists>v. sl = (snd (time_texts stay v))\<lparr>sl_source := Some (source i)\<rparr>"
      if "map_of (st_timeline s) i = Some sl" for i sl
      using map_of_SomeD [OF that] assms(6) by (auto simp: with_sources_def time_texts_def)
    show ?thesis
      using v r [of "pl_id p"] sl [of "pl_id p"] assms(5,7) hhmm
      by (auto simp: merge_place_def merge_slot_def valid_place_def time_texts_def Let_def
          split: option.splits)
  qed
  moreover have "pl_reason (merge_place s p) = Some t" if "(pl_id p, t) \<in> set (st_reasons s)" for p t
    using that assms(4) by (intro merge_place_reason) (simp add: reasons_ok_def)
  ultimately have "(\<forall>p \<in> set ?qs. valid_place p) \<and> map pl_id ?qs = map pl_id ps
      \<and> map pl_day ?qs = map pl_day ps
      \<and> (\<forall>p \<in> set ?qs. \<forall>t. (pl_id p, t) \<in> set (st_reasons s) \<longrightarrow> pl_reason p = Some t)"
    by (auto simp: comp_def)
  moreover have "list_all2 (merged s vs stay source) ps ?qs"
    using assms(4-6) merge_place_merged by (auto simp: list.rel_map list.rel_refl reasons_ok_def)
  ultimately show ?thesis
    using build_payload_run [OF assms(1)] assms(2) by (auto simp: places_of_def)
qed

lemma text_ok_ascii: "\<forall>c \<in> set t. 32 \<le> c \<and> c \<le> 57 \<Longrightarrow> text_ok t"
  by (fastforce simp: text_ok_def forbidden_text_char_def)

lemma sample_place_valid: "valid_place (sample_place 0 1)"
proof -
  have "text_ok (lit ''P'')" "text_ok (lit ''P'' @ int_text 0)" "text_ok (lit ''kakao'')"
    by (simp_all add: text_ok_def forbidden_text_char_def lit_def int_text_def nat_digits.simps)
  then show ?thesis by (simp add: valid_place_def sample_place_def text_ok_ascii lit_def)
qed

definition reasoned_state :: agent_state where
  "reasoned_state = (start_state [] (march_request 1))\<lparr>st_places := Some [sample_place 0 1],
     st_reasons := [(0, lit ''quiet'')], st_timeline := with_sources (\<lambda>_. lit ''default'')
       (map (time_texts (\<lambda>_. 60)) [\<lparr>vs_id = 0, vs_day = 1, vs_start = 540, vs_end = 600\<rparr>])\<rparr>"

theorem build_payload_valid_witness:
  "\<exists>s'. build_payload offline_env reasoned_state = Inr s'
     \<and> (\<forall>p \<in> set (places_of s'). valid_place p) \<and> map pl_id (places_of s') = [0]
     \<and> map pl_reason (places_of s') = [Some (lit ''quiet'')] \<and> map pl_lat (places_of s') = [37]
     \<and> map pl_visit_start (places_of s') = [Some (minutes_to_hhmm 540)]"
proof -
  let ?vs = "[\<lparr>vs_id = 0, vs_day = 1, vs_start = 540, vs_end = 600\<rparr>]"
  have "\<not> has_error reasoned_state" "st_places reasoned_state = Some [sample_place 0 1]"
    "st_summaries reasoned_state = []"
    "st_timeline reasoned_state = with_sources (\<lambda>_. lit ''default'') (map (time_texts (\<lambda>_. 60)) ?vs)"
    by (simp_all add: reasoned_state_def start_state_def has_error_def)
  moreover have "reasons_ok [sample_place 0 1] (st_reasons reasoned_state)"
    by (simp add: reasoned_state_def reasons_ok_def lit_def text_ok_def forbidden_text_char_def)
  moreover have "\<forall>i. 0 \<le> (60 :: int) \<and> (60 :: int) \<le> 1440 \<and> length (lit ''default'') \<le> 16"
    by (simp add: lit_def)
  moreover have "\<forall>p \<in> set [sample_place 0 1]. valid_place p" using sample_place_valid by simp
  ultimately have "\<exists>s'. build_payload offline_env reasoned_state = Inr s'
      \<and> (\<forall>p \<in> set (places_of s'). valid_place p) \<and> map pl_id (places_of s') = map pl_id [sample_place 0 1]
      \<and> map pl_day (places_of s') = map pl_day [sample_place 0 1]
      \<and> (\<forall>p \<in> set (places_of s'). \<forall>t. (pl_id p, t) \<in> set (st_reasons reasoned_state) \<longrightarrow> pl_reason p = Some t)
      \<and> list_all2 (merged reasoned_state ?vs (\<lambda>_. 60) (\<lambda>_. lit ''default'')) [sample_place 0 1] (places_of s')"
    by (intro build_payload_valid)
  moreover have "merged reasoned_state ?vs (\<lambda>_. 60) (\<lambda>_. lit ''default'') (sample_place 0 1) q
      \<Longrightarrow> pl_reason q = Some (lit ''quiet'') \<and> pl_lat q = 37
        \<and> pl_visit_start q = Some (minutes_to_hhmm 540)" for q
    by (auto simp: merged_def reasoned_state_def dest: arg_cong [where f = pl_lat])
  ultimately show ?thesis by (fastforce simp: list_all2_Cons1)
qed

text \<open>
  C39: The message on the stream is the payload, sealed when a key is set, under the job's id and
  status; the training signal never changes it. It is attached only when capturing is on and the
  job succeeded with a known selection path, and never takes more than 256 KiB.
\<close>

theorem publish_done_message:
  assumes "publish_done P E s = Inr (payload, m)"
  shows "final_payload s = Inr payload \<and> ms_job m = st_job s \<and> ms_status m = jp_status payload
    \<and> bindE (pb_dump P payload) (\<lambda>t. case pb_seal P of None \<Rightarrow> Inr t | Some seal \<Rightarrow> seal t) = Inr (ms_payload m)
    \<and> (case ms_training m of None \<Rightarrow> True
       | Some t \<Rightarrow> cf_training (en_settings E) \<and> \<not> has_error s \<and> st_path s \<noteq> None
           \<and> (\<exists>n. utf8_length t = Inr n \<and> n \<le> training_field_max))"
proof -
  from assms obtain body where f: "final_payload s = Inr payload" "pb_dump P payload = Inr body"
    "publish P E (st_job s) (jp_status payload) body (training_signal E s) = Inr m"
    by (auto simp: publish_done_def bindE_Inr_iff)
  note m = publish_message [OF f(3)]
  have "cf_training (en_settings E) \<and> \<not> has_error s \<and> st_path s \<noteq> None
      \<and> (\<exists>n. utf8_length t = Inr n \<and> n \<le> training_field_max)" if "ms_training m = Some t" for t
  proof -
    have "training_field E (training_signal E s) = Inr (Some t)" using m that by simp
    from training_field_small [OF this] show ?thesis using training_signal_Some by blast
  qed
  with m f show ?thesis by (auto split: option.splits)
qed

definition plain_publisher :: publisher where
  "plain_publisher = \<lparr>pb_dump = \<lambda>p. Inr (jp_job_id p), pb_seal = None, pb_maxlen = 1000, pb_xadd = \<lambda>_. Inr []\<rparr>"

theorem publish_done_message_witness:
  "\<exists>payload m. publish_done plain_publisher offline_env
      (fail_with ''no places'' ''no_matching_places'' (start_state [7] (march_request 1))) = Inr (payload, m)
     \<and> ms_job m = [7] \<and> ms_training m = None"
proof -
  let ?s = "fail_with ''no places'' ''no_matching_places'' (start_state [7] (march_request 1))"
  obtain payload m where run: "publish_done plain_publisher offline_env ?s = Inr (payload, m)"
    by (simp add: publish_done_def final_payload_def plain_publisher_def publish_def training_field_def
        training_signal_def Let_def)
  have "has_error ?s" "st_job ?s = [7]" by (simp_all add: start_state_def)
  with publish_done_message [OF run] have "ms_job m = [7] \<and> ms_training m = None"
    by (cases "ms_training m") simp_all
  with run show ?thesis by blast
qed

text \<open>
  Not so for the delivery: with capturing on, a candidate whose name holds a lone surrogate, which
  the hub's JSON may contain, makes the encoding of the signal raise, and the finished result is not
  published.
\<close>

lemma json_char_keeps: "0xD800 \<le> c \<Longrightarrow> json_char c = [c]"
  by (simp add: json_char_def)

definition surrogate_state :: agent_state where
  "surrogate_state = (start_state [] (march_request 1))\<lparr>st_places := Some two_places,
     st_order := Some [0, 1], st_legs := Some half_hour_leg, st_path := Some (lit ''select''),
     st_candidates := [[(lit ''name'', PStr [0xD800])]]\<rparr>"

lemma surrogate_blocks_result:
  "publish_done plain_publisher
     (offline_env\<lparr>en_settings := default_settings\<lparr>cf_training := True\<rparr>\<rparr>) surrogate_state = Inl ValueError"
proof -
  let ?E = "offline_env\<lparr>en_settings := default_settings\<lparr>cf_training := True\<rparr>\<rparr>"
  obtain t where t: "training_signal ?E surrogate_state = Some t" and mem: "0xD800 \<in> set t"
    by (simp add: training_signal_def surrogate_state_def start_state_def has_error_def lit_def
        training_fields_def candidate_signal_def json_string_def json_char_def dget_def)
  have "utf8_length t = Inl ValueError" by (rule utf8_length_surrogate [OF mem]) simp_all
  moreover have "t \<noteq> []" using mem by auto
  ultimately have "training_field ?E (Some t) = Inl ValueError" by (simp add: training_field_def)
  moreover obtain payload where "final_payload surrogate_state = Inr payload"
    by (simp add: final_payload_def done_payload_def surrogate_state_def start_state_def has_error_def need_def)
  ultimately show ?thesis by (simp add: publish_done_def plain_publisher_def publish_def t)
qed

end
