(* ===== verification/Graph.thy ===== *)
theory Graph
  imports Publish
begin

text \<open>
  app/graph/agent_graph.py: the nodes of the recommendation pipeline, the edges between them and
  their routing functions, as a step relation on configurations and as the function that runs it.
\<close>

section \<open>Nodes and edges\<close>

datatype node_name =
    ParseInput | FetchWeather | PlanStrategy | LoadGivenPlaces | SearchPlaces | RulesFilter
  | ScoreAndRank | RecommendPlaces | RecommendRoute | BuildTimeline | FitTimeBudget | LlmReason
  | BuildPayload | PublishDone

text \<open>The last node hands the state on as it is; its effect is the message below.\<close>

fun node_of :: "node_name \<Rightarrow> node" where
  "node_of ParseInput = parse_input"
| "node_of FetchWeather = fetch_weather"
| "node_of PlanStrategy = plan_strategy"
| "node_of LoadGivenPlaces = load_given_places"
| "node_of SearchPlaces = search_places"
| "node_of RulesFilter = rules_filter"
| "node_of ScoreAndRank = score_and_rank"
| "node_of RecommendPlaces = recommend_places"
| "node_of RecommendRoute = recommend_route"
| "node_of BuildTimeline = build_timeline"
| "node_of FitTimeBudget = fit_time_budget"
| "node_of LlmReason = llm_reason"
| "node_of BuildPayload = build_payload"
| "node_of PublishDone = (\<lambda>E s. Inr s)"

definition route_after :: "node_name \<Rightarrow> agent_state \<Rightarrow> node_name" where
  "route_after n s = (if has_error s then BuildPayload else n)"

definition route_after_weather :: "agent_state \<Rightarrow> node_name" where
  "route_after_weather s =
     (if has_error s then BuildPayload
      else if rq_stage (st_request s) = StageRoute then LoadGivenPlaces else PlanStrategy)"

definition route_after_time_budget :: "agent_state \<Rightarrow> node_name" where
  "route_after_time_budget s =
     (if has_error s \<or> rq_stage (st_request s) = StageRoute then BuildPayload else LlmReason)"

fun edge :: "node_name \<Rightarrow> agent_state \<Rightarrow> node_name" where
  "edge ParseInput s = route_after FetchWeather s"
| "edge FetchWeather s = route_after_weather s"
| "edge PlanStrategy s = SearchPlaces"
| "edge LoadGivenPlaces s = route_after RecommendRoute s"
| "edge SearchPlaces s = RulesFilter"
| "edge RulesFilter s = ScoreAndRank"
| "edge ScoreAndRank s = RecommendPlaces"
| "edge RecommendPlaces s = route_after RecommendRoute s"
| "edge RecommendRoute s = route_after BuildTimeline s"
| "edge BuildTimeline s = FitTimeBudget"
| "edge FitTimeBudget s = route_after_time_budget s"
| "edge LlmReason s = BuildPayload"
| "edge BuildPayload s = PublishDone"
| "edge PublishDone s = PublishDone"

section \<open>Steps\<close>

datatype config =
    At node_name agent_state
  | Published agent_state payload message
  | Raised pyexn

inductive step :: "publisher \<Rightarrow> env \<Rightarrow> config \<Rightarrow> config \<Rightarrow> bool" for P E where
  go: "n \<noteq> PublishDone \<Longrightarrow> node_of n E s = Inr s' \<Longrightarrow> step P E (At n s) (At (edge n s') s')"
| raise: "n \<noteq> PublishDone \<Longrightarrow> node_of n E s = Inl e \<Longrightarrow> step P E (At n s) (Raised e)"
| publish: "publish_done P E s = Inr (p, m) \<Longrightarrow> step P E (At PublishDone s) (Published s p m)"
| lost: "publish_done P E s = Inl e \<Longrightarrow> step P E (At PublishDone s) (Raised e)"

inductive_cases step_AtE [elim!]: "step P E (At n s) c"
inductive_simps step_done_simps [simp]: "step P E (Published s p m) c" "step P E (Raised e) c"

text \<open>How far a node is from the end; every edge comes closer.\<close>

fun node_rank :: "node_name \<Rightarrow> nat" where
  "node_rank ParseInput = 13"
| "node_rank FetchWeather = 12"
| "node_rank PlanStrategy = 11"
| "node_rank SearchPlaces = 10"
| "node_rank RulesFilter = 9"
| "node_rank ScoreAndRank = 8"
| "node_rank RecommendPlaces = 7"
| "node_rank LoadGivenPlaces = 7"
| "node_rank RecommendRoute = 6"
| "node_rank BuildTimeline = 5"
| "node_rank FitTimeBudget = 4"
| "node_rank LlmReason = 3"
| "node_rank BuildPayload = 2"
| "node_rank PublishDone = 1"

lemma edge_rank: "n \<noteq> PublishDone \<Longrightarrow> node_rank (edge n s) < node_rank n"
  by (cases n) (auto simp: route_after_def route_after_weather_def route_after_time_budget_def)

function run :: "publisher \<Rightarrow> env \<Rightarrow> node_name \<Rightarrow> agent_state \<Rightarrow> config" where
  "run P E n s =
     (if n = PublishDone
      then (case publish_done P E s of Inl e \<Rightarrow> Raised e | Inr (p, m) \<Rightarrow> Published s p m)
      else (case node_of n E s of Inl e \<Rightarrow> Raised e | Inr s' \<Rightarrow> run P E (edge n s') s'))"
  by pat_completeness auto
termination by (relation "measure (\<lambda>(P, E, n, s). node_rank n)") (auto intro: edge_rank)

declare run.simps [simp del]

definition run_pipeline :: "publisher \<Rightarrow> env \<Rightarrow> pystr \<Rightarrow> request \<Rightarrow> config" where
  "run_pipeline P E job r = run P E ParseInput (start_state job r)"

abbreviation reaches :: "publisher \<Rightarrow> env \<Rightarrow> config \<Rightarrow> config \<Rightarrow> bool" where
  "reaches P E \<equiv> (step P E)\<^sup>*\<^sup>*"

definition final :: "config \<Rightarrow> bool" where
  "final c \<longleftrightarrow> (case c of At n s \<Rightarrow> False | _ \<Rightarrow> True)"

section \<open>The function and the relation\<close>

lemma run_reached: "reaches P E (At n s) (run P E n s)"
proof (induction P E n s rule: run.induct)
  case (1 P E n s)
  show ?case
  proof (cases "n = PublishDone")
    case True
    then show ?thesis
      by (cases "publish_done P E s")
         (auto simp: run.simps [of P E PublishDone s] intro!: r_into_rtranclp step.publish step.lost)
  next
    case False
    show ?thesis
    proof (cases "node_of n E s")
      case (Inl e)
      with False show ?thesis by (auto simp: run.simps [of P E n s] intro!: r_into_rtranclp step.raise)
    next
      case (Inr s')
      have "step P E (At n s) (At (edge n s') s')" using False Inr by (rule step.go)
      with 1 [OF False Inr] False Inr show ?thesis
        by (auto simp: run.simps [of P E n s] intro: converse_rtranclp_into_rtranclp)
    qed
  qed
qed

lemma run_final: "final (run P E n s)"
proof (induction P E n s rule: run.induct)
  case (1 P E n s)
  then show ?case by (subst run.simps) (auto simp: final_def split: sum.splits)
qed

lemma step_det: "step P E c d \<Longrightarrow> step P E c d' \<Longrightarrow> d = d'"
  by (cases c) auto

lemma final_iff_stuck: "final c \<longleftrightarrow> (\<nexists>c'. step P E c c')"
proof (cases c)
  case (At n s)
  have "\<exists>c'. step P E (At n s) c'"
  proof (cases "n = PublishDone")
    case True
    then show ?thesis
      by (cases "publish_done P E s") (auto intro: step.publish step.lost)
  next
    case False
    then show ?thesis by (cases "node_of n E s") (auto intro: step.go step.raise)
  qed
  with At show ?thesis by (auto simp: final_def)
qed (auto simp: final_def)

lemma reaches_final_unique:
  assumes "reaches P E c d" and "final d" and "reaches P E c d'" and "final d'"
  shows "d = d'"
  using assms(1,3)
proof (induction rule: converse_rtranclp_induct)
  case base
  with assms(2) show ?case by (metis converse_rtranclpE final_iff_stuck)
next
  case (step c1 c2)
  from step.prems show ?case
  proof (cases rule: converse_rtranclpE)
    case base
    with step.hyps(1) assms(4) show ?thesis using final_iff_stuck by blast
  next
    case (step y)
    then show ?thesis using step.IH step_det [OF \<open>step P E c1 c2\<close>] by blast
  qed
qed

section \<open>Every node keeps its contract\<close>

lemma idle_node: "pipeline_node (\<lambda>E s. Inr s)"
  by unfold_locales auto

lemmas node_contracts = parse_input.pipeline_node_axioms fetch_weather.pipeline_node_axioms
  plan_strategy.pipeline_node_axioms load_given_places.pipeline_node_axioms
  search_places.pipeline_node_axioms rules_filter.pipeline_node_axioms
  score_and_rank.pipeline_node_axioms recommend_places.pipeline_node_axioms
  recommend_route.pipeline_node_axioms build_timeline.pipeline_node_axioms
  fit_time_budget.pipeline_node_axioms llm_reason.pipeline_node_axioms
  build_payload.pipeline_node_axioms idle_node

lemma node_of_contract: "pipeline_node (node_of n)"
  by (cases n) (simp_all only: node_of.simps node_contracts)

lemma node_tame: "node_of n E s = Inr s' \<Longrightarrow> tame (cf_max_calls (en_settings E)) s s'"
  by (rule pipeline_node.step [OF node_of_contract])

lemma node_quiet:
  "node_of n E s = Inr s' \<Longrightarrow> n \<noteq> RecommendPlaces \<Longrightarrow> n \<noteq> LlmReason \<Longrightarrow> st_llm_used s' = st_llm_used s"
  by (cases n)
     (auto dest: parse_input.no_calls fetch_weather.no_calls plan_strategy.no_calls
       load_given_places.no_calls search_places.no_calls rules_filter.no_calls
       score_and_rank.no_calls recommend_route.no_calls build_timeline.no_calls
       fit_time_budget.no_calls build_payload.no_calls)

text \<open>An error stops all work: every node after the first hands a failed state on untouched.\<close>

lemma node_error: "has_error s \<Longrightarrow> n \<noteq> ParseInput \<Longrightarrow> node_of n E s = Inr s"
  by (cases n)
     (auto simp: fetch_weather_def plan_strategy_def load_given_places_def search_places_def
       rules_filter_def score_and_rank_def recommend_places_def recommend_route_def
       build_timeline_def fit_time_budget_def llm_reason_def build_payload_def)

text \<open>What holds of the state at a node, whatever the services answered.\<close>

inductive reached :: "publisher \<Rightarrow> env \<Rightarrow> pystr \<Rightarrow> request \<Rightarrow> node_name \<Rightarrow> agent_state \<Rightarrow> bool"
  for P E job r where
  start: "reached P E job r ParseInput (start_state job r)"
| follow: "reached P E job r n s \<Longrightarrow> n \<noteq> PublishDone \<Longrightarrow> node_of n E s = Inr s'
    \<Longrightarrow> reached P E job r (edge n s') s'"

lemma reaches_reached:
  "reaches P E (At ParseInput (start_state job r)) c \<Longrightarrow> c = At n s \<Longrightarrow> reached P E job r n s"
proof (induction arbitrary: n s rule: rtranclp_induct)
  case base
  then show ?case by (auto intro: reached.start)
next
  case (step y z)
  from step.hyps(2) step.prems obtain n0 s0 where "y = At n0 s0" by (cases y) auto
  with step show ?case by (auto intro: reached.follow)
qed

lemma reaches_published:
  assumes "reaches P E (At ParseInput (start_state job r)) (Published s p m)"
  shows "reached P E job r PublishDone s \<and> publish_done P E s = Inr (p, m)"
  using assms
proof (cases rule: rtranclp.cases)
  case (rtrancl_into_rtrancl b)
  then obtain n s0 where b: "b = At n s0" by (cases b) auto
  from rtrancl_into_rtrancl(2) b have "n = PublishDone \<and> s0 = s \<and> publish_done P E s = Inr (p, m)" by auto
  with rtrancl_into_rtrancl(1) b reaches_reached show ?thesis by blast
qed

lemma reached_contract:
  "reached P E job r n s \<Longrightarrow> st_job s = job \<and> st_request s = r \<and> coded s
     \<and> st_llm_used s \<le> cf_max_calls (en_settings E)"
proof (induction rule: reached.induct)
  case start
  then show ?case by (simp add: start_state_def coded_def)
next
  case (follow n s s')
  from node_tame [OF follow(3)] follow.IH show ?case by (auto simp: tame_def)
qed

text \<open>A trip by the user's own places never comes near the model.\<close>

definition planning_nodes :: "node_name set" where
  "planning_nodes = {PlanStrategy, SearchPlaces, RulesFilter, ScoreAndRank, RecommendPlaces, LlmReason}"

lemma reached_route:
  "reached P E job r n s \<Longrightarrow> rq_stage r = StageRoute \<Longrightarrow> n \<notin> planning_nodes \<and> st_llm_used s = 0"
proof (induction rule: reached.induct)
  case start
  then show ?case by (simp add: start_state_def planning_nodes_def)
next
  case (follow n s s')
  have req: "st_request s' = r"
    using reached_contract [OF reached.follow [OF follow.hyps]] by simp
  have n: "n \<notin> planning_nodes" using follow by simp
  then have "st_llm_used s' = 0"
    using node_quiet [OF follow(3)] follow by (auto simp: planning_nodes_def)
  moreover have "edge n s' \<notin> planning_nodes"
    using n req follow.prems by (cases n)
      (auto simp: planning_nodes_def route_after_def route_after_weather_def route_after_time_budget_def)
  ultimately show ?case by simp
qed

section \<open>How many steps\<close>

lemma step_rank: "step P E (At n s) (At n' s') \<Longrightarrow> node_rank n' < node_rank n"
  by (auto intro: edge_rank)

lemma steps_final: "(step P E ^^ k) d c \<Longrightarrow> final d \<Longrightarrow> k = 0"
proof (cases k)
  case (Suc j)
  assume steps: "(step P E ^^ k) d c" and d: "final d"
  have "\<exists>y. step P E d y \<and> (step P E ^^ j) y c"
    by (rule relpowp_Suc_D2) (rule steps [unfolded Suc])
  with d final_iff_stuck [of d P E] show ?thesis by (elim exE conjE) metis
qed simp

lemma steps_bounded: "(step P E ^^ k) (At n s) c \<Longrightarrow> k \<le> node_rank n"
proof (induction k arbitrary: n s)
  case (Suc k)
  from relpowp_Suc_D2 [OF Suc.prems] obtain d where d: "step P E (At n s) d" "(step P E ^^ k) d c"
    by (elim exE conjE)
  show ?case
  proof (cases d)
    case (At n' s')
    from Suc.IH [OF d(2) [unfolded At]] step_rank [OF d(1) [unfolded At]] show ?thesis by simp
  next
    case (Published s' p m)
    then have "k = 0" using steps_final [OF d(2)] by (simp add: final_def)
    then show ?thesis by (cases n) simp_all
  next
    case (Raised e)
    then have "k = 0" using steps_final [OF d(2)] by (simp add: final_def)
    then show ?thesis by (cases n) simp_all
  qed
qed simp

section \<open>Outcomes\<close>

text \<open>
  The function and the step relation agree: from any node, running the graph ends in exactly the
  configuration from which no step leads on, so every job has one outcome.
\<close>

lemma pipeline_outcome:
  "reaches P E (At n s) c \<and> (\<nexists>c'. step P E c c') \<longleftrightarrow> c = run P E n s"
  using run_reached run_final final_iff_stuck reaches_final_unique by metis

text \<open>
  The graph always comes to an end, whatever the services do: an outcome is reached after at
  most 13 steps and no run is longer, which is below the recursion limit of 25 that LangGraph sets.
\<close>

theorem pipeline_terminates:
  "(\<exists>k \<le> 13. (step P E ^^ k) (At ParseInput s) (run P E ParseInput s))
   \<and> \<not> (\<exists>k c. 13 < k \<and> (step P E ^^ k) (At ParseInput s) c)"
proof -
  obtain k where "(step P E ^^ k) (At ParseInput s) (run P E ParseInput s)"
    using rtranclp_imp_relpowp [OF run_reached] by blast
  with steps_bounded [of _ P E ParseInput s] show ?thesis by fastforce
qed

end
