(* ===== verification/Pipeline.thy ===== *)
theory Pipeline
  imports Graph
begin

text \<open>
  What a job delivers: an invariant for every node of the graph, kept by every step from any valid
  request, and what it says of the message that is published.
\<close>

section \<open>The invariant\<close>

text \<open>
  The places of a finished trip: verified ones with distinct ids, none negative, on days of the trip; on the route
  stage exactly the places the user gave, otherwise at least one for each day.
\<close>

definition trip_ok :: "request \<Rightarrow> place list \<Rightarrow> bool" where
  "trip_ok r ps \<longleftrightarrow> ps \<noteq> [] \<and> list_all sourced ps \<and> distinct (map pl_id ps)
     \<and> (\<forall>p \<in> set ps. 0 \<le> pl_id p \<and> 1 \<le> pl_day p \<and> pl_day p \<le> num_days r)
     \<and> (if rq_stage r = StageRoute
        then list_all2 (\<lambda>g p. same_place g p \<and> pl_day p = sp_day g) (given_places r) ps
        else days_covered (num_days r) ps)"

definition placed :: "request \<Rightarrow> agent_state \<Rightarrow> bool" where
  "placed r s \<longleftrightarrow> (\<exists>ps. st_places s = Some ps \<and> trip_ok r ps)"

definition routed :: "request \<Rightarrow> agent_state \<Rightarrow> bool" where
  "routed r s \<longleftrightarrow> (\<exists>ps order legs. st_places s = Some ps \<and> st_order s = Some order
     \<and> st_legs s = Some legs \<and> trip_ok r ps \<and> route_ok ps order legs)"

text \<open>A timetable, if there is one, belongs to this route, and \<open>late\<close> are the days it overruns.\<close>

definition timetable ::
    "env \<Rightarrow> request \<Rightarrow> place list \<Rightarrow> int list \<Rightarrow> leg list \<Rightarrow> agent_state \<Rightarrow> int set \<Rightarrow> bool" where
  "timetable E r ps order legs s late \<longleftrightarrow>
     (if st_tl_status s = None \<or> st_tl_status s = Some Unverified then late = {}
      else \<exists>stay source. let vs = planned E r ps order legs stay
        in st_timeline s = with_sources source (map (time_texts stay) vs) \<and> late = over_days r vs)"

definition timed :: "env \<Rightarrow> request \<Rightarrow> agent_state \<Rightarrow> bool" where
  "timed E r s \<longleftrightarrow> timetable E r (places_of s) (order_of s) (legs_of s) s (set (st_overflow s))
     \<and> (\<not> cf_timeline (en_settings E) \<longrightarrow> st_tl_status s = None)"

definition finished :: "env \<Rightarrow> request \<Rightarrow> agent_state \<Rightarrow> bool" where
  "finished E r s \<longleftrightarrow> routed r s \<and> timed E r s \<and> st_overflow s = []"

text \<open>The places after merging, which the payload carries.\<close>

definition delivered :: "env \<Rightarrow> request \<Rightarrow> agent_state \<Rightarrow> bool" where
  "delivered E r s \<longleftrightarrow> (\<exists>qs order legs. st_places s = Some (map (merge_place s) qs)
     \<and> st_order s = Some order \<and> st_legs s = Some legs \<and> trip_ok r qs \<and> route_ok qs order legs
     \<and> timetable E r qs order legs s {})"

fun node_ok :: "env \<Rightarrow> request \<Rightarrow> node_name \<Rightarrow> agent_state \<Rightarrow> bool" where
  "node_ok E r ParseInput s = True"
| "node_ok E r FetchWeather s = input_ok r"
| "node_ok E r PlanStrategy s \<longleftrightarrow> input_ok r \<and> rq_stage r \<noteq> StageRoute"
| "node_ok E r LoadGivenPlaces s \<longleftrightarrow> input_ok r \<and> rq_stage r = StageRoute"
| "node_ok E r SearchPlaces s \<longleftrightarrow> input_ok r \<and> rq_stage r \<noteq> StageRoute \<and> plan_ok (num_days r) (st_plan s)"
| "node_ok E r RulesFilter s \<longleftrightarrow> input_ok r \<and> rq_stage r \<noteq> StageRoute \<and> plan_ok (num_days r) (st_plan s)"
| "node_ok E r ScoreAndRank s \<longleftrightarrow> input_ok r \<and> rq_stage r \<noteq> StageRoute \<and> plan_ok (num_days r) (st_plan s)"
| "node_ok E r RecommendPlaces s \<longleftrightarrow> input_ok r \<and> rq_stage r \<noteq> StageRoute \<and> plan_ok (num_days r) (st_plan s)"
| "node_ok E r RecommendRoute s \<longleftrightarrow> input_ok r \<and> placed r s"
| "node_ok E r BuildTimeline s \<longleftrightarrow> routed r s"
| "node_ok E r FitTimeBudget s \<longleftrightarrow> routed r s \<and> timed E r s"
| "node_ok E r LlmReason s \<longleftrightarrow> finished E r s"
| "node_ok E r BuildPayload s \<longleftrightarrow> finished E r s"
| "node_ok E r PublishDone s \<longleftrightarrow> delivered E r s"

text \<open>A failed state is only waited for by its message; until the time axis exists its fields are unset.\<close>

definition sound :: "env \<Rightarrow> request \<Rightarrow> node_name \<Rightarrow> agent_state \<Rightarrow> bool" where
  "sound E r n s \<longleftrightarrow> st_request s = r \<and> (has_error s \<or> node_ok E r n s)
     \<and> (node_rank BuildTimeline \<le> node_rank n \<longrightarrow> st_tl_status s = None \<and> st_overflow s = [])"

section \<open>Every node keeps it\<close>

lemma sound_failed:
  "st_request s = r \<Longrightarrow> has_error s \<Longrightarrow> node_rank n < node_rank BuildTimeline \<Longrightarrow> sound E r n s"
  by (simp add: sound_def)

lemma trip_ok_route:
  assumes "trip_ok r ps" and "input_ok r"
  shows "\<forall>p \<in> set ps. in_korea p" and "rq_stage r = StageRoute \<Longrightarrow> sorted (map pl_day ps)"
proof -
  show "\<forall>p \<in> set ps. in_korea p"
    using assms(1) valid_place_in_korea by (auto simp: trip_ok_def list_all_iff sourced_def)
  assume "rq_stage r = StageRoute"
  then have same: "list_all2 (\<lambda>g p. same_place g p \<and> pl_day p = sp_day g) (given_places r) ps"
    and sorted: "sorted (map sp_day (given_places r))"
    using assms by (simp_all add: trip_ok_def input_ok_def)
  have days: "map pl_day ps = map sp_day gs"
    if "list_all2 (\<lambda>g p. same_place g p \<and> pl_day p = sp_day g) gs ps" for gs
    using that by (induction rule: list_all2_induct) simp_all
  show "sorted (map pl_day ps)" unfolding days [OF same] by (rule sorted)
qed

lemma numbered_nonneg:
  assumes "map pl_id ps = map int [0..<n]"
  shows "\<forall>p \<in> set ps. 0 \<le> pl_id p"
proof
  fix p assume "p \<in> set ps"
  then have "pl_id p \<in> set (map pl_id ps)" by simp
  then show "0 \<le> pl_id p" unfolding assms by auto
qed

lemma itinerary_trip:
  assumes "itinerary_ok (num_days r) ps" and "rq_stage r \<noteq> StageRoute"
  shows "trip_ok r ps"
proof -
  have "distinct (map pl_id ps)"
    using assms(1) by (simp add: itinerary_ok_def distinct_map inj_on_def)
  moreover have "\<forall>p \<in> set ps. 0 \<le> pl_id p"
    using assms(1) by (intro numbered_nonneg) (simp add: itinerary_ok_def)
  ultimately show ?thesis using assms by (auto simp: trip_ok_def itinerary_ok_def days_covered_def)
qed

lemma placedI: "trip_ok r (places_of s) \<Longrightarrow> placed r s"
  by (cases "st_places s") (simp_all add: placed_def trip_ok_def places_of_def)

lemma recommend_places_placed:
  assumes "valid_request r" and "st_request s = r" and "input_ok r" and "rq_stage r \<noteq> StageRoute"
    and "plan_ok (num_days r) (st_plan s)" and "\<not> has_error s"
    and "recommend_places E s = Inr s'" and "\<not> has_error s'"
  shows "placed r s'"
proof -
  have "itinerary_ok (num_days r) (places_of s')"
    using recommend_places_ok [OF _ _ _ assms(6,7,8)] assms(1-5) by simp
  then show ?thesis by (intro placedI itinerary_trip [OF _ assms(4)])
qed

lemma load_given_places_placed:
  assumes "valid_request r" and "st_request s = r" and "input_ok r" and "rq_stage r = StageRoute"
    and "\<not> has_error s" and "load_given_places E s = Inr s'" and "\<not> has_error s'"
  shows "placed r s'"
proof -
  let ?ps = "places_of s'"
  have ps: "list_all2 (\<lambda>g p. same_place g p \<and> sourced p \<and> pl_day p = sp_day g) (given_places r) ?ps"
    and ids: "map pl_id ?ps = map int [0..<length ?ps]"
    using load_given_places_ok [OF assms(5,6)] assms(2,7) by auto
  have "distinct (map pl_id ?ps)" unfolding ids by (simp add: distinct_map inj_on_def)
  moreover have "?ps \<noteq> []"
    using ps assms(3,4) by (auto simp: input_ok_def dest: list_all2_lengthD)
  moreover have "list_all2 (\<lambda>g p. same_place g p \<and> pl_day p = sp_day g) (given_places r) ?ps"
    using ps by (auto elim: list_all2_mono)
  ultimately have "trip_ok r ?ps"
    using verified_days [OF ps given_days [OF assms(1,3)]] numbered_nonneg [OF ids] assms(4)
    by (simp add: trip_ok_def)
  then show ?thesis by (rule placedI)
qed

lemma recommend_route_exists:
  assumes "st_request s = r" and "input_ok r" and "placed r s" and "\<not> has_error s"
  shows "\<exists>order legs. recommend_route E s = Inr (s\<lparr>st_order := Some order, st_legs := Some legs\<rparr>)"
proof -
  obtain ps where ps: "st_places s = Some ps" "trip_ok r ps" using assms(3) by (auto simp: placed_def)
  note korea = trip_ok_route [OF ps(2) assms(2)]
  have "ps \<noteq> []" "distinct (map pl_id ps)" using ps(2) by (simp_all add: trip_ok_def)
  from recommend_route_ok [OF assms(4) ps(1) this korea(1)] korea(2) assms(1) show ?thesis by blast
qed

lemma recommend_route_routed:
  assumes "st_request s = r" and "input_ok r" and "placed r s" and "\<not> has_error s"
    and "recommend_route E s = Inr s'"
  shows "routed r s'"
proof -
  obtain ps where ps: "st_places s = Some ps" "trip_ok r ps" using assms(3) by (auto simp: placed_def)
  note korea = trip_ok_route [OF ps(2) assms(2)]
  have "ps \<noteq> []" "distinct (map pl_id ps)" using ps(2) by (simp_all add: trip_ok_def)
  from recommend_route_ok [OF assms(4) ps(1) this korea(1)] korea(2) assms(1) obtain order legs where
    "recommend_route E s = Inr (s\<lparr>st_order := Some order, st_legs := Some legs\<rparr>)"
    "mset order = mset (map pl_id ps)" "sorted (map (day_of ps) order)" "legs_match order legs"
    by blast
  then show ?thesis using assms(5) ps korea(1) by (auto simp: routed_def route_ok_def trip_ok_def)
qed

lemma routed_fields:
  assumes "routed r s"
  shows "route_ok (places_of s) (order_of s) (legs_of s)" "trip_ok r (places_of s)" "places_of s \<noteq> []"
  using assms by (auto simp: routed_def places_of_def order_of_def legs_of_def trip_ok_def)

lemma routed_same:
  "routed r s \<Longrightarrow> st_places s' = st_places s \<Longrightarrow> st_order s' = st_order s \<Longrightarrow> st_legs s' = st_legs s \<Longrightarrow> routed r s'"
  by (simp add: routed_def)

lemma same_route:
  "st_places s' = st_places s \<Longrightarrow> st_order s' = st_order s \<Longrightarrow> st_legs s' = st_legs s
   \<Longrightarrow> places_of s' = places_of s \<and> order_of s' = order_of s \<and> legs_of s' = legs_of s"
  by (simp add: places_of_def order_of_def legs_of_def)

lemma build_timeline_timed:
  assumes "st_request s = r" and "routed r s" and "st_tl_status s = None" and "st_overflow s = []"
    and "\<not> has_error s" and "build_timeline E s = Inr s'"
  shows "routed r s' \<and> timed E r s'"
proof -
  from build_timeline_ok [OF assms(6) routed_fields(1) [OF assms(2)] assms(3,4)]
  have same: "st_places s' = st_places s" "st_order s' = st_order s" "st_legs s' = st_legs s"
    and time: "case st_tl_status s' of
         None \<Rightarrow> s' = s
       | Some Unverified \<Rightarrow> st_timeline s' = st_timeline s \<and> st_overflow s' = []
       | Some TimelineOk \<Rightarrow> (\<exists>stay source.
           let vs = planned E (st_request s) (places_of s) (order_of s) (legs_of s) stay
           in st_timeline s' = with_sources source (map (time_texts stay) vs)
              \<and> set (st_overflow s') = over_days (st_request s) vs)
       | Some Trimmed \<Rightarrow> False"
    by blast+
  have off: "\<not> cf_timeline (en_settings E) \<longrightarrow> st_tl_status s' = None"
    using assms(3,5,6) by (auto simp: build_timeline_def)
  have "timetable E r (places_of s') (order_of s') (legs_of s') s' (set (st_overflow s'))"
    using time assms(1,4) same_route [OF same]
    by (auto simp: timetable_def split: option.splits timeline_status.splits)
  with off routed_same [OF assms(2) same] show ?thesis by (simp add: timed_def)
qed

lemma timed_days:
  assumes "routed r s" and "timed E r s"
  shows "set (st_overflow s) \<subseteq> pl_day ` set (places_of s)"
proof
  fix d assume d: "d \<in> set (st_overflow s)"
  note route = routed_fields(1) [OF assms(1)]
  from assms(2) d obtain stay where
    "d \<in> over_days r (planned E r (places_of s) (order_of s) (legs_of s) stay)"
    by (auto simp: timed_def timetable_def Let_def split: if_splits)
  from over_days_real [OF route_ok_order(3) [OF route] this] obtain i where
    i: "i \<in> set (order_of s)" "day_of (places_of s) i = d" by blast
  then obtain p where "by_id (places_of s) i = Some p" using route_ok_order(3) [OF route] by blast
  with i by_id_in show "d \<in> pl_day ` set (places_of s)" by (fastforce simp: day_of_def)
qed

lemma day_ids_member:
  "i \<in> set (day_ids s order d D) \<longleftrightarrow> i \<in> set order \<and> i \<notin> D
     \<and> (\<exists>p. by_id (places_of s) i = Some p \<and> pl_day p = d)"
  by (auto simp: day_ids_def split: option.splits)

lemma two_members: "i \<in> set xs \<Longrightarrow> j \<in> set xs \<Longrightarrow> i \<noteq> j \<Longrightarrow> 2 \<le> length xs"
  by (cases xs; cases "tl xs") auto

text \<open>Dropping places the way \<open>fit_time_budget\<close> does leaves a place on every day, and two in all.\<close>

lemma kept_day:
  assumes "kept s order D" and "by_id (places_of s) i = Some p" and "i \<in> set order"
  shows "\<exists>j \<in> set (remaining D order). \<exists>q. by_id (places_of s) j = Some q \<and> pl_day q = pl_day p"
proof -
  have "i \<in> set (day_ids s order (pl_day p) {})" using assms(2,3) by (simp add: day_ids_member)
  then have "day_ids s order (pl_day p) D \<noteq> []" using kept_nonempty [OF assms(1)] by force
  then obtain j where "j \<in> set (day_ids s order (pl_day p) D)" by (cases "day_ids s order (pl_day p) D") auto
  then show ?thesis by (auto simp: day_ids_member remaining_def)
qed

lemma kept_two:
  assumes "kept s order D" and "distinct order" and "2 \<le> length order"
    and "\<forall>i \<in> set order. by_id (places_of s) i \<noteq> None"
  shows "2 \<le> length (remaining D order)"
proof -
  from assms(2,3) obtain i j xs where order: "order = i # j # xs" "i \<noteq> j"
    by (cases order; cases "tl order") auto
  with assms(4) obtain p q where p: "by_id (places_of s) i = Some p" and q: "by_id (places_of s) j = Some q"
    by auto
  show ?thesis
  proof (cases "pl_day p = pl_day q")
    case True
    then have "2 \<le> length (day_ids s order (pl_day p) {})" using order p q by (simp add: day_ids_def)
    then have "2 \<le> length (day_ids s order (pl_day p) D)"
      using assms(1) by (auto simp: kept_def dest!: spec [of _ "pl_day p"])
    moreover have "day_ids s order (pl_day p) D
        = filter (\<lambda>i. case by_id (places_of s) i of None \<Rightarrow> False | Some p' \<Rightarrow> pl_day p' = pl_day p) (remaining D order)"
      by (simp add: day_ids_def remaining_def conj_commute)
    ultimately show ?thesis using length_filter_le [of _ "remaining D order"] by (metis order_trans)
  next
    case False
    obtain i' p' where i': "i' \<in> set (remaining D order)" "by_id (places_of s) i' = Some p'" "pl_day p' = pl_day p"
      using kept_day [OF assms(1) p] order by auto
    obtain j' q' where j': "j' \<in> set (remaining D order)" "by_id (places_of s) j' = Some q'" "pl_day q' = pl_day q"
      using kept_day [OF assms(1) q] order by auto
    from i' j' False have "i' \<noteq> j'" by auto
    with i'(1) j'(1) show ?thesis by (rule two_members)
  qed
qed

lemma trip_ok_drop:
  assumes trip: "trip_ok r (places_of s)" and stage: "rq_stage r \<noteq> StageRoute"
    and route: "route_ok (places_of s) (order_of s) (legs_of s)" and kept: "kept s (order_of s) D"
    and order: "mset (remaining D (order_of s)) = mset (map pl_id (filter (\<lambda>p. pl_id p \<notin> D) (places_of s)))"
  shows "trip_ok r (filter (\<lambda>p. pl_id p \<notin> D) (places_of s))" (is "trip_ok r ?qs")
proof -
  note known = route_ok_order [OF route]
  have "length (order_of s) = length (places_of s)"
    using route unfolding route_ok_def by (metis length_map mset_eq_length)
  then have "2 \<le> length (remaining D (order_of s))"
    using kept_two [OF kept known(1) _ known(3)] trip stage by (simp add: trip_ok_def days_covered_def)
  then have two: "2 \<le> length ?qs" using mset_eq_length [OF order] by simp
  have ids: "set (remaining D (order_of s)) = pl_id ` set ?qs" using arg_cong [OF order, of set_mset] by simp
  have "\<exists>q \<in> set ?qs. pl_day q = pl_day p" if "p \<in> set (places_of s)" for p
  proof -
    have "by_id (places_of s) (pl_id p) = Some p" "pl_id p \<in> set (order_of s)"
      using by_id_Some [OF _ that] known(2) that trip by (auto simp: trip_ok_def)
    from kept_day [OF kept this] obtain j q where
      "j \<in> set (remaining D (order_of s))" "by_id (places_of s) j = Some q" "pl_day q = pl_day p" by blast
    then show ?thesis using by_id_in [of "places_of s" j q] by (intro bexI [of _ q]) (auto simp: remaining_def)
  qed
  then have "days_covered (num_days r) ?qs"
    using two trip stage unfolding days_covered_def trip_ok_def list_all_iff by (metis (no_types, lifting))
  moreover have "?qs \<noteq> []" using two by auto
  ultimately show ?thesis
    using trip stage by (auto simp: trip_ok_def list_all_iff distinct_map_filter)
qed

lemma fit_time_budget_finished:
  assumes req: "st_request s = r" and routed: "routed r s" and timed: "timed E r s" and "\<not> has_error s"
    and run: "fit_time_budget E s = Inr s'" and "\<not> has_error s'"
  shows "finished E r s'"
proof (cases "cf_timeline (en_settings E) \<and> st_overflow s \<noteq> []")
  case False
  then have "st_overflow s = []" using timed by (auto simp: timed_def timetable_def)
  moreover have "s' = s" using run False assms(4) by (auto simp: fit_time_budget_def)
  ultimately show ?thesis using routed timed by (simp add: finished_def)
next
  case True
  note route = routed_fields(1) [OF routed]
  note ok = fit_time_budget_ok [OF assms(4) route conjunct2 [OF True] timed_days [OF routed timed]
      conjunct1 [OF True], unfolded run sum.inject simp_thms ex_simps]
  then have free: "\<not> user_fixed s" using assms(6) by blast
  with ok assms(6) obtain D stay where ps: "places_of s' = filter (\<lambda>p. pl_id p \<notin> D) (places_of s)"
    and order: "order_of s' = remaining D (order_of s)"
    and route': "route_ok (places_of s') (order_of s') (legs_of s')" and kept: "kept s (order_of s) D"
    and vs: "over_days r (planned E r (places_of s') (order_of s') (legs_of s') stay) = {}"
    and tl: "st_overflow s' = []" "st_tl_status s' = Some Trimmed"
      "st_timeline s' = with_sources (old_source (st_timeline s))
         (map (time_texts stay) (planned E r (places_of s') (order_of s') (legs_of s') stay))"
    unfolding req [symmetric] Let_def by (auto split: if_splits)
  have stage: "rq_stage r \<noteq> StageRoute" using free req by (auto simp: user_fixed_def)
  have "mset (order_of s') = mset (map pl_id (places_of s'))" using route' by (simp add: route_ok_def)
  then have trip: "trip_ok r (places_of s')"
    unfolding ps order by (rule trip_ok_drop [OF routed_fields(2) [OF routed] stage route kept])
  have "\<exists>ps order legs. st_places s' = Some ps \<and> st_order s' = Some order \<and> st_legs s' = Some legs"
    by (rule fit_time_budget_shape [OF run])
       (use routed assms(6) in \<open>auto simp: routed_def drop_places_def Let_def add_warning_def\<close>)
  with trip route' have "routed r s'"
    by (auto simp: routed_def places_of_def order_of_def legs_of_def)
  moreover have "timed E r s'"
    using tl vs True by (auto simp: timed_def timetable_def Let_def)
  ultimately show ?thesis using tl(1) by (simp add: finished_def)
qed

text \<open>The reasons leave all this alone, and merging keeps the places behind the texts.\<close>

lemma finished_same:
  assumes "finished E r s" and "st_places s' = st_places s" "st_order s' = st_order s" "st_legs s' = st_legs s"
    and "st_timeline s' = st_timeline s" "st_tl_status s' = st_tl_status s" "st_overflow s' = st_overflow s"
  shows "finished E r s'"
  using assms routed_same [of r s s'] same_route [of s' s]
  by (auto simp: finished_def timed_def timetable_def)

lemma llm_reason_finished:
  assumes "finished E r s" and "llm_reason E s = Inr s'"
  shows "finished E r s'"
proof (cases rule: llm_reason_cases [of s E])
  case (degraded s1 why)
  then show ?thesis using assms finished_same [OF assms(1), of s'] by (auto simp: spent_def)
next
  case (answered s1 rs c)
  then have "s' = store_reasons rs c s1" using assms(2) by simp
  then show ?thesis
    using answered(2) finished_same [OF assms(1), of s'] by (auto simp: spent_def store_reasons_def Let_def)
qed (use assms in auto)

lemma build_payload_delivered:
  assumes "finished E r s" and "\<not> has_error s" and "build_payload E s = Inr s'"
  shows "delivered E r s'"
proof -
  from assms(1) obtain ps order legs where f: "st_places s = Some ps" "st_order s = Some order"
    "st_legs s = Some legs" "trip_ok r ps" "route_ok ps order legs"
    by (auto simp: finished_def routed_def)
  have time: "timetable E r ps order legs s {}"
    using assms(1) f(1-3) by (auto simp: finished_def timed_def places_of_def order_of_def legs_of_def)
  have s': "s' = s\<lparr>st_places := Some (map (merge_place s) ps)\<rparr>"
    using build_payload_run [OF assms(2), of E] assms(3) f(1) by simp
  moreover have "merge_place s' = merge_place s" by (simp add: s' merge_place_def fun_eq_iff Let_def)
  moreover have "timetable E r ps order legs s' {}" using time by (simp add: s' timetable_def)
  ultimately show ?thesis using f by (auto simp: delivered_def)
qed

lemma parse_input_either:
  "parse_input E s = Inr s' \<Longrightarrow> s' = s \<and> input_ok (st_request s) \<or> has_error s'"
  using parse_input_ok [of s E] parse_input_bad [of s E] by (cases "input_ok (st_request s)") auto

lemma keeps_plan:
  "fetch_weather E s = Inr s' \<Longrightarrow> st_error s' = st_error s"
  "search_places E s = Inr s' \<Longrightarrow> st_plan s' = st_plan s"
  "rules_filter E s = Inr s' \<Longrightarrow> st_plan s' = st_plan s"
  "score_and_rank E s = Inr s' \<Longrightarrow> st_plan s' = st_plan s"
  using fetch_weather_frame [of E s s'] unfolding search_places_def rules_filter_def score_and_rank_def Let_def run_iffs
  by (auto simp: no_candidates_def)

text \<open>The nodes before the time axis leave its two fields as they are.\<close>

lemma node_untimed:
  "node_of n E s = Inr s' \<Longrightarrow> node_rank BuildTimeline < node_rank n
   \<Longrightarrow> st_tl_status s' = st_tl_status s \<and> st_overflow s' = st_overflow s"
  by (cases n)
     (auto dest: parse_input.untimed fetch_weather.untimed plan_strategy.untimed load_given_places.untimed
       search_places.untimed rules_filter.untimed score_and_rank.untimed recommend_places.untimed
       recommend_route.untimed)

lemma node_keeps_sound:
  assumes "sound E r n s" and "valid_request r" and "\<not> has_error s" and "n \<noteq> PublishDone"
    and "node_of n E s = Inr s'" and "\<not> has_error s'"
  shows "node_ok E r (edge n s') s'"
proof -
  have req: "st_request s = r" "st_request s' = r" and ok: "node_ok E r n s"
    using assms(1,3) node_tame [OF assms(5)] by (auto simp: sound_def tame_def)
  have time: "st_tl_status s = None \<and> st_overflow s = []" if "node_rank BuildTimeline \<le> node_rank n"
    using assms(1) that by (simp add: sound_def)
  show ?thesis
  proof (cases n)
    case ParseInput
    then show ?thesis using parse_input_either [of E s s'] assms(5,6) req by (simp add: route_after_def)
  next
    case FetchWeather
    then show ?thesis using ok req assms(6) by (simp add: route_after_weather_def)
  next
    case PlanStrategy
    with assms(5) plan_strategy_frame [OF _ assms(3)] req obtain pops where
      "s' = s\<lparr>st_plan := Some (plan_for r pops)\<rparr>" by auto
    then show ?thesis using PlanStrategy ok plan_for_ok by simp
  next
    case LoadGivenPlaces
    then show ?thesis
      using load_given_places_placed [OF assms(2) req(1) _ _ assms(3) _ assms(6)] ok assms(5,6)
      by (simp add: route_after_def)
  next
    case SearchPlaces
    then show ?thesis using ok assms(5) keeps_plan(2) by simp
  next
    case RulesFilter
    then show ?thesis using ok assms(5) keeps_plan(3) by simp
  next
    case ScoreAndRank
    then show ?thesis using ok assms(5) keeps_plan(4) by simp
  next
    case RecommendPlaces
    then show ?thesis
      using recommend_places_placed [OF assms(2) req(1) _ _ _ assms(3) _ assms(6)] ok assms(5,6)
      by (simp add: route_after_def)
  next
    case RecommendRoute
    then show ?thesis
      using recommend_route_routed [OF req(1) _ _ assms(3)] ok assms(5,6) by (simp add: route_after_def)
  next
    case BuildTimeline
    then show ?thesis
      using build_timeline_timed [OF req(1) _ _ _ assms(3)] ok assms(5) time by simp
  next
    case FitTimeBudget
    then have "finished E r s'"
      using fit_time_budget_finished [OF req(1) _ _ assms(3) _ assms(6)] ok assms(5) by simp
    then show ?thesis using FitTimeBudget by (simp add: route_after_time_budget_def)
  next
    case LlmReason
    then show ?thesis using llm_reason_finished ok assms(5) by simp
  next
    case BuildPayload
    then show ?thesis using build_payload_delivered [OF _ assms(3)] ok assms(5) by simp
  qed (use assms(4) in simp)
qed

lemma sound_step:
  assumes sound: "sound E r n s" and "valid_request r" and n: "n \<noteq> PublishDone" and run: "node_of n E s = Inr s'"
  shows "sound E r (edge n s') s'"
proof -
  have req: "st_request s' = r" using sound node_tame [OF run] by (simp add: sound_def tame_def)
  have "has_error s' \<or> node_ok E r (edge n s') s'"
  proof (cases "has_error s \<and> n \<noteq> ParseInput")
    case True
    then show ?thesis using node_error run by fastforce
  next
    case False
    show ?thesis
    proof (cases "has_error s")
      case True
      then have "n = ParseInput" using False by simp
      then show ?thesis using True run parse_input_either [of E s s'] by auto
    next
      case False
      then show ?thesis using node_keeps_sound [OF sound assms(2) _ n run] by blast
    qed
  qed
  moreover have "st_tl_status s' = None \<and> st_overflow s' = []"
    if "node_rank BuildTimeline \<le> node_rank (edge n s')"
  proof -
    have "node_rank BuildTimeline < node_rank n" using that edge_rank [OF n, of s'] by linarith
    then show ?thesis using sound node_untimed [OF run] by (simp add: sound_def)
  qed
  ultimately show ?thesis using req by (simp add: sound_def)
qed

lemma reached_sound:
  assumes "reached P E job r n s" and "valid_request r"
  shows "sound E r n s"
  using assms(1)
proof (induction rule: reached.induct)
  case start
  then show ?case by (simp add: sound_def start_state_def)
next
  case (follow n s s')
  then show ?case by (intro sound_step [OF _ assms(2)])
qed

text \<open>What a published run says of its last state.\<close>

lemma published_reached:
  assumes "run_pipeline P E job r = Published s p m"
  shows "reached P E job r PublishDone s" and "publish_done P E s = Inr (p, m)"
proof -
  have "reaches P E (At ParseInput (start_state job r)) (Published s p m)"
    using run_reached [of P E ParseInput "start_state job r"] assms by (simp add: run_pipeline_def)
  from reaches_published [OF this]
  show "reached P E job r PublishDone s" and "publish_done P E s = Inr (p, m)" by blast+
qed

lemma publish_done_payload:
  "publish_done P E s = Inr (p, m) \<Longrightarrow> final_payload s = Inr p"
  by (auto simp: publish_done_def bindE_Inr_iff)

section \<open>A concrete job\<close>

text \<open>Two places the user keeps, on the route stage, with the hub of the kept places.\<close>

definition route_request :: request where
  "route_request = mode1_request\<lparr>rq_stage := StageRoute\<rparr>"

lemma route_request_fields [simp]:
  "rq_stage route_request = StageRoute" "given_places route_request = [kept_place ''A'', kept_place ''B'']"
  by (simp_all add: route_request_def mode1_request_def given_places_def)

lemma route_request_ok: "valid_request route_request" "input_ok route_request"
proof -
  have same: "rq_date route_request = rq_date mode1_request" by (simp add: route_request_def)
  show "valid_request route_request" using mode1_run by (simp add: valid_request_def route_request_def)
  have "num_days route_request = num_days mode1_request" by (simp add: num_days_def same)
  then show "input_ok route_request"
    using mode1_run by (auto simp: input_ok_def same kept_place_def)
qed

text \<open>The hub of the run: it knows both places, has no weather and no estimates of stays.\<close>

definition dwell_env :: env where
  "dwell_env = kakao_env\<lparr>en_dwell := \<lambda>_. Inr (PDict [])\<rparr>"

definition kakao_at :: "int \<Rightarrow> string \<Rightarrow> place" where
  "kakao_at n cid =
     \<lparr>pl_id = n, pl_day = 1, pl_name = lit cid, pl_address = [], pl_lat = 37, pl_lng = 127, pl_visit_time = [],
      pl_content_id = Some (lit cid), pl_source = Some (lit ''kakao''),
      pl_category = Some (neutralize_text (lit ''food > cafe'')), pl_group_code = None, pl_phone = None,
      pl_place_url = None, pl_crs_km = None, pl_crs_min = None, pl_crs_level = None, pl_brd_div = None,
      pl_gpx_url = None, pl_route_idx = None, pl_grounded = True, pl_stay_minutes = None,
      pl_visit_start = None, pl_visit_end = None, pl_stay_source = None, pl_reason = None, pl_bullets = None\<rparr>"

lemma dwell_place:
  assumes "cid = ''A'' \<or> cid = ''B''"
  shows "place_from_candidate dwell_env n (kakao_candidate cid) [] 1 = Inr (kakao_at n cid)"
proof -
  have strip: "strip (lit cid) \<noteq> []" using assms by (auto simp: strip_def lit_def is_space_def)
  have stub: "\<not> contains_text (lit ''stub'') (ascii_lower (lit cid))"
    using assms by (auto simp: contains_text_def lit_def ascii_lower_def sublist_code)
  have known: "source_known (kakao_candidate cid) = Inr True"
    by (simp add: source_known_def kakao_candidate_def dget_def known_sources_def)
  have texts: "text_ok (lit cid)" "text_ok (lit ''kakao'')" "text_ok []" "cid \<noteq> []" "length cid = 1"
    using assms by (auto simp: text_ok_def forbidden_text_char_def lit_def)
  have cat: "text_ok (neutralize_text t)" for t
    by (simp add: text_ok_iff_safe neutralize_text_safe)
  have empty: "neutralize_text [] = []" by (rule neutralize_text_id) simp
  have len: "length (lit cid) = 1" using texts by (simp add: lit_def)
  have "place_fields dwell_env n (kakao_candidate cid) [] 1 = Inr (kakao_at n cid)"
    using texts cat empty len
    by (simp add: place_fields_def kakao_candidate_def dget_def cut_text_def float_field_def need_def
        bounded_float_def opt_str_of_def neutralize_tags_def opt_float_field_def opt_int_field_def
        checked_place_def valid_place_def kakao_at_def)
  with strip stub known show ?thesis
    by (simp add: place_from_candidate_def kakao_candidate_def dget_def)
qed

lemma route_verified:
  "verify_selected_places dwell_env s (given_places route_request) = Inr ([kakao_at 0 ''A'', kakao_at 1 ''B''], s)"
  if "st_request s = route_request" "\<not> has_error s"
proof -
  have hub: "en_search dwell_env pr ci mo kw n = Inr (PDict [(lit ''places'',
     PList [PDict (kakao_candidate ''A''), PDict (kakao_candidate ''B'')])])" for pr ci mo kw n
    by (simp add: dwell_env_def kakao_search)
  have "verify_loop dwell_env route_request [kept_place ''A'', kept_place ''B''] []
      = Inr (Some [kakao_at 0 ''A'', kakao_at 1 ''B''])"
    using dwell_place
    by (simp add: hub get_iter_def iter_or_empty_def dget_def same_place_def kept_place_def kakao_at_def)
  then show ?thesis using that by (simp add: verify_selected_places_def)
qed

lemma run_step: "node_of n E s = Inr s' \<Longrightarrow> n \<noteq> PublishDone \<Longrightarrow> run P E n s = run P E (edge n s') s'"
  by (simp add: run.simps [of P E n s])

lemma route_weather:
  "\<exists>s'. fetch_weather dwell_env (start_state [7] route_request) = Inr s' \<and> \<not> has_error s'
     \<and> st_request s' = route_request \<and> st_overflow s' = []"
  by (simp add: fetch_weather_def start_state_def dwell_env_def kakao_env_def offline_env_def is_http_error_def Let_def)
     (simp add: has_error_def add_warning_def)

text \<open>The route between the two places, and the times for it: both are at the same spot.\<close>

definition route_leg :: leg where
  "route_leg = \<lparr>lg_from = 0, lg_to = 1, lg_mode = Walk, lg_km = 0, lg_min = 1\<rparr>"

abbreviation two_kakao :: "place list" where
  "two_kakao \<equiv> [kakao_at 0 ''A'', kakao_at 1 ''B'']"

lemma route_legs: "rebuild_legs route_request two_kakao [] [0, 1] = [route_leg]"
proof -
  have "straight_km 37 127 37 127 = 0" by (simp add: straight_km_def haversine_arg_def radians_def)
  moreover have "round_half_even 0 = 0" by (simp add: round_half_even_def Let_def)
  moreover have "rq_mobility route_request = Some Walk"
    by (simp add: route_request_def mode1_request_def march_request_def)
  ultimately show ?thesis
    by (simp add: rebuild_legs_def make_leg_def old_leg_def by_id_def kakao_at_def place_km_def walk_minutes_def
        round_digits_def route_leg_def mobility_or_walk_def)
qed

lemma route_times:
  "plan_timeline dwell_env route_request two_kakao [0, 1] [route_leg] (\<lambda>i. 0)
   = ([(0, \<lparr>sl_stay = 0, sl_start = minutes_to_hhmm 540, sl_end = minutes_to_hhmm 540, sl_source = None\<rparr>),
       (1, \<lparr>sl_stay = 0, sl_start = minutes_to_hhmm 551, sl_end = minutes_to_hhmm 551, sl_source = None\<rparr>)], [])"
  by (simp add: plan_timeline_def clock_of_def route_request_def mode1_request_def march_request_def
      minute_of_day_def dwell_env_def kakao_env_def offline_env_def default_settings_def by_id_def kakao_at_def
      leg_minutes_def route_leg_def same_day_next_def Let_def)

lemma warned_fields:
  "places_of (timeline_warnings s) = places_of s" "order_of (timeline_warnings s) = order_of s"
  "legs_of (timeline_warnings s) = legs_of s" "st_request (timeline_warnings s) = st_request s"
  "st_overflow (timeline_warnings s) = st_overflow s" "has_error (timeline_warnings s) = has_error s"
  "st_places (timeline_warnings s) = st_places s" "st_order (timeline_warnings s) = st_order s"
  "st_legs (timeline_warnings s) = st_legs s"
  by (simp_all add: timeline_warnings_def add_warning_def places_of_def order_of_def legs_of_def has_error_def Let_def)

text \<open>A hub that answers without an estimate: every place stays for no time at all.\<close>

lemma build_without_estimates:
  assumes "\<not> has_error s" "places_of s = ps" "ps \<noteq> []" "order_of s = order" "legs_of s = legs" "st_request s = r"
    and "snd (plan_timeline dwell_env r ps order legs (\<lambda>i. 0)) = []"
  shows "build_timeline dwell_env s = Inr ((timeline_warnings s)\<lparr>st_timeline := with_sources
      (lookup_last (map (\<lambda>p. (pl_id p, stay_source dwell_env (estimate_of [] p))) ps) (lit ''default''))
      (fst (plan_timeline dwell_env r ps order legs (\<lambda>i. 0))), st_tl_status := Some TimelineOk\<rparr>)"
proof -
  have none: "estimate_of [] p = []" for p by (simp add: estimate_of_def)
  have stays: "lookup_last (map (\<lambda>p. (pl_id p, 0)) ps) 0 = (\<lambda>i. 0 :: int)"
    by (auto simp: lookup_last_def fun_eq_iff split: option.splits dest!: map_of_SomeD)
  have zero: "mapE (\<lambda>p. int_or_zero dwell_env (dget (estimate_of [] p) ''stay_minutes'')) ps
      = Inr (map (\<lambda>_. 0) ps)"
    by (induction ps) (simp_all add: none int_or_zero_def dget_def)
  have zipped: "zip (map pl_id ps) (map (\<lambda>_. 0) ps) = map (\<lambda>p. (pl_id p, 0 :: int)) ps"
    by (induction ps) simp_all
  have hub: "en_dwell dwell_env req = Inr (PDict [])" "cf_timeline (en_settings dwell_env)" for req
    by (simp_all add: dwell_env_def kakao_env_def offline_env_def default_settings_def)
  have applied: "apply_estimates dwell_env (timeline_warnings s) [] = Inr ((timeline_warnings s)\<lparr>st_timeline := with_sources
      (lookup_last (map (\<lambda>p. (pl_id p, stay_source dwell_env (estimate_of [] p))) ps) (lit ''default''))
      (fst (plan_timeline dwell_env r ps order legs (\<lambda>i. 0))), st_tl_status := Some TimelineOk\<rparr>)"
    using assms(2-) 
    by (simp add: apply_estimates_def warned_fields zero zipped stays case_prod_unfold Let_def)
  show ?thesis
    using assms applied hub
    by (simp add: build_timeline_def Let_def iter_or_empty_def dget_def dicts_of_def estimates_by_key_def dict_of_pairs_def)
qed

lemma route_job:
  "\<exists>s p m. run_pipeline plain_publisher dwell_env [7] route_request = Published s p m \<and> jp_status p = Done
     \<and> st_tl_status s = Some TimelineOk \<and> (\<forall>sl \<in> snd ` set (st_timeline s). sl_stay sl = 0)
     \<and> (\<exists>t. st_timeline t = st_timeline s \<and> jp_places p = Some (map (merge_place t) two_kakao))"
proof -
  let ?s0 = "start_state [7] route_request"
  obtain s1 where s1: "fetch_weather dwell_env ?s0 = Inr s1" "\<not> has_error s1" "st_request s1 = route_request"
    "st_overflow s1 = []"
    using route_weather by blast
  let ?t1 = "s1\<lparr>st_path := Some (lit ''route'')\<rparr>"
  have t1: "st_request ?t1 = route_request" "\<not> has_error ?t1" using s1 by (simp_all add: has_error_def)
  define s2 where "s2 = ?t1\<lparr>st_places := Some two_kakao, st_grounded := True\<rparr>"
  have s2: "load_given_places dwell_env s1 = Inr s2"
    using s1 route_verified [OF t1] by (simp add: load_given_places_def s2_def has_error_def)
  have s2_ok: "\<not> has_error s2" "st_request s2 = route_request" using s1 by (simp_all add: s2_def has_error_def)
  have stage: "rq_stage route_request = StageRoute" "\<not> rq_optimize route_request"
    by (simp_all add: route_request_def mode1_request_def march_request_def)
  define s3 where "s3 = s2\<lparr>st_order := Some [0, 1], st_legs := Some [route_leg]\<rparr>"
  have s3: "recommend_route dwell_env s2 = Inr s3"
    using s2_ok stage route_legs by (simp add: recommend_route_def s3_def s2_def kakao_at_def)
  have s3_ok: "\<not> has_error s3" "st_request s3 = route_request" "places_of s3 = two_kakao" "st_overflow s3 = []"
    "order_of s3 = [0, 1]" "legs_of s3 = [route_leg]"
    using s2_ok s1 by (simp_all add: s3_def s2_def has_error_def places_of_def order_of_def legs_of_def)
  define w where "w = timeline_warnings s3"
  have w: "places_of w = two_kakao" "order_of w = [0, 1]" "legs_of w = [route_leg]" "st_request w = route_request"
    "st_overflow w = []" "\<not> has_error w" "st_places w = st_places s3" "st_order w = st_order s3"
    "st_legs w = st_legs s3"
    using s3_ok by (simp_all add: w_def warned_fields)
  define source where "source = lookup_last
    (map (\<lambda>p. (pl_id p, stay_source dwell_env (estimate_of [] p))) two_kakao) (lit ''default'')"
  define s4 where "s4 = w\<lparr>st_timeline := with_sources source
      (fst (plan_timeline dwell_env route_request two_kakao [0, 1] [route_leg] (\<lambda>i. 0))),
    st_tl_status := Some TimelineOk\<rparr>"
  have s4: "build_timeline dwell_env s3 = Inr s4"
    unfolding s4_def source_def w_def
    by (rule build_without_estimates [OF s3_ok(1,3) _ s3_ok(5,6,2)]) (simp_all add: route_times)
  have s4_ok: "\<not> has_error s4" "st_request s4 = route_request" "st_overflow s4 = []" "st_order s4 = Some [0, 1]"
    "st_legs s4 = Some [route_leg]" "st_places s4 = Some two_kakao" "st_tl_status s4 = Some TimelineOk"
    using w by (simp_all add: s4_def s3_def s2_def has_error_def)
  have stays: "\<forall>sl \<in> snd ` set (st_timeline s4). sl_stay sl = 0"
    by (simp add: s4_def route_times with_sources_def)
  have chain: "run_pipeline plain_publisher dwell_env [7] route_request
      = run plain_publisher dwell_env FitTimeBudget s4"
    using s1 s2_ok s3_ok s3 run_step [of ParseInput dwell_env ?s0 ?s0]
      run_step [of FetchWeather, OF _ _, of dwell_env ?s0 s1]
      run_step [of LoadGivenPlaces dwell_env s1 s2] run_step [of RecommendRoute dwell_env s2 s3]
      run_step [of BuildTimeline dwell_env s3 s4] s2 s4 parse_input_ok [of ?s0 dwell_env] route_request_ok(2)
    by (simp add: run_pipeline_def route_after_def route_after_weather_def start_state_def has_error_def)
  define s5 where "s5 = s4\<lparr>st_places := Some (map (merge_place s4) two_kakao)\<rparr>"
  have s5: "build_payload dwell_env s4 = Inr s5"
    using build_payload_run [OF s4_ok(1)] s4_ok(6) by (simp add: s5_def)
  have fit: "fit_time_budget dwell_env s4 = Inr s4" using s4_ok by (simp add: fit_time_budget_def)
  have "run plain_publisher dwell_env FitTimeBudget s4 = run plain_publisher dwell_env PublishDone s5"
    using run_step [of FitTimeBudget dwell_env s4 s4] run_step [of BuildPayload dwell_env s4 s5] fit s5 s4_ok
    by (simp add: route_after_time_budget_def)
  moreover have "\<exists>p m. publish_done plain_publisher dwell_env s5 = Inr (p, m) \<and> jp_status p = Done
      \<and> jp_places p = Some (map (merge_place s4) two_kakao)"
    using s4_ok
    by (simp add: publish_done_def final_payload_def done_payload_def s5_def has_error_def plain_publisher_def
        publish_def training_field_def training_signal_def dwell_env_def kakao_env_def offline_env_def
        default_settings_def need_def Let_def)
  moreover have "st_tl_status s5 = Some TimelineOk" "st_timeline s5 = st_timeline s4"
    using s4_ok by (simp_all add: s5_def)
  ultimately show ?thesis using chain stays by (fastforce simp: run.simps [of _ _ PublishDone])
qed

text \<open>The state behind a success.\<close>

lemma done_job_delivered:
  assumes "valid_request r" and "run_pipeline P E job r = Published s p m" and "jp_status p = Done"
  shows "delivered E r s \<and> done_payload s = Inr p"
proof -
  note reached = published_reached [OF assms(2)]
  have p: "final_payload s = Inr p" by (rule publish_done_payload [OF reached(2)])
  then have "\<not> has_error s" using assms(3) by (auto simp: final_payload_def failed_payload_def)
  moreover have "sound E r PublishDone s" by (rule reached_sound [OF reached(1) assms(1)])
  ultimately show ?thesis using p by (simp add: sound_def final_payload_def)
qed

section \<open>Properties\<close>

text \<open>
  C1: What a job that reports success delivers, from any valid request and whatever the services
  answered: every place is a verified one on a day of the trip, the ids are distinct, a trip by the
  user's own places holds exactly those in their order and any other has a place on every day; the
  visiting order is a permutation of the places that visits the days in turn, each leg joins
  neighbours of it, and the times, when there are any, are those of this route and end on every day
  within the hours the user is active. The places the payload carries differ from these only in the
  texts and times merged into them.
\<close>

theorem done_job_sound:
  assumes "valid_request r" and "run_pipeline P E job r = Published s p m" and "jp_status p = Done"
  shows "\<exists>qs order legs. jp_places p = Some (map (merge_place s) qs) \<and> jp_visit_order p = Some order
    \<and> jp_legs p = Some legs \<and> trip_ok r qs \<and> route_ok qs order legs \<and> timetable E r qs order legs s {}"
  using done_job_delivered [OF assms] by (auto simp: delivered_def done_payload_def bindE_Inr_iff need_def)

theorem done_job_sound_witness:
  "\<exists>s p m qs. run_pipeline plain_publisher dwell_env [7] route_request = Published s p m
     \<and> jp_places p = Some (map (merge_place s) qs) \<and> length qs = 2 \<and> trip_ok route_request qs"
proof -
  obtain s p m where run: "run_pipeline plain_publisher dwell_env [7] route_request = Published s p m"
    and "done": "jp_status p = Done" using route_job by blast
  from done_job_sound [OF route_request_ok(1) run "done"] obtain qs where
    "jp_places p = Some (map (merge_place s) qs)" "trip_ok route_request qs" by blast
  moreover from this(2) have "length qs = 2" by (auto simp: trip_ok_def dest: list_all2_lengthD)
  ultimately show ?thesis using run by blast
qed

text \<open>
  C2: What every published job keeps to, a failed one included: the message bears the job's id and
  the status of its payload, the calls of the model stay within the budget of the request, a trip by
  the user's own places makes none at all, and a failure carries one of the fixed codes, the same as
  its error text, whether a repetition can help, and nothing else: no places, no visiting order, no
  legs, no clothing, no state of the timetable and no warnings. A success carries no error.
\<close>

theorem job_contract:
  assumes "run_pipeline P E job r = Published s p m"
  shows "jp_job_id p = job \<and> ms_job m = job \<and> ms_status m = jp_status p
    \<and> st_llm_used s \<le> cf_max_calls (en_settings E)
    \<and> (rq_stage r = StageRoute \<longrightarrow> st_llm_used s = 0)
    \<and> (jp_status p = Failed \<longrightarrow> (\<exists>c \<in> failure_codes. jp_code p = Some c \<and> jp_error p = Some c)
         \<and> jp_retryable p \<noteq> None \<and> jp_places p = None \<and> jp_visit_order p = None \<and> jp_legs p = None
         \<and> jp_clothing p = None \<and> jp_timeline_status p = None \<and> jp_warnings p = None)
    \<and> (jp_status p = Done \<longrightarrow> jp_error p = None \<and> jp_code p = None \<and> jp_retryable p = None)"
proof -
  note reached = published_reached [OF assms]
  note contract = reached_contract [OF reached(1)]
  have p: "final_payload s = Inr p" by (rule publish_done_payload [OF reached(2)])
  have m: "ms_job m = st_job s" "ms_status m = jp_status p"
    using reached(2) by (auto simp: publish_done_def bindE_Inr_iff dest: publish_message)
  have id: "jp_job_id p = st_job s"
    using p by (auto simp: final_payload_def failed_payload_def done_payload_def bindE_Inr_iff split: if_splits)
  have "(\<exists>c \<in> failure_codes. jp_code p = Some c \<and> jp_error p = Some c)
      \<and> jp_retryable p \<noteq> None \<and> jp_places p = None \<and> jp_visit_order p = None \<and> jp_legs p = None
      \<and> jp_clothing p = None \<and> jp_timeline_status p = None \<and> jp_warnings p = None"
    if "jp_status p = Failed"
  proof -
    have err: "has_error s" using p that
      by (auto simp: final_payload_def done_payload_def bindE_Inr_iff split: if_splits)
    then obtain c where "c \<in> failure_codes" "st_code s = Some c"
      using contract by (auto simp: coded_def has_error_def)
    then show ?thesis using p err by (auto simp: final_payload_def failed_payload_def code_or_def)
  qed
  moreover have "jp_error p = None \<and> jp_code p = None \<and> jp_retryable p = None" if "jp_status p = Done"
    using p that by (auto simp: final_payload_def failed_payload_def done_payload_def bindE_Inr_iff split: if_splits)
  ultimately show ?thesis using contract id m reached_route [OF reached(1)] by simp
qed

theorem job_contract_witness:
  "\<exists>s p m. run_pipeline plain_publisher dwell_env [7] route_request = Published s p m
     \<and> jp_job_id p = [7] \<and> st_llm_used s = 0"
proof -
  obtain s p m where run: "run_pipeline plain_publisher dwell_env [7] route_request = Published s p m"
    using route_job by blast
  then show ?thesis using job_contract [OF run] by auto
qed

text \<open>
  The last node finds everything it needs: on any valid request the state that arrives there
  either carries an error or has places, order and legs, so assembling the payload raises nothing,
  and what can still fail is only its serialisation and the stream.
\<close>

theorem payload_assembled:
  assumes "valid_request r" and "reached P E job r PublishDone s"
  shows "(\<exists>p. final_payload s = Inr p)
    \<and> (publish_done P E s = Inl e \<longrightarrow> (\<exists>p. pb_dump P p = Inl e
        \<or> (\<exists>text. publish P E job (jp_status p) text (training_signal E s) = Inl e)))"
proof -
  have "sound E r PublishDone s" by (rule reached_sound [OF assms(2,1)])
  then have "\<exists>p. final_payload s = Inr p"
    by (auto simp: sound_def final_payload_def delivered_def done_payload_def need_def)
  moreover have "st_job s = job" using reached_contract [OF assms(2)] by simp
  ultimately show ?thesis
    by (auto simp: publish_done_def bindE_def split: sum.splits)
qed

theorem payload_assembled_witness:
  "\<exists>s p. reached plain_publisher dwell_env [7] route_request PublishDone s \<and> final_payload s = Inr p"
proof -
  obtain s p m where run: "run_pipeline plain_publisher dwell_env [7] route_request = Published s p m"
    using route_job by blast
  note reached = published_reached(1) [OF run]
  from payload_assembled [OF route_request_ok(1) reached] reached show ?thesis by blast
qed

end
