(* ===== verification/RateLimit.thy ===== *)
theory RateLimit
  imports Errors Calendar
begin

text \<open>
  app/llm/rate_limit.py: the limits on calls of the model. A token bucket and a daily counter are
  kept in Redis and changed by one script that runs atomically; \<open>acquire\<close> calls it until it grants,
  waits or gives up. Times are milliseconds; the clock of the store and the clock of the caller are
  separate values, because the script is handed the caller's. The script writes the number of tokens
  as a text, so what it reads back is the parameter \<open>lm_keep\<close>; otherwise its numbers are reals.
\<close>

section \<open>The store\<close>

record limiter =
  lm_capacity :: int
  lm_refill :: int                        \<comment> \<open>tokens a minute\<close>
  lm_cap :: int                           \<comment> \<open>calls a day\<close>
  lm_max_wait :: real                     \<comment> \<open>seconds\<close>
  lm_prefix :: pystr
  lm_keep :: "real \<Rightarrow> real"

text \<open>The bucket with its time stamp, and each day's counter with the instant it expires.\<close>

record rl_store =
  rl_bucket :: "(real \<times> int) option"
  rl_daily :: "pystr \<Rightarrow> (int \<times> int) option"

definition empty_store :: rl_store where
  "empty_store = \<lparr>rl_bucket = None, rl_daily = \<lambda>_. None\<rparr>"

definition live_counter :: "int \<Rightarrow> pystr \<Rightarrow> rl_store \<Rightarrow> (int \<times> int) option" where
  "live_counter t key st =
     (case rl_daily st key of None \<Rightarrow> None | Some (n, x) \<Rightarrow> if t < x then Some (n, x) else None)"

definition daily_count :: "int \<Rightarrow> pystr \<Rightarrow> rl_store \<Rightarrow> int" where
  "daily_count t key st = (case live_counter t key st of None \<Rightarrow> 0 | Some (n, x) \<Rightarrow> n)"

text \<open>\<open>INCR\<close>, and \<open>EXPIRE\<close> when the counter has become 1.\<close>

definition count_call :: "int \<Rightarrow> pystr \<Rightarrow> int \<Rightarrow> rl_store \<Rightarrow> rl_store" where
  "count_call t key ttl st =
     (let n = daily_count t key st + 1;
          x = (case live_counter t key st of None \<Rightarrow> t + 1000 * ttl | Some (m, x) \<Rightarrow> x)
      in st\<lparr>rl_daily := (rl_daily st)(key \<mapsto> (n, if n = 1 then t + 1000 * ttl else x))\<rparr>)"

section \<open>The script\<close>

datatype verdict = Granted | WaitFor int | DailyCap

definition refilled :: "limiter \<Rightarrow> int \<Rightarrow> rl_store \<Rightarrow> real" where
  "refilled L now st =
     (let (tokens, ts) = (case rl_bucket st of None \<Rightarrow> (real_of_int (lm_capacity L), now) | Some b \<Rightarrow> b);
          elapsed = max 0 (now - ts)
      in min (lm_capacity L) (tokens + elapsed * lm_refill L / 60000))"

definition lua_acquire ::
    "limiter \<Rightarrow> int \<Rightarrow> pystr \<Rightarrow> int \<Rightarrow> int \<Rightarrow> rl_store \<Rightarrow> verdict \<times> rl_store" where
  "lua_acquire L t key now ttl st =
     (if lm_cap L \<le> daily_count t key st then (DailyCap, st)
      else
        (let tokens = refilled L now st
         in if tokens < 1
            then (WaitFor \<lceil>(1 - tokens) * 60000 / lm_refill L\<rceil>,
                  st\<lparr>rl_bucket := Some (lm_keep L tokens, now)\<rparr>)
            else (Granted,
                  count_call t key ttl (st\<lparr>rl_bucket := Some (lm_keep L (tokens - 1), now)\<rparr>))))"

section \<open>A call of the script\<close>

definition micro_of_day :: "time \<Rightarrow> int" where
  "micro_of_day tm =
     int ((time_hour tm * 3600 + time_minute tm * 60 + time_second tm) * 1000000 + time_micro tm)"

definition daily_key :: "limiter \<Rightarrow> date \<Rightarrow> pystr" where
  "daily_key L d =
     lm_prefix L @ pad_zeros 4 (int_text (int (date_year d))) @ pad_zeros 2 (int_text (int (date_month d)))
       @ pad_zeros 2 (int_text (int (date_day d)))"

definition seconds_until_midnight :: "time \<Rightarrow> int" where
  "seconds_until_midnight tm = max 1 ((86400 * 1000000 - micro_of_day tm) div 1000000)"

text \<open>When a call reaches the store, the caller's clock in milliseconds and its time in Korea.\<close>

record script_call =
  sc_server :: int
  sc_client :: int
  sc_date :: date
  sc_time :: time

definition call_script :: "limiter \<Rightarrow> script_call \<Rightarrow> rl_store \<Rightarrow> verdict \<times> rl_store" where
  "call_script L c st =
     lua_acquire L (sc_server c) (daily_key L (sc_date c)) (sc_client c)
       (seconds_until_midnight (sc_time c)) st"

text \<open>The calls of all callers in the order in which the store runs them.\<close>

fun call_scripts :: "limiter \<Rightarrow> script_call list \<Rightarrow> rl_store \<Rightarrow> verdict list \<times> rl_store" where
  "call_scripts L [] st = ([], st)"
| "call_scripts L (c # cs) st =
     (let (v, st1) = call_script L c st; (vs, st2) = call_scripts L cs st1 in (v # vs, st2))"

definition grants :: "verdict list \<Rightarrow> nat" where
  "grants vs = length (filter (\<lambda>v. v = Granted) vs)"

section \<open>Acquiring\<close>

text \<open>What a turn of the loop does with the script's answer, given the seconds waited so far.\<close>

datatype loop_turn = Go | GiveUp pyexn | SleepFor real

definition acquire_turn :: "limiter \<Rightarrow> real \<Rightarrow> verdict \<Rightarrow> loop_turn" where
  "acquire_turn L waited v =
     (case v of
        Granted \<Rightarrow> Go
      | DailyCap \<Rightarrow> GiveUp (GeminiQuotaError (lit ''gemini_rpd_exceeded''))
      | WaitFor ms \<Rightarrow>
          (let w = max (5 / 100) (ms / 1000)
           in if lm_max_wait L < waited + w then GiveUp (GeminiQuotaError (lit ''gemini_rpm_exceeded''))
              else SleepFor w))"

lemma acquire_turn_cases:
  "acquire_turn L waited v = Go \<longleftrightarrow> v = Granted"
  "acquire_turn L waited v = GiveUp e \<longleftrightarrow>
     v = DailyCap \<and> e = GeminiQuotaError (lit ''gemini_rpd_exceeded'')
     \<or> (\<exists>ms. v = WaitFor ms \<and> lm_max_wait L < waited + max (1 / 20) (ms / 1000)
          \<and> e = GeminiQuotaError (lit ''gemini_rpm_exceeded''))"
  "acquire_turn L waited v = SleepFor w \<longleftrightarrow>
     (\<exists>ms. v = WaitFor ms \<and> w = max (1 / 20) (ms / 1000) \<and> waited + w \<le> lm_max_wait L)"
  by (cases v; auto simp: acquire_turn_def Let_def)+

text \<open>
  The answers of the script to one caller are a sequence, an exception of the store among them. The
  result comes with the seconds slept, in order.
\<close>

function acquire_loop ::
    "limiter \<Rightarrow> (nat \<Rightarrow> pyexn + verdict) \<Rightarrow> nat \<Rightarrow> real \<Rightarrow> (pyexn + unit) \<times> real list" where
  "acquire_loop L reply i waited =
     (case reply i of
        Inl e \<Rightarrow> (Inl e, [])
      | Inr v \<Rightarrow>
          (case acquire_turn L waited v of
             Go \<Rightarrow> (Inr (), [])
           | GiveUp e \<Rightarrow> (Inl e, [])
           | SleepFor w \<Rightarrow> (let (r, ws) = acquire_loop L reply (Suc i) (waited + w) in (r, w # ws))))"
  by pat_completeness auto

text \<open>Every wait takes a twentieth of a second at least, and together they stay within the bound.\<close>

termination
proof (relation "measure (\<lambda>(L, reply, i, waited). nat \<lfloor>20 * (lm_max_wait L - waited)\<rfloor>)", simp)
  fix L :: limiter and waited w :: real and reply :: "nat \<Rightarrow> pyexn + verdict" and i v
  assume "acquire_turn L waited v = SleepFor w"
  then have "1 / 20 \<le> w" and le: "waited + w \<le> lm_max_wait L" by (auto simp: acquire_turn_cases)
  then have "20 * (lm_max_wait L - (waited + w)) \<le> 20 * (lm_max_wait L - waited) - 1"
    unfolding right_diff_distrib distrib_left by linarith
  then have "\<lfloor>20 * (lm_max_wait L - (waited + w))\<rfloor> \<le> \<lfloor>20 * (lm_max_wait L - waited)\<rfloor> - 1"
    by linarith
  moreover have "0 \<le> \<lfloor>20 * (lm_max_wait L - (waited + w))\<rfloor>" using le by (simp add: algebra_simps)
  ultimately have "nat \<lfloor>20 * (lm_max_wait L - (waited + w))\<rfloor> < nat \<lfloor>20 * (lm_max_wait L - waited)\<rfloor>"
    by linarith
  then show "((L, reply, Suc i, waited + w), L, reply, i, waited)
      \<in> measure (\<lambda>(L, reply, i, waited). nat \<lfloor>20 * (lm_max_wait L - waited)\<rfloor>)"
    by (simp only: in_measure case_prod_conv)
qed

declare acquire_loop.simps [simp del]

definition acquire :: "limiter \<Rightarrow> (nat \<Rightarrow> pyexn + verdict) \<Rightarrow> (pyexn + unit) \<times> real list" where
  "acquire L reply = acquire_loop L reply 0 0"

section \<open>One call\<close>

definition bucket_ok :: "int \<Rightarrow> rl_store \<Rightarrow> bool" where
  "bucket_ok now st \<longleftrightarrow> (case rl_bucket st of None \<Rightarrow> True | Some (tokens, ts) \<Rightarrow> ts \<le> now)"

lemma refilled_capacity: "refilled L now st \<le> lm_capacity L"
  by (simp add: refilled_def Let_def split: option.splits prod.splits)

lemma lua_acquire_cases:
  obtains (capped) "lm_cap L \<le> daily_count t key st" "lua_acquire L t key now ttl st = (DailyCap, st)"
  | (denied) "daily_count t key st < lm_cap L" "refilled L now st < 1"
      "lua_acquire L t key now ttl st = (WaitFor \<lceil>(1 - refilled L now st) * 60000 / lm_refill L\<rceil>,
         st\<lparr>rl_bucket := Some (lm_keep L (refilled L now st), now)\<rparr>)"
  | (granted) "daily_count t key st < lm_cap L" "1 \<le> refilled L now st"
      "lua_acquire L t key now ttl st = (Granted,
         count_call t key ttl (st\<lparr>rl_bucket := Some (lm_keep L (refilled L now st - 1), now)\<rparr>))"
  by (cases "lm_cap L \<le> daily_count t key st"; cases "refilled L now st < 1")
     (auto simp: lua_acquire_def Let_def)

lemma count_call_bucket [simp]: "rl_bucket (count_call t key ttl st) = rl_bucket st"
  by (simp add: count_call_def Let_def)

text \<open>The tokens a span of time earns.\<close>

definition earned :: "limiter \<Rightarrow> int \<Rightarrow> int \<Rightarrow> real" where
  "earned L a b = real_of_int (b - a) * real_of_int (lm_refill L) / 60000"

lemma earned_add: "earned L a b + earned L b c = earned L a c"
  by (simp add: earned_def field_simps)

lemma earned_nonneg: "a \<le> b \<Longrightarrow> 0 \<le> lm_refill L \<Longrightarrow> 0 \<le> earned L a b"
  by (simp add: earned_def)

lemma earned_same [simp]: "earned L a a = 0"
  by (simp add: earned_def)

lemma refilled_Some:
  "rl_bucket st = Some (x, ts) \<Longrightarrow> ts \<le> now \<Longrightarrow> refilled L now st = min (lm_capacity L) (x + earned L ts now)"
  by (simp add: refilled_def earned_def)

text \<open>What a bucket written at \<open>now\<close> holds later, and that an old one never holds more than its refill.\<close>

lemma refilled_later:
  "rl_bucket st = Some (x, now) \<Longrightarrow> now \<le> later \<Longrightarrow> refilled L later st \<le> x + earned L now later"
  by (simp add: refilled_Some)

lemma refilled_mono:
  assumes "bucket_ok now st" and "now \<le> later" and "0 \<le> lm_refill L"
  shows "refilled L later st \<le> refilled L now st + earned L now later"
proof (cases "rl_bucket st")
  case None
  then show ?thesis using earned_nonneg [OF assms(2,3)] by (simp add: refilled_def)
next
  case (Some b)
  obtain x ts where b: "b = (x, ts)" by fastforce
  with Some assms(1) have ts: "ts \<le> now" by (simp add: bucket_ok_def)
  show ?thesis
    using refilled_Some [OF Some [unfolded b] ts, of L] earned_add [of L ts now later] earned_nonneg [OF assms(2,3)]
      refilled_Some [OF Some [unfolded b], of later L] ts assms(2) by (simp add: min_def)
qed

text \<open>A grant is paid for, up to the rounding of the text.\<close>

lemma lua_acquire_pays:
  fixes e :: real
  assumes "lua_acquire L t key now ttl st = (v, st')" and "bucket_ok now st" and "now \<le> later"
    and "0 \<le> lm_refill L" and "\<forall>x. \<bar>lm_keep L x - x\<bar> \<le> e"
  shows "refilled L later st' \<le> refilled L now st - (if v = Granted then 1 else 0) + e
      + earned L now later" and "bucket_ok later st'"
    and "v = Granted \<Longrightarrow> 1 \<le> refilled L now st"
proof -
  have e: "0 \<le> e" and keep: "lm_keep L x \<le> x + e" for x
    using spec [OF assms(5), of x] by linarith+
  have "refilled L later st' \<le> refilled L now st - (if v = Granted then 1 else 0) + e
      + earned L now later \<and> bucket_ok later st'
      \<and> (v = Granted \<longrightarrow> 1 \<le> refilled L now st)"
  proof (cases rule: lua_acquire_cases [of L t key st now ttl])
    case capped
    then show ?thesis
      using assms(1-4) refilled_mono [OF assms(2-4)] e by (auto simp: bucket_ok_def split: option.splits)
  next
    case denied
    then have st': "v \<noteq> Granted" "rl_bucket st' = Some (lm_keep L (refilled L now st), now)"
      using assms(1) by auto
    then show ?thesis
      using refilled_later [OF st'(2) assms(3), of L] keep [of "refilled L now st"] assms(3)
      by (simp add: bucket_ok_def)
  next
    case granted
    then have st': "v = Granted" "rl_bucket st' = Some (lm_keep L (refilled L now st - 1), now)"
      using assms(1) by auto
    then show ?thesis
      using refilled_later [OF st'(2) assms(3), of L] keep [of "refilled L now st - 1"] assms(3) granted(2)
      by (simp add: bucket_ok_def)
  qed
  then show "refilled L later st' \<le> refilled L now st - (if v = Granted then 1 else 0) + e
      + earned L now later" and "bucket_ok later st'"
    and "v = Granted \<Longrightarrow> 1 \<le> refilled L now st" by blast+
qed

section \<open>Many calls\<close>

lemma grants_simps [simp]: "grants [] = 0" "grants (v # vs) = (if v = Granted then 1 else 0) + grants vs"
  by (simp_all add: grants_def)

lemma call_scripts_grants:
  fixes e :: real
  assumes "call_scripts L (c # cs) st = (vs, st')" and "bucket_ok (sc_client c) st"
    and "sorted (map sc_client (c # cs))" and "0 \<le> lm_refill L" and "\<forall>x. \<bar>lm_keep L x - x\<bar> \<le> e"
  shows "grants vs \<le> max 0 (refilled L (sc_client c) st)
      + earned L (sc_client c) (sc_client (last (c # cs))) + e * (length cs + 1)"
  using assms(1-3)
proof (induction cs arbitrary: c st vs st')
  case Nil
  obtain v st1 where call: "call_script L c st = (v, st1)" by fastforce
  then have vs: "vs = [v]" using Nil.prems(1) by simp
  have "0 \<le> e" using spec [OF assms(5), of 0] by linarith
  then show ?case
    using lua_acquire_pays(3) [OF call [unfolded call_script_def] Nil.prems(2) order_refl assms(4,5)]
    by (auto simp: vs max_def)
next
  case (Cons d ds)
  obtain v st1 where call: "call_script L c st = (v, st1)" by fastforce
  obtain us st2 where rest: "call_scripts L (d # ds) st1 = (us, st2)" by fastforce
  have vs: "vs = v # us" using Cons.prems(1) call rest by (simp split: prod.splits)
  have later: "sc_client c \<le> sc_client d" using Cons.prems(3) by simp
  note pays = lua_acquire_pays [OF call [unfolded call_script_def] Cons.prems(2) later assms(4,5)]
  have "grants us \<le> max 0 (refilled L (sc_client d) st1)
      + earned L (sc_client d) (sc_client (last (d # ds))) + e * (length ds + 1)"
    using Cons.IH [OF rest pays(2)] Cons.prems(3) by simp
  moreover have "earned L (sc_client c) (sc_client d) + earned L (sc_client d) (sc_client (last (d # ds)))
      = earned L (sc_client c) (sc_client (last (c # d # ds)))" by (simp add: earned_add)
  moreover have "0 \<le> earned L (sc_client c) (sc_client d)" by (rule earned_nonneg [OF later assms(4)])
  moreover have "0 \<le> e" using spec [OF assms(5), of 0] by linarith
  ultimately show ?case
    using pays(1,3) by (auto simp: vs max_def algebra_simps split: if_splits)
qed

text \<open>The daily counter, as long as its key is alive.\<close>

lemma counter_before:
  assumes "rl_daily st key = None \<or> (\<exists>n x. rl_daily st key = Some (n, x) \<and> X \<le> x)" and "t < X"
  shows "live_counter t key st = rl_daily st key"
  using assms by (auto simp: live_counter_def)

lemma lua_acquire_counts:
  assumes "lua_acquire L t key now ttl st = (v, st')" and "t < X" and "X \<le> t + 1000 * ttl"
    and "rl_daily st key = None \<or> (\<exists>n x. rl_daily st key = Some (n, x) \<and> X \<le> x)"
    and "0 \<le> daily_count t key st"
  shows "(\<exists>n x. rl_daily st' key = Some (n, x) \<and> X \<le> x) \<or> rl_daily st' key = rl_daily st key"
    and "u < X \<Longrightarrow> daily_count u key st' = daily_count t key st + (if v = Granted then 1 else 0)"
    and "v = Granted \<Longrightarrow> daily_count t key st < lm_cap L"
proof -
  have live: "live_counter u key st = rl_daily st key" if "u < X" for u
    by (rule counter_before [OF assms(4) that])
  note before = live [OF assms(2)]
  have "((\<exists>n x. rl_daily st' key = Some (n, x) \<and> X \<le> x) \<or> rl_daily st' key = rl_daily st key)
      \<and> (u < X \<longrightarrow> daily_count u key st' = daily_count t key st + (if v = Granted then 1 else 0))
      \<and> (v = Granted \<longrightarrow> daily_count t key st < lm_cap L)"
  proof (cases rule: lua_acquire_cases [of L t key st now ttl])
    case capped
    then show ?thesis using assms(1) live before by (auto simp: daily_count_def)
  next
    case denied
    then have "v \<noteq> Granted" "rl_daily st' = rl_daily st" using assms(1) by auto
    then show ?thesis using live before by (auto simp: daily_count_def live_counter_def)
  next
    case granted
    let ?s = "st\<lparr>rl_bucket := Some (lm_keep L (refilled L now st - 1), now)\<rparr>"
    have v: "v = Granted" "st' = count_call t key ttl ?s" using granted assms(1) by auto
    have same: "live_counter t key ?s = rl_daily st key" "daily_count t key ?s = daily_count t key st"
      using before by (simp_all add: live_counter_def daily_count_def)
    obtain x where x: "rl_daily st' key = Some (daily_count t key st + 1, x)" "X \<le> x"
      using assms(3,4) by (auto simp: v(2) count_call_def Let_def same split: option.splits)
    then show ?thesis using v(1) granted(1) by (auto simp: daily_count_def live_counter_def)
  qed
  then show "(\<exists>n x. rl_daily st' key = Some (n, x) \<and> X \<le> x) \<or> rl_daily st' key = rl_daily st key"
    and "u < X \<Longrightarrow> daily_count u key st' = daily_count t key st + (if v = Granted then 1 else 0)"
    and "v = Granted \<Longrightarrow> daily_count t key st < lm_cap L" by blast+
qed

lemma call_scripts_count:
  assumes "call_scripts L cs st = (vs, st')" and "t < X"
    and "\<forall>c \<in> set cs. daily_key L (sc_date c) = key \<and> sc_server c < X
      \<and> X \<le> sc_server c + 1000 * seconds_until_midnight (sc_time c)"
    and "rl_daily st key = None \<or> (\<exists>n x. rl_daily st key = Some (n, x) \<and> X \<le> x)"
    and "0 \<le> daily_count t key st"
  shows "daily_count t key st' = daily_count t key st + grants vs
    \<and> (grants vs = 0 \<or> daily_count t key st' \<le> lm_cap L)"
  using assms(1,3-)
proof (induction cs arbitrary: st vs)
  case (Cons c cs)
  obtain v st1 where call: "call_script L c st = (v, st1)" by fastforce
  obtain us where rest: "call_scripts L cs st1 = (us, st')" and vs: "vs = v # us"
    using Cons.prems(1) call by (auto split: prod.splits)
  have key: "daily_key L (sc_date c) = key" and c: "sc_server c < X"
    "X \<le> sc_server c + 1000 * seconds_until_midnight (sc_time c)" using Cons.prems(2) by auto
  have same: "daily_count u key st = daily_count w key st" if "u < X" "w < X" for u w
    using counter_before [OF Cons.prems(3)] that by (simp add: daily_count_def)
  have "0 \<le> daily_count (sc_server c) key st" using same [OF c(1) assms(2)] Cons.prems(4) by simp
  note counts = lua_acquire_counts [OF call [unfolded call_script_def key] c Cons.prems(3) this]
  have st1: "rl_daily st1 key = None \<or> (\<exists>n x. rl_daily st1 key = Some (n, x) \<and> X \<le> x)"
    using counts(1) Cons.prems(3) by auto
  have step: "daily_count t key st1 = daily_count t key st + (if v = Granted then 1 else 0)"
    using counts(2) [OF assms(2)] same [OF c(1) assms(2)] by simp
  have IH: "daily_count t key st' = daily_count t key st1 + grants us"
    "grants us = 0 \<or> daily_count t key st' \<le> lm_cap L"
    using Cons.IH [OF rest _ st1] Cons.prems(2,4) step by auto
  have low: "v = Granted \<Longrightarrow> daily_count t key st < lm_cap L"
    using counts(3) same [OF c(1) assms(2)] by simp
  show ?case
  proof (cases "v = Granted")
    case True
    then show ?thesis using IH step low [OF True] by (auto simp: vs)
  next
    case False
    then show ?thesis using IH step by (simp add: vs)
  qed
qed simp

section \<open>Waiting\<close>

text \<open>What ended the loop after the waits \<open>ws\<close>, in terms of the answer that ended it.\<close>

definition loop_end :: "limiter \<Rightarrow> real \<Rightarrow> pyexn + verdict \<Rightarrow> pyexn + unit \<Rightarrow> bool" where
  "loop_end L waited answer r \<longleftrightarrow>
     (case answer of
        Inl e \<Rightarrow> r = Inl e
      | Inr Granted \<Rightarrow> r = Inr ()
      | Inr DailyCap \<Rightarrow> r = Inl (GeminiQuotaError (lit ''gemini_rpd_exceeded''))
      | Inr (WaitFor ms) \<Rightarrow> r = Inl (GeminiQuotaError (lit ''gemini_rpm_exceeded''))
          \<and> lm_max_wait L < waited + max (1 / 20) (ms / 1000))"

lemma acquire_loop_trace:
  "acquire_loop L reply i waited = (r, ws) \<Longrightarrow>
     sum_list ws + waited \<le> max waited (lm_max_wait L)
     \<and> (\<forall>j < length ws. \<exists>ms. reply (i + j) = Inr (WaitFor ms) \<and> ws ! j = max (1 / 20) (ms / 1000))
     \<and> loop_end L (waited + sum_list ws) (reply (i + length ws)) r"
proof (induction L reply i waited arbitrary: r ws rule: acquire_loop.induct)
  case (1 L reply i waited)
  show ?case
  proof (cases "\<exists>v w. reply i = Inr v \<and> acquire_turn L waited v = SleepFor w")
    case False
    have "ws = [] \<and> loop_end L waited (reply i) r"
    proof (cases "reply i")
      case (Inr v)
      with False "1.prems" show ?thesis
        by (cases v) (auto simp: acquire_loop.simps [of L reply i] acquire_turn_def loop_end_def Let_def
            split: if_splits)
    qed (use "1.prems" in \<open>simp add: acquire_loop.simps [of L reply i] loop_end_def\<close>)
    then show ?thesis by simp
  next
    case True
    then obtain v w where v: "reply i = Inr v" "acquire_turn L waited v = SleepFor w" by blast
    then obtain ms where ms: "v = WaitFor ms" "w = max (1 / 20) (ms / 1000)" "waited + w \<le> lm_max_wait L"
      by (auto simp: acquire_turn_cases)
    obtain us where rest: "acquire_loop L reply (Suc i) (waited + w) = (r, us)" and ws: "ws = w # us"
      using "1.prems" v by (auto simp: acquire_loop.simps [of L reply i] Let_def split: prod.splits)
    from "1.IH" [OF v rest]
    have IH: "sum_list us + (waited + w) \<le> max (waited + w) (lm_max_wait L)"
      "\<forall>j < length us. \<exists>ms. reply (Suc i + j) = Inr (WaitFor ms) \<and> us ! j = max (1 / 20) (ms / 1000)"
      "loop_end L (waited + w + sum_list us) (reply (Suc i + length us)) r" by blast+
    have "\<exists>ms. reply (i + j) = Inr (WaitFor ms) \<and> ws ! j = max (1 / 20) (ms / 1000)" if "j < length ws" for j
      using that IH(2) v(1) ms by (cases j) (auto simp: ws)
    then show ?thesis using IH(1,3) ms(3) by (auto simp: ws max_def add.assoc split: if_splits)
  qed
qed

lemma waits_number:
  fixes c :: real
  shows "\<forall>w \<in> set ws. c \<le> w \<Longrightarrow> c * length ws \<le> sum_list ws"
  by (induction ws) (auto simp: algebra_simps)

section \<open>Properties\<close>

definition default_limiter :: limiter where
  "default_limiter = \<lparr>lm_capacity = 10, lm_refill = 10, lm_cap = 200, lm_max_wait = 60,
     lm_prefix = lit ''gemini:daily:'', lm_keep = \<lambda>x. x\<rparr>"

definition morning_call :: "int \<Rightarrow> script_call" where
  "morning_call t = \<lparr>sc_server = t, sc_client = t, sc_date = Date 2026 3 1, sc_time = Time 9 0 0 0\<rparr>"

text \<open>
  However the callers interleave, the script grants no more than the bucket holds and the time
  earns: over any sequence of calls whose clocks do not go back, the grants are at most the capacity
  and the refill of the elapsed time, up to the rounding of the texts the tokens are stored as.
\<close>

theorem grants_rate_bounded:
  fixes e :: real
  assumes "call_scripts L (c # cs) st = (vs, st')" and "bucket_ok (sc_client c) st"
    and "sorted (map sc_client (c # cs))" and "0 \<le> lm_refill L" and "0 \<le> lm_capacity L"
    and "\<forall>x. \<bar>lm_keep L x - x\<bar> \<le> e"
  shows "grants vs \<le> lm_capacity L
    + (sc_client (last (c # cs)) - sc_client c) * lm_refill L / 60000 + e * length (c # cs)"
  using call_scripts_grants [OF assms(1-4,6)] refilled_capacity [of L "sc_client c" st] assms(5)
  by (simp add: earned_def max_def split: if_splits)

theorem grants_rate_bounded_witness:
  "\<exists>vs st'. call_scripts default_limiter (replicate 12 (morning_call 0)) empty_store = (vs, st')
     \<and> grants vs \<le> (10 :: real)"
proof -
  obtain vs st' where run: "call_scripts default_limiter (morning_call 0 # replicate 11 (morning_call 0)) empty_store
      = (vs, st')" by fastforce
  have "real (grants vs) \<le> 10"
    using grants_rate_bounded [OF run, of 0]
    by (simp add: bucket_ok_def empty_store_def default_limiter_def last_replicate)
  moreover have "morning_call 0 # replicate 11 (morning_call 0) = replicate 12 (morning_call 0)"
    by (simp add: numeral_eq_Suc)
  ultimately show ?thesis using run by metis
qed

text \<open>
  The daily cap is never exceeded while the day's counter lives: whatever the callers do and
  however they interleave, the grants of a day, added to those already counted, stay within the cap.
\<close>

theorem daily_cap_holds:
  assumes "call_scripts L cs st = (vs, st')" and "t < X"
    and "\<forall>c \<in> set cs. daily_key L (sc_date c) = key \<and> sc_server c < X
      \<and> X \<le> sc_server c + 1000 * seconds_until_midnight (sc_time c)"
    and "rl_daily st key = None \<or> (\<exists>n x. rl_daily st key = Some (n, x) \<and> X \<le> x)"
    and "0 \<le> daily_count t key st"
  shows "daily_count t key st' = daily_count t key st + grants vs
    \<and> (grants vs = 0 \<or> daily_count t key st' \<le> lm_cap L)"
  using assms by (rule call_scripts_count)

theorem daily_cap_holds_witness:
  "\<exists>vs st'. call_scripts (default_limiter\<lparr>lm_cap := 3\<rparr>) (replicate 5 (morning_call 0)) empty_store = (vs, st')
     \<and> grants vs \<le> 3"
proof -
  let ?L = "default_limiter\<lparr>lm_cap := 3\<rparr>"
  obtain vs st' where run: "call_scripts ?L (replicate 5 (morning_call 0)) empty_store = (vs, st')" by fastforce
  have "seconds_until_midnight (Time 9 0 0 0) = 54000"
    by (simp add: seconds_until_midnight_def micro_of_day_def)
  then have "int (grants vs) \<le> 3"
    using daily_cap_holds [OF run, of 0 1 "daily_key ?L (Date 2026 3 1)"]
    by (auto simp: morning_call_def empty_store_def daily_count_def live_counter_def default_limiter_def)
  with run show ?thesis by auto
qed

text \<open>
  C18: Acquiring a permit always comes to an end, whatever the store answers. Each wait is exactly the
  one the script asked for, but a twentieth of a second at least; all together they stay within the
  bound, so there are at most twenty a second of it. The answer after the last wait decides: a permit
  is given exactly for a grant, so no granted token is lost or taken twice; the daily cap raises
  \<open>gemini_rpd_exceeded\<close>, a wait that would take the total over the bound \<open>gemini_rpm_exceeded\<close>, and an
  exception of the store is raised as it is.
\<close>

theorem acquire_bounded:
  "case acquire L reply of (r, ws) \<Rightarrow>
     sum_list ws \<le> max 0 (lm_max_wait L) \<and> length ws \<le> 20 * max 0 (lm_max_wait L)
     \<and> (\<forall>j < length ws. \<exists>ms. reply j = Inr (WaitFor ms) \<and> ws ! j = max (1 / 20) (ms / 1000))
     \<and> (r = Inr () \<longleftrightarrow> reply (length ws) = Inr Granted)
     \<and> (case reply (length ws) of
          Inl e \<Rightarrow> r = Inl e
        | Inr Granted \<Rightarrow> r = Inr ()
        | Inr DailyCap \<Rightarrow> r = Inl (GeminiQuotaError (lit ''gemini_rpd_exceeded''))
        | Inr (WaitFor ms) \<Rightarrow> r = Inl (GeminiQuotaError (lit ''gemini_rpm_exceeded''))
            \<and> lm_max_wait L < sum_list ws + max (1 / 20) (ms / 1000))"
proof -
  obtain r ws where run: "acquire_loop L reply 0 0 = (r, ws)" by fastforce
  note trace = acquire_loop_trace [OF run]
  then have "\<forall>w \<in> set ws. 1 / 20 \<le> w" by (fastforce simp: in_set_conv_nth)
  from waits_number [OF this] trace show ?thesis
    by (auto simp: acquire_def run loop_end_def split: sum.splits verdict.splits)
qed

theorem acquire_bounded_witness:
  "fst (acquire default_limiter (\<lambda>i. Inr (if i = 0 then WaitFor 6000 else Granted))) = Inr ()
   \<and> sum_list (snd (acquire default_limiter (\<lambda>i. Inr (if i = 0 then WaitFor 6000 else Granted)))) \<le> 60"
proof -
  let ?reply = "\<lambda>i. Inr (if i = 0 then WaitFor 6000 else Granted)"
  have "acquire default_limiter ?reply = (Inr (), [6])"
    by (simp add: acquire_def acquire_loop.simps default_limiter_def acquire_turn_def)
  then show ?thesis using acquire_bounded [of default_limiter ?reply] by (simp add: default_limiter_def)
qed



text \<open>
  Two limits of this. The clock is the caller's: of two callers whose clocks are a minute apart, the
  one ahead finds the bucket refilled each time it comes after the other, although no time has passed
  in the store. And the day's counter is dropped up to a second before midnight, because its time to
  live is cut to whole seconds: with a cap of one, a second call of the same day is granted.
\<close>

lemma clock_skew_refills:
  "fst (call_scripts (default_limiter\<lparr>lm_capacity := 1\<rparr>)
     [morning_call 0, (morning_call 0)\<lparr>sc_client := 60000\<rparr>, morning_call 0,
      (morning_call 0)\<lparr>sc_client := 60000\<rparr>] empty_store) = [Granted, Granted, WaitFor 6000, Granted]"
  by (simp add: call_script_def lua_acquire_def refilled_def daily_count_def live_counter_def count_call_def
      default_limiter_def morning_call_def empty_store_def daily_key_def Let_def)

lemma counter_dropped_before_midnight:
  "fst (call_scripts (default_limiter\<lparr>lm_cap := 1\<rparr>)
     [\<lparr>sc_server = 0, sc_client = 0, sc_date = Date 2026 3 1, sc_time = Time 9 0 0 900000\<rparr>,
      \<lparr>sc_server = 53999000, sc_client = 53999000, sc_date = Date 2026 3 1, sc_time = Time 23 59 59 900000\<rparr>]
     empty_store) = [Granted, Granted]"
  by (simp add: call_script_def lua_acquire_def refilled_def daily_count_def live_counter_def count_call_def
      default_limiter_def empty_store_def daily_key_def seconds_until_midnight_def micro_of_day_def Let_def)

end
