(* ===== verification/Base64.thy ===== *)
theory Base64
  imports Errors
begin

text \<open>
  The base64 codecs of the Python library that app/crypto uses: the URL alphabet without padding
  that a sealed value is written in, the lenient decoder (it skips characters outside the alphabet
  and stops at complete padding) and the strict one (\<open>validate=True\<close>). Bytes and characters are
  numbers.
\<close>

section \<open>Alphabet\<close>

definition b64_char :: "nat \<Rightarrow> nat" where
  "b64_char v =
     (if v < 26 then v + 65 else if v < 52 then v + 71 else if v < 62 then v - 4
      else if v = 62 then 43 else 47)"

definition b64_value :: "nat \<Rightarrow> nat option" where
  "b64_value c =
     (if 65 \<le> c \<and> c \<le> 90 then Some (c - 65)
      else if 97 \<le> c \<and> c \<le> 122 then Some (c - 71)
      else if 48 \<le> c \<and> c \<le> 57 then Some (c + 4)
      else if c = 43 then Some 62 else if c = 47 then Some 63 else None)"

definition url_char :: "nat \<Rightarrow> nat" where
  "url_char c = (if c = 43 then 45 else if c = 47 then 95 else c)"

definition std_char :: "nat \<Rightarrow> nat" where
  "std_char c = (if c = 45 then 43 else if c = 95 then 47 else c)"

section \<open>Encoding\<close>

fun b64_encode :: "nat list \<Rightarrow> nat list" where
  "b64_encode [] = []"
| "b64_encode [a] = [b64_char (a div 4), b64_char (a mod 4 * 16), 61, 61]"
| "b64_encode [a, b] =
     [b64_char (a div 4), b64_char (a mod 4 * 16 + b div 16), b64_char (b mod 16 * 4), 61]"
| "b64_encode (a # b # c # xs) =
     b64_char (a div 4) # b64_char (a mod 4 * 16 + b div 16)
       # b64_char (b mod 16 * 4 + c div 64) # b64_char (c mod 64) # b64_encode xs"

text \<open>\<open>urlsafe_b64encode(raw).decode().rstrip("=")\<close>.\<close>

definition b64url :: "nat list \<Rightarrow> nat list" where
  "b64url raw = rev (dropWhile (\<lambda>c. c = 61) (rev (map url_char (b64_encode raw))))"

section \<open>Decoding\<close>

text \<open>
  One character after the other, with the place in the group of four, the bits left over and the
  number of padding characters seen; \<open>None\<close> is \<open>binascii.Error\<close>.
\<close>

definition b64_byte :: "nat \<Rightarrow> nat \<Rightarrow> nat \<Rightarrow> nat" where
  "b64_byte q left v = (if q = 1 then left * 4 + v div 16 else if q = 2 then left * 16 + v div 4 else left * 64 + v)"

definition b64_left :: "nat \<Rightarrow> nat \<Rightarrow> nat" where
  "b64_left q v = (if q = 0 then v else if q = 1 then v mod 16 else if q = 2 then v mod 4 else 0)"

fun a2b :: "nat list \<Rightarrow> nat \<Rightarrow> nat \<Rightarrow> nat \<Rightarrow> nat list option" where
  "a2b [] q left pads = (if q = 0 then Some [] else None)"
| "a2b (c # cs) q left pads =
     (if c = 61
      then (if 2 \<le> q
            then (if 4 \<le> q + pads + 1 then Some [] else a2b cs q left (pads + 1))
            else a2b cs q left pads)
      else case b64_value c of
          None \<Rightarrow> a2b cs q left pads
        | Some v \<Rightarrow>
            map_option (\<lambda>bs. if q = 0 then bs else b64_byte q left v # bs)
              (a2b cs (if q = 3 then 0 else q + 1) (b64_left q v) 0))"

text \<open>The strict decoder refuses what the lenient one skips, and anything after the padding.\<close>

fun a2b_strict :: "nat list \<Rightarrow> nat \<Rightarrow> nat \<Rightarrow> nat \<Rightarrow> bool \<Rightarrow> nat list option" where
  "a2b_strict [] q left pads started = (if q = 0 then Some [] else None)"
| "a2b_strict (c # cs) q left pads started =
     (if c = 61
      then (if q = 0 then None
            else if 2 \<le> q
            then (if 4 \<le> q + pads + 1 then (if cs = [] then Some [] else None)
                  else a2b_strict cs q left (pads + 1) True)
            else a2b_strict cs q left pads True)
      else case b64_value c of
          None \<Rightarrow> None
        | Some v \<Rightarrow>
            (if started then None
             else map_option (\<lambda>bs. if q = 0 then bs else b64_byte q left v # bs)
               (a2b_strict cs (if q = 3 then 0 else q + 1) (b64_left q v) 0 False)))"

definition is_ascii :: "nat list \<Rightarrow> bool" where
  "is_ascii s \<longleftrightarrow> list_all (\<lambda>c. c < 128) s"

text \<open>\<open>base64.b64decode(s)\<close> and \<open>base64.b64decode(s, validate=True)\<close>; \<open>None\<close> is an exception.\<close>

definition b64_decode :: "nat list \<Rightarrow> nat list option" where
  "b64_decode s = (if is_ascii s then a2b s 0 0 0 else None)"

definition b64_decode_strict :: "nat list \<Rightarrow> nat list option" where
  "b64_decode_strict s = (if is_ascii s then a2b_strict s 0 0 0 False else None)"

text \<open>\<open>urlsafe_b64decode(text + "=" * (-len(text) % 4))\<close>.\<close>

definition padding :: "nat list \<Rightarrow> nat list" where
  "padding s = replicate ((4 - length s mod 4) mod 4) 61"

definition b64url_decode :: "nat list \<Rightarrow> nat list option" where
  "b64url_decode s =
     (if is_ascii s then b64_decode (map std_char (s @ padding s)) else None)"

section \<open>Round trip\<close>

lemma b64_value_char: "v < 64 \<Longrightarrow> b64_value (b64_char v) = Some v"
  by (auto simp: b64_value_def b64_char_def)

lemma b64_char_props: "v < 64 \<Longrightarrow> b64_char v \<noteq> 61 \<and> b64_char v \<noteq> 46 \<and> b64_char v < 128
    \<and> std_char (url_char (b64_char v)) = b64_char v \<and> url_char (b64_char v) \<noteq> 61 \<and> url_char (b64_char v) \<noteq> 46
    \<and> url_char (b64_char v) < 128"
  by (auto simp: b64_char_def std_char_def url_char_def)

text \<open>The code as numbers of six bits, without its padding.\<close>

fun sextets :: "nat list \<Rightarrow> nat list" where
  "sextets [] = []"
| "sextets [a] = [a div 4, a mod 4 * 16]"
| "sextets [a, b] = [a div 4, a mod 4 * 16 + b div 16, b mod 16 * 4]"
| "sextets (a # b # c # xs) =
     (a div 4) # (a mod 4 * 16 + b div 16) # (b mod 16 * 4 + c div 64) # (c mod 64) # sextets xs"

definition is_bytes :: "nat list \<Rightarrow> bool" where
  "is_bytes bs \<longleftrightarrow> list_all (\<lambda>b. b < 256) bs"

lemma is_bytes_simps [simp]: "is_bytes []" "is_bytes (b # bs) \<longleftrightarrow> b < 256 \<and> is_bytes bs"
  by (simp_all add: is_bytes_def)

lemma mod_small: "x mod 4 < (4 :: nat)" "x mod 16 < (16 :: nat)" "x mod 64 < (64 :: nat)"
  by simp_all

lemma div_small:
  "a < 256 \<Longrightarrow> a div 4 < (64 :: nat)" "a < 256 \<Longrightarrow> a div 16 < (16 :: nat)" "a < 256 \<Longrightarrow> a div 64 < (4 :: nat)"
  by (simp_all add: less_mult_imp_div_less)

lemma six_bits:
  "a < 256 \<Longrightarrow> a div 4 < (64 :: nat)" "a mod 4 * 16 < (64 :: nat)"
  "b < 256 \<Longrightarrow> a mod 4 * 16 + b div 16 < (64 :: nat)" "b mod 16 * 4 < (64 :: nat)"
  "c < 256 \<Longrightarrow> b mod 16 * 4 + c div 64 < (64 :: nat)" "c mod 64 < (64 :: nat)"
  using div_small(1) [of a] mod_small(1) [of a] div_small(2) [of b] mod_small(2) [of b] div_small(3) [of c]
    mod_small(3) [of c] by linarith+

lemma sextets_small: "is_bytes bs \<Longrightarrow> \<forall>v \<in> set (sextets bs). v < 64"
  by (induction bs rule: sextets.induct) (simp_all add: six_bits)

lemma b64_encode_sextets:
  "b64_encode bs = map b64_char (sextets bs) @ replicate ((4 - length (sextets bs) mod 4) mod 4) 61"
  by (induction bs rule: b64_encode.induct) (simp_all add: numeral_2_eq_2)

lemma dropWhile_replicate: "ys = [] \<or> \<not> P (hd ys) \<Longrightarrow> P x \<Longrightarrow> dropWhile P (replicate n x @ ys) = ys"
  by (induction n) (cases ys; simp)+

text \<open>The text of a code is its sextets in the URL alphabet, and padding restores the standard form.\<close>

lemma b64url_sextets:
  assumes "is_bytes bs"
  shows "b64url bs = map (url_char \<circ> b64_char) (sextets bs)"
proof -
  let ?xs = "map (url_char \<circ> b64_char) (sextets bs)"
  have "rev ?xs = [] \<or> hd (rev ?xs) \<noteq> 61"
    using sextets_small [OF assms] b64_char_props by (cases "sextets bs" rule: rev_cases) auto
  moreover have "rev (map url_char (b64_encode bs))
      = replicate ((4 - length (sextets bs) mod 4) mod 4) 61 @ rev ?xs"
    by (simp add: b64_encode_sextets url_char_def rev_map)
  ultimately show ?thesis by (simp add: b64url_def dropWhile_replicate)
qed

lemma b64url_padded:
  assumes "is_bytes bs"
  shows "map std_char (b64url bs @ padding (b64url bs)) = b64_encode bs" and "is_ascii (b64url bs)"
    and "46 \<notin> set (b64url bs)"
proof -
  note small = sextets_small [OF assms]
  have "map std_char (b64url bs) = map b64_char (sextets bs)"
    using small b64_char_props by (simp add: b64url_sextets [OF assms])
  then show "map std_char (b64url bs @ padding (b64url bs)) = b64_encode bs"
    by (simp add: b64_encode_sextets padding_def b64url_sextets [OF assms] std_char_def)
  show "is_ascii (b64url bs)" and "46 \<notin> set (b64url bs)"
    using small b64_char_props by (auto simp: b64url_sextets [OF assms] is_ascii_def list_all_iff)
qed

lemma b64_encode_ascii: "is_bytes bs \<Longrightarrow> is_ascii (b64_encode bs)"
  using sextets_small [of bs] b64_char_props by (auto simp: b64_encode_sextets is_ascii_def list_all_iff)

lemma b64_encode_chars:
  assumes "is_bytes bs" and "c \<in> set (b64_encode bs)"
  shows "\<not> is_space c \<and> c \<noteq> 44 \<and> c \<noteq> 58"
proof -
  from assms sextets_small [OF assms(1)] consider "c = 61" | v where "v < 64" "c = b64_char v"
    by (auto simp: b64_encode_sextets split: if_splits)
  then show ?thesis by cases (auto simp: b64_char_def is_space_def)
qed

text \<open>Four characters of code give three bytes, and the padded end one or two.\<close>

lemma bytes_back:
  assumes "b < 256" and "c < (256 :: nat)"
  shows "a div 4 * 4 + (a mod 4 * 16 + b div 16) div 16 = (a :: nat)"
    "a div 4 * 4 + (a mod 4 * 16) div 16 = a"
    "(a mod 4 * 16 + b div 16) mod 16 * 16 + (b mod 16 * 4 + c div 64) div 4 = b"
    "(a mod 4 * 16 + b div 16) mod 16 * 16 + (b mod 16 * 4) div 4 = b"
    "(b mod 16 * 4 + c div 64) mod 4 * 64 + c mod 64 = c"
proof -
  have split: "(m * k + s) div k = m" "(m * k + s) mod k = s" if "s < k" for m s k :: nat
    using that by simp_all
  note small = div_small(2) [OF assms(1)] div_small(3) [OF assms(2)]
  show "a div 4 * 4 + (a mod 4 * 16 + b div 16) div 16 = a" "a div 4 * 4 + (a mod 4 * 16) div 16 = a"
    by (simp_all add: split(1) [OF small(1)])
  show "(a mod 4 * 16 + b div 16) mod 16 * 16 + (b mod 16 * 4 + c div 64) div 4 = b"
    "(a mod 4 * 16 + b div 16) mod 16 * 16 + (b mod 16 * 4) div 4 = b"
    by (simp_all only: split(2) [OF small(1)] split(1) [OF small(2)]) simp_all
  show "(b mod 16 * 4 + c div 64) mod 4 * 64 + c mod 64 = c"
    by (simp only: split(2) [OF small(2)] div_mult_mod_eq)
qed

lemma a2b_char: "v < 64 \<Longrightarrow> a2b (b64_char v # cs) q left pads
    = map_option (\<lambda>bs. if q = 0 then bs else b64_byte q left v # bs)
        (a2b cs (if q = 3 then 0 else q + 1) (b64_left q v) 0)"
  by (simp add: b64_char_props b64_value_char)

lemma a2b_pad:
  "a2b (61 # cs) (Suc (Suc 0)) left 0 = a2b cs 2 left 1" "a2b (61 # cs) 2 left (Suc 0) = Some []"
  "a2b (61 # cs) (Suc (Suc (Suc 0))) left 0 = Some []"
  by (simp_all add: numeral_2_eq_2)

lemma a2b_encode: "is_bytes bs \<Longrightarrow> a2b (b64_encode bs) 0 left pads = Some bs"
proof (induction bs arbitrary: left pads rule: b64_encode.induct)
  case (2 a)
  then show ?case
    using bytes_back(2) [of 0 0 a] six_bits(1) [of a] six_bits(2) [of a]
    by (simp add: a2b_char a2b_pad b64_byte_def b64_left_def del: a2b.simps(2))
next
  case (3 a b)
  then show ?case
    using bytes_back(1,4) [of b 0 a] six_bits(1) [of a] six_bits(3) [of b a] six_bits(4) [of b]
    by (simp add: a2b_char a2b_pad b64_byte_def b64_left_def del: a2b.simps(2))
next
  case (4 a b c xs)
  then show ?case
    using bytes_back(1,3) [of b c a] bytes_back(5) [of b c] six_bits(1) [of a] six_bits(3) [of b a]
      six_bits(5) [of c b] six_bits(6) [of c] mod_less [OF div_small(2) [of b]] mod_less [OF div_small(3) [of c]]
    by (simp add: a2b_char a2b_pad b64_byte_def b64_left_def del: a2b.simps(2))
qed simp

lemma b64_decode_encode: "is_bytes bs \<Longrightarrow> b64_decode (b64_encode bs) = Some bs"
  by (simp add: b64_decode_def b64_encode_ascii a2b_encode)

lemma b64url_round_trip: "is_bytes bs \<Longrightarrow> b64url_decode (b64url bs) = Some bs"
  using b64url_padded [of bs] by (simp add: b64url_decode_def b64_decode_encode del: map_append)

text \<open>The strict decoder reads back the standard code, and agrees with the lenient one where it succeeds.\<close>

lemma a2b_strict_char: "v < 64 \<Longrightarrow> a2b_strict (b64_char v # cs) q left pads False
    = map_option (\<lambda>bs. if q = 0 then bs else b64_byte q left v # bs)
        (a2b_strict cs (if q = 3 then 0 else q + 1) (b64_left q v) 0 False)"
  by (simp add: b64_char_props b64_value_char)

lemma a2b_strict_pad:
  "a2b_strict [61, 61] (Suc (Suc 0)) left 0 False = Some []"
  "a2b_strict [61] (Suc (Suc (Suc 0))) left 0 False = Some []"
  by (simp_all add: numeral_2_eq_2)

lemma a2b_strict_encode: "is_bytes bs \<Longrightarrow> a2b_strict (b64_encode bs) 0 left pads False = Some bs"
proof (induction bs arbitrary: left pads rule: b64_encode.induct)
  case (2 a)
  then show ?case
    using bytes_back(2) [of 0 0 a] six_bits(1) [of a] six_bits(2) [of a]
    by (simp add: a2b_strict_char a2b_strict_pad b64_byte_def b64_left_def del: a2b_strict.simps(2))
next
  case (3 a b)
  then show ?case
    using bytes_back(1,4) [of b 0 a] six_bits(1) [of a] six_bits(3) [of b a] six_bits(4) [of b]
    by (simp add: a2b_strict_char a2b_strict_pad b64_byte_def b64_left_def del: a2b_strict.simps(2))
next
  case (4 a b c xs)
  then show ?case
    using bytes_back(1,3) [of b c a] bytes_back(5) [of b c] six_bits(1) [of a] six_bits(3) [of b a]
      six_bits(5) [of c b] six_bits(6) [of c] mod_less [OF div_small(2) [of b]] mod_less [OF div_small(3) [of c]]
    by (simp add: a2b_strict_char a2b_strict_pad b64_byte_def b64_left_def del: a2b_strict.simps(2))
qed simp

lemma b64_decode_strict_encode: "is_bytes bs \<Longrightarrow> b64_decode_strict (b64_encode bs) = Some bs"
  by (simp add: b64_decode_strict_def b64_encode_ascii a2b_strict_encode)

lemma a2b_strict_lenient:
  "a2b_strict cs q left pads started = Some bs \<Longrightarrow> a2b cs q left pads = Some bs"
  by (induction cs q left pads started arbitrary: bs rule: a2b_strict.induct)
    (auto split: if_splits option.splits)

section \<open>The codecs\<close>

text \<open>What the envelopes rely on: a text stands for one sequence of bytes.\<close>

locale byte_codec =
  fixes enc :: "nat list \<Rightarrow> pystr" and dec :: "pystr \<Rightarrow> nat list option"
  assumes decodes: "is_bytes bs \<Longrightarrow> dec (enc bs) = Some bs"
begin

lemma one_text: "is_bytes as \<Longrightarrow> is_bytes bs \<Longrightarrow> enc as = enc bs \<Longrightarrow> as = bs"
  using decodes by (metis option.inject)

end

interpretation lenient: byte_codec b64_encode b64_decode
  by unfold_locales (rule b64_decode_encode)

interpretation strict: byte_codec b64_encode b64_decode_strict
  by unfold_locales (rule b64_decode_strict_encode)

interpretation url: byte_codec b64url b64url_decode
  by unfold_locales (rule b64url_round_trip)

end
