(* ===== verification/Seal.thy ===== *)
theory Seal
  imports Base64
begin

text \<open>
  app/crypto: the envelope that coordinates travel in (location_seal.py) and the sealing of the
  checkpoints (checkpoint_seal.py). The cipher (AES-GCM of the package cryptography) and the JSON
  text of a value are parameters; the format of the envelope, the choice of the key, the age of an
  envelope and every failure are the code's. The random number and the clock are arguments.
\<close>

section \<open>The envelope\<close>

record wire =
  wr_key :: pystr                                        \<comment> \<open>the setting, empty when not set\<close>
  wr_encrypt :: "nat list \<Rightarrow> nat list \<Rightarrow> nat list \<Rightarrow> nat list"  \<comment> \<open>key, nonce, text\<close>
  wr_decrypt :: "nat list \<Rightarrow> nat list \<Rightarrow> nat list \<Rightarrow> nat list option"
  wr_dumps :: "pyval \<Rightarrow> pyexn + nat list"                \<comment> \<open>\<open>json.dumps(v).encode()\<close>\<close>
  wr_loads :: "nat list \<Rightarrow> pyexn + pyval"

definition seal_version :: pystr where
  "seal_version = lit ''v1''"

definition key_bytes :: nat where
  "key_bytes = 32"

definition max_age_seconds :: real where
  "max_age_seconds = 300"

definition seal_enabled :: "wire \<Rightarrow> bool" where
  "seal_enabled W \<longleftrightarrow> wr_key W \<noteq> []"

definition wire_key :: "wire \<Rightarrow> pyexn + nat list" where
  "wire_key W =
     (if wr_key W = [] then Inl SealError
      else case b64_decode (wr_key W) of
          None \<Rightarrow> Inl SealError
        | Some key \<Rightarrow> if length key \<noteq> key_bytes then Inl SealError else Inr key)"

text \<open>\<open>body["iat"] = int(time.time())\<close>.\<close>

definition stamped :: "int \<Rightarrow> (pystr \<times> pyval) list \<Rightarrow> (pystr \<times> pyval) list" where
  "stamped now payload = AList.update (lit ''iat'') (PInt now) payload"

definition seal :: "wire \<Rightarrow> nat list \<Rightarrow> real \<Rightarrow> (pystr \<times> pyval) list \<Rightarrow> pyexn + pystr" where
  "seal W iv now payload =
     bindE (wire_key W) (\<lambda>key.
     bindE (wr_dumps W (PDict (stamped \<lfloor>now\<rfloor> payload))) (\<lambda>body.
       Inr (seal_version @ [46] @ b64url iv @ [46] @ b64url (wr_encrypt W key iv body))))"

text \<open>\<open>value.startswith("v1.") and value.count(".") == 2\<close>, and \<open>token.split(".", 2)\<close>.\<close>

definition is_sealed :: "pystr option \<Rightarrow> bool" where
  "is_sealed v =
     (case v of None \<Rightarrow> False
      | Some t \<Rightarrow> take 3 t = seal_version @ [46] \<and> count_list t 46 = 2)"

definition before_dot :: "pystr \<Rightarrow> pystr" where
  "before_dot t = takeWhile (\<lambda>c. c \<noteq> 46) t"

definition after_dot :: "pystr \<Rightarrow> pystr" where
  "after_dot t = drop 1 (dropWhile (\<lambda>c. c \<noteq> 46) t)"

definition seal_parts :: "pystr \<Rightarrow> pystr \<times> pystr" where
  "seal_parts token = (before_dot (after_dot token), after_dot (after_dot token))"

text \<open>\<open>type(issued) in (int, float) and math.isfinite(issued)\<close>; a number too large for a float raises.\<close>

definition issue_time :: "pyval \<Rightarrow> pyexn + real" where
  "issue_time v =
     (case v of
        PInt n \<Rightarrow> bindE (py_float (\<lambda>_. None) (PInt n)) (\<lambda>f. Inr (of_int n))
      | PFloat (Fin r) \<Rightarrow> Inr r
      | _ \<Rightarrow> Inl SealError)"

definition open_payload :: "wire \<Rightarrow> nat list \<Rightarrow> pyexn + (pystr \<times> pyval) list" where
  "open_payload W plain =
     (case wr_loads W plain of
        Inl e \<Rightarrow> Inl (if e = JSONDecodeError then SealError else e)
      | Inr (PDict payload) \<Rightarrow> Inr payload
      | Inr _ \<Rightarrow> Inl SealError)"

definition decrypt_parts :: "wire \<Rightarrow> pystr \<Rightarrow> pystr \<Rightarrow> pyexn + nat list" where
  "decrypt_parts W iv_part ct_part =
     (case wire_key W of
        Inl _ \<Rightarrow> Inl SealError
      | Inr key \<Rightarrow>
          (case (b64url_decode iv_part, b64url_decode ct_part) of
             (Some iv, Some ct) \<Rightarrow>
               (case wr_decrypt W key iv ct of None \<Rightarrow> Inl SealError | Some plain \<Rightarrow> Inr plain)
           | _ \<Rightarrow> Inl SealError))"

definition open_seal :: "wire \<Rightarrow> real \<Rightarrow> pystr \<Rightarrow> pyexn + (pystr \<times> pyval) list" where
  "open_seal W now token =
     (if \<not> is_sealed (Some token) then Inl SealError
      else
        (let (iv_part, ct_part) = seal_parts token
         in bindE (decrypt_parts W iv_part ct_part) (\<lambda>plain.
            bindE (open_payload W plain) (\<lambda>payload.
            bindE (issue_time (dget payload ''iat'')) (\<lambda>issued.
              (let age = now - issued
               in if max_age_seconds < age \<or> age < - 60 then Inl SealError else Inr payload))))))"

section \<open>Checkpoints\<close>

definition cipher_prefix :: pystr where
  "cipher_prefix = lit ''aesgcm:''"

definition iv_bytes :: nat where
  "iv_bytes = 12"

text \<open>\<open>raw.split(",")\<close> and \<open>entry.partition(":")\<close>.\<close>

fun split_commas :: "pystr \<Rightarrow> pystr list" where
  "split_commas [] = [[]]"
| "split_commas (c # cs) =
     (if c = 44 then [] # split_commas cs
      else case split_commas cs of [] \<Rightarrow> [[c]] | p # ps \<Rightarrow> (c # p) # ps)"

type_synonym ckpt_keys = "(pystr \<times> nat list) list"

definition parse_entry :: "ckpt_keys \<Rightarrow> pystr \<Rightarrow> pyexn + ckpt_keys" where
  "parse_entry keys entry =
     (let kid = strip (takeWhile (\<lambda>c. c \<noteq> 58) entry);
          encoded = drop 1 (dropWhile (\<lambda>c. c \<noteq> 58) entry)
      in if 58 \<notin> set entry \<or> kid = [] then Inl CheckpointSealError
         else if kid \<in> fst ` set keys then Inl CheckpointSealError
         else case b64_decode_strict (strip encoded) of
             None \<Rightarrow> Inl CheckpointSealError
           | Some key \<Rightarrow> if length key \<noteq> key_bytes then Inl CheckpointSealError
                         else Inr (keys @ [(kid, key)]))"

fun parse_entries :: "ckpt_keys \<Rightarrow> pystr list \<Rightarrow> pyexn + ckpt_keys" where
  "parse_entries keys [] = Inr keys"
| "parse_entries keys (e # es) = bindE (parse_entry keys e) (\<lambda>keys'. parse_entries keys' es)"

definition parse_keys :: "pystr \<Rightarrow> pyexn + ckpt_keys" where
  "parse_keys raw =
     bindE (parse_entries [] (filter (\<lambda>e. e \<noteq> []) (map strip (split_commas raw)))) (\<lambda>keys.
       if keys = [] then Inl CheckpointSealError else Inr keys)"

record cipher =
  ci_keys :: ckpt_keys
  ci_active :: pystr

definition checkpoint_cipher :: "ckpt_keys \<Rightarrow> pystr \<Rightarrow> pyexn + cipher" where
  "checkpoint_cipher keys active =
     (if active \<notin> fst ` set keys then Inl CheckpointSealError
      else Inr \<lparr>ci_keys = keys, ci_active = active\<rparr>)"

text \<open>The name of the cipher that is stored with a record, and the record.\<close>

definition encrypt_record ::
    "(nat list \<Rightarrow> nat list \<Rightarrow> nat list \<Rightarrow> nat list) \<Rightarrow> cipher \<Rightarrow> nat list \<Rightarrow> nat list
     \<Rightarrow> pyexn + pystr \<times> nat list" where
  "encrypt_record enc C iv plaintext =
     (case map_of (ci_keys C) (ci_active C) of
        None \<Rightarrow> Inl KeyError
      | Some key \<Rightarrow> Inr (cipher_prefix @ ci_active C, iv @ enc key iv plaintext))"

definition decrypt_record ::
    "(nat list \<Rightarrow> nat list \<Rightarrow> nat list \<Rightarrow> nat list option) \<Rightarrow> cipher \<Rightarrow> pystr \<Rightarrow> nat list
     \<Rightarrow> pyexn + nat list" where
  "decrypt_record dec C name ciphertext =
     (if take (length cipher_prefix) name \<noteq> cipher_prefix then Inl CheckpointSealError
      else case map_of (ci_keys C) (drop (length cipher_prefix) name) of
          None \<Rightarrow> Inl CheckpointSealError
        | Some key \<Rightarrow>
            (case dec key (take iv_bytes ciphertext) (drop iv_bytes ciphertext) of
               None \<Rightarrow> Inl CheckpointSealError | Some plain \<Rightarrow> Inr plain))"

definition build_cipher :: "pystr \<Rightarrow> pystr \<Rightarrow> pystr \<Rightarrow> pyexn + cipher" where
  "build_cipher raw wire active =
     (if raw = [] then Inl CheckpointSealError
      else
        bindE (parse_keys raw) (\<lambda>keys.
          if wire \<noteq> [] \<and> (case b64_decode wire of None \<Rightarrow> False | Some k \<Rightarrow> k \<in> snd ` set keys)
          then Inl CheckpointSealError
          else checkpoint_cipher keys active))"

section \<open>Lemmas\<close>

lemma seal_version_eq: "seal_version = [118, 49]"
  by (simp add: seal_version_def lit_def)

lemma count_list_zero: "x \<notin> set xs \<Longrightarrow> count_list xs x = 0"
  by (induction xs) auto

lemma count_list_app: "count_list (xs @ ys) x = count_list xs x + count_list ys x"
  by (induction xs) auto

lemma dots_split:
  assumes "46 \<notin> set a"
  shows "before_dot (a @ 46 # b) = a" and "after_dot (a @ 46 # b) = b"
proof -
  have all: "\<forall>c \<in> set a. c \<noteq> 46" using assms by metis
  then show "before_dot (a @ 46 # b) = a"
    unfolding before_dot_def by (subst takeWhile_append2) auto
  from all show "after_dot (a @ 46 # b) = b"
    unfolding after_dot_def by (subst dropWhile_append2) auto
qed

lemma sealed_token:
  assumes "is_bytes iv" and "is_bytes ct"
  shows "is_sealed (Some (seal_version @ [46] @ b64url iv @ [46] @ b64url ct))"
    and "seal_parts (seal_version @ [46] @ b64url iv @ [46] @ b64url ct) = (b64url iv, b64url ct)"
proof -
  note dots = b64url_padded(3) [OF assms(1)] b64url_padded(3) [OF assms(2)]
  have "46 \<notin> set seal_version" by (simp add: seal_version_eq)
  with dots show "seal_parts (seal_version @ [46] @ b64url iv @ [46] @ b64url ct) = (b64url iv, b64url ct)"
    by (simp add: seal_parts_def dots_split)
  show "is_sealed (Some (seal_version @ [46] @ b64url iv @ [46] @ b64url ct))"
    using dots by (simp add: is_sealed_def seal_version_eq count_list_app count_list_zero)
qed

lemma stamped_iat: "dget (stamped now payload) ''iat'' = PInt now"
  by (simp add: stamped_def dget_def update_conv)

lemma issue_time_int: "\<bar>n\<bar> < 2 ^ 1000 \<Longrightarrow> issue_time (PInt n) = Inr (of_int n)"
  by (simp add: issue_time_def)

lemma wire_key_Inr: "wire_key W = Inr key \<Longrightarrow> seal_enabled W \<and> length key = 32"
  by (auto simp: wire_key_def seal_enabled_def key_bytes_def split: if_splits option.splits)

text \<open>Keys of the checkpoints.\<close>

lemma parse_entry_keys:
  assumes "parse_entry keys e = Inr keys'" and "distinct (map fst keys)" and "\<forall>k \<in> snd ` set keys. length k = 32"
  shows "distinct (map fst keys') \<and> (\<forall>k \<in> snd ` set keys'. length k = 32) \<and> set keys \<subseteq> set keys'"
  using assms by (auto simp: parse_entry_def key_bytes_def Let_def split: if_splits option.splits)

lemma parse_entries_keys:
  assumes "parse_entries keys es = Inr keys'" and "distinct (map fst keys)" and "\<forall>k \<in> snd ` set keys. length k = 32"
  shows "distinct (map fst keys') \<and> (\<forall>k \<in> snd ` set keys'. length k = 32)"
  using assms
proof (induction es arbitrary: keys)
  case (Cons e es)
  then obtain ks where ks: "parse_entry keys e = Inr ks" "parse_entries ks es = Inr keys'"
    by (auto simp: bindE_Inr_iff)
  from parse_entry_keys [OF ks(1) Cons.prems(2,3)] Cons.IH [OF ks(2)] show ?case by blast
qed simp

text \<open>What an envelope that opens has been through.\<close>

lemma open_seal_sound:
  assumes "open_seal W now token = Inr payload"
  shows "\<exists>key iv ct plain issued. wire_key W = Inr key \<and> length key = 32 \<and> is_sealed (Some token)
    \<and> b64url_decode (fst (seal_parts token)) = Some iv \<and> b64url_decode (snd (seal_parts token)) = Some ct
    \<and> wr_decrypt W key iv ct = Some plain \<and> wr_loads W plain = Inr (PDict payload)
    \<and> issue_time (dget payload ''iat'') = Inr issued \<and> now - issued \<le> 300 \<and> - 60 \<le> now - issued"
proof -
  obtain iv_part ct_part where parts: "seal_parts token = (iv_part, ct_part)" by fastforce
  from assms parts obtain plain issued where d: "is_sealed (Some token)" "decrypt_parts W iv_part ct_part = Inr plain"
    "open_payload W plain = Inr payload" "issue_time (dget payload ''iat'') = Inr issued"
    "\<not> 300 < now - issued" "\<not> now - issued < - 60"
    by (auto simp: open_seal_def bindE_Inr_iff max_age_seconds_def Let_def split: if_splits)
  from d(2) obtain key iv ct where k: "wire_key W = Inr key" "b64url_decode iv_part = Some iv"
    "b64url_decode ct_part = Some ct" "wr_decrypt W key iv ct = Some plain"
    by (auto simp: decrypt_parts_def split: sum.splits option.splits)
  moreover have "wr_loads W plain = Inr (PDict payload)"
    using d(3) by (auto simp: open_payload_def split: sum.splits pyval.splits)
  ultimately show ?thesis using d parts wire_key_Inr [OF k(1)] by auto
qed

text \<open>What is sealed opens with the same key while it is fresh.\<close>

lemma seal_opens:
  fixes later :: real
  assumes "seal W iv now payload = Inr token" and "wr_dumps W (PDict (stamped \<lfloor>now\<rfloor> payload)) = Inr body"
    and "wr_loads W body = Inr (PDict (stamped \<lfloor>now\<rfloor> payload))"
    and "\<And>key. wr_decrypt W key iv (wr_encrypt W key iv body) = Some body"
    and "is_bytes iv" and "\<And>key. is_bytes (wr_encrypt W key iv body)" and "0 \<le> now" and "now < 2 ^ 62"
  shows "is_sealed (Some token)
    \<and> open_seal W later token
      = (if later - \<lfloor>now\<rfloor> \<le> 300 \<and> - 60 \<le> later - \<lfloor>now\<rfloor> then Inr (stamped \<lfloor>now\<rfloor> payload) else Inl SealError)"
proof -
  from assms(1,2) obtain key where key: "wire_key W = Inr key"
    and token: "token = seal_version @ [46] @ b64url iv @ [46] @ b64url (wr_encrypt W key iv body)"
    by (auto simp: seal_def bindE_Inr_iff)
  note form = sealed_token [OF assms(5,6), of key]
  have "\<bar>\<lfloor>now\<rfloor>\<bar> < 2 ^ 62" using assms(7,8) by (simp add: floor_less_iff)
  also have "(2 :: int) ^ 62 < 2 ^ 1000" by simp
  finally have issued: "issue_time (PInt \<lfloor>now\<rfloor>) = Inr (real_of_int \<lfloor>now\<rfloor>)" by (rule issue_time_int)
  have "decrypt_parts W (b64url iv) (b64url (wr_encrypt W key iv body)) = Inr body"
    using key assms(4) [of key] url.decodes [OF assms(5)] url.decodes [OF assms(6) [of key]]
    by (simp add: decrypt_parts_def)
  moreover have "open_payload W body = Inr (stamped \<lfloor>now\<rfloor> payload)"
    using assms(3) by (simp add: open_payload_def)
  ultimately show ?thesis
    using form by (auto simp: open_seal_def token stamped_iat issued max_age_seconds_def Let_def)
qed

section \<open>Properties\<close>

text \<open>
  C19: What one service seals another opens: the token has the agreed form, and with the same key and
  an intact cipher it gives back exactly the sealed values with the time of sealing, from a minute
  before it, for clocks that differ, until five minutes after, and is refused at any other time.
\<close>

theorem seal_round_trip:
  fixes later :: real
  assumes "seal W iv now payload = Inr token" and "wr_dumps W (PDict (stamped \<lfloor>now\<rfloor> payload)) = Inr body"
    and "wr_loads W body = Inr (PDict (stamped \<lfloor>now\<rfloor> payload))"
    and "\<And>key. wr_decrypt W key iv (wr_encrypt W key iv body) = Some body"
    and "is_bytes iv" and "\<And>key. is_bytes (wr_encrypt W key iv body)" and "0 \<le> now" and "now < 2 ^ 62"
  shows "is_sealed (Some token)
    \<and> open_seal W later token
      = (if later - \<lfloor>now\<rfloor> \<le> 300 \<and> - 60 \<le> later - \<lfloor>now\<rfloor> then Inr (stamped \<lfloor>now\<rfloor> payload) else Inl SealError)"
  by (rule seal_opens [OF assms])

text \<open>A cipher that changes nothing and a body of no other use show the laws together.\<close>

definition clear_wire :: wire where
  "clear_wire = \<lparr>wr_key = b64_encode (replicate 32 7), wr_encrypt = \<lambda>k iv b. b,
     wr_decrypt = \<lambda>k iv b. Some b, wr_dumps = \<lambda>v. Inr [1],
     wr_loads = \<lambda>b. Inr (PDict [(lit ''iat'', PInt 1000)])\<rparr>"

lemma clear_wire_key: "wire_key clear_wire = Inr (replicate 32 7)"
proof -
  have "is_bytes (replicate 32 7)" by (simp add: is_bytes_def list_all_iff)
  then have "b64_decode (b64_encode (replicate 32 7)) = Some (replicate 32 7)" by (rule lenient.decodes)
  moreover have "b64_decode [] = Some []" by (simp add: b64_decode_def is_ascii_def)
  ultimately have "b64_encode (replicate 32 7) \<noteq> []" by auto
  with \<open>b64_decode (b64_encode (replicate 32 7)) = Some (replicate 32 7)\<close> show ?thesis by (simp add: wire_key_def clear_wire_def key_bytes_def)
qed

theorem seal_round_trip_witness:
  "\<exists>token. seal clear_wire [9] 1000 [] = Inr token
     \<and> open_seal clear_wire 1200 token = Inr [(lit ''iat'', PInt 1000)]
     \<and> open_seal clear_wire 1301 token = Inl SealError"
proof -
  have stamp: "stamped 1000 [] = [(lit ''iat'', PInt 1000)]" by (simp add: stamped_def)
  obtain token where token: "seal clear_wire [9] 1000 [] = Inr token"
    using clear_wire_key by (simp add: seal_def) (simp add: clear_wire_def)
  have laws: "wr_dumps clear_wire (PDict (stamped \<lfloor>1000 :: real\<rfloor> [])) = Inr [1]"
    "wr_loads clear_wire [1] = Inr (PDict (stamped \<lfloor>1000 :: real\<rfloor> []))"
    "\<And>key. wr_decrypt clear_wire key [9] (wr_encrypt clear_wire key [9] [1]) = Some [1]"
    "is_bytes [9]" "\<And>key. is_bytes (wr_encrypt clear_wire key [9] [1])"
    by (simp_all add: clear_wire_def stamp)
  note trip = seal_round_trip [OF token laws]
  show ?thesis using token trip [of 1200] trip [of 1301] by (simp add: stamp)
qed

text \<open>
  C15: Nothing opens that was not made with the key and is not fresh: a token that opens has the
  form, decrypts under the configured key of 32 bytes to the values returned, and these carry a time
  at most five minutes old and at most a minute ahead.
\<close>

theorem open_seal_genuine:
  assumes "open_seal W now token = Inr payload"
  shows "\<exists>key iv ct plain issued. wire_key W = Inr key \<and> length key = 32 \<and> is_sealed (Some token)
    \<and> b64url_decode (fst (seal_parts token)) = Some iv \<and> b64url_decode (snd (seal_parts token)) = Some ct
    \<and> wr_decrypt W key iv ct = Some plain \<and> wr_loads W plain = Inr (PDict payload)
    \<and> issue_time (dget payload ''iat'') = Inr issued \<and> now - issued \<le> 300 \<and> - 60 \<le> now - issued"
  by (rule open_seal_sound [OF assms])

theorem open_seal_genuine_witness:
  "\<exists>token payload. open_seal clear_wire 1200 token = Inr payload \<and> 1200 - 300 \<le> (1000 :: real)"
proof -
  let ?token = "seal_version @ [46] @ b64url [9] @ [46] @ b64url [1]"
  have "decrypt_parts clear_wire (b64url [9]) (b64url [1]) = Inr [1]"
    using clear_wire_key url.decodes [of "[9]"] url.decodes [of "[1]"]
    by (simp add: decrypt_parts_def) (simp add: clear_wire_def)
  then have run: "open_seal clear_wire 1200 ?token = Inr [(lit ''iat'', PInt 1000)]"
    using sealed_token [of "[9]" "[1]"]
    by (simp add: open_seal_def) (simp add: open_payload_def clear_wire_def dget_def issue_time_int max_age_seconds_def)
  from open_seal_genuine [OF run] have "1200 - 300 \<le> (1000 :: real)" by simp
  with run show ?thesis by blast
qed

text \<open>
  C20: Keys can be changed without losing a checkpoint: a record sealed under the active key of a
  cipher is opened by every cipher that still lists that key under its name, whatever key is active
  there. And a configuration that is accepted has keys of 32 bytes under distinct names, the active
  one among them, and does not reuse the key of the envelopes.
\<close>

theorem checkpoint_rotation:
  assumes "build_cipher raw wire active = Inr C" and "length iv = 12"
    and "\<And>key. dec key iv (enc key iv plain) = Some plain"
    and "map_of (ci_keys C') active = map_of (ci_keys C) active"
  shows "(\<exists>name record. encrypt_record enc C iv plain = Inr (name, record)
      \<and> decrypt_record dec C' name record = Inr plain)
    \<and> distinct (map fst (ci_keys C)) \<and> (\<forall>k \<in> snd ` set (ci_keys C). length k = 32)
    \<and> ci_active C = active \<and> active \<in> fst ` set (ci_keys C)
    \<and> (wire \<noteq> [] \<longrightarrow> (\<forall>k. b64_decode wire = Some k \<longrightarrow> k \<notin> snd ` set (ci_keys C)))"
proof -
  from assms(1) obtain keys where keys: "parse_keys raw = Inr keys"
    and fresh: "\<not> (wire \<noteq> [] \<and> (case b64_decode wire of None \<Rightarrow> False | Some k \<Rightarrow> k \<in> snd ` set keys))"
    and C: "active \<in> fst ` set keys" "C = \<lparr>ci_keys = keys, ci_active = active\<rparr>"
    by (auto simp: build_cipher_def bindE_Inr_iff checkpoint_cipher_def split: if_splits)
  from keys obtain es where "parse_entries [] es = Inr keys"
    by (auto simp: parse_keys_def bindE_Inr_iff split: if_splits)
  from parse_entries_keys [OF this] fresh C
  have config: "distinct (map fst (ci_keys C)) \<and> (\<forall>k \<in> snd ` set (ci_keys C). length k = 32)
      \<and> ci_active C = active \<and> active \<in> fst ` set (ci_keys C)
      \<and> (wire \<noteq> [] \<longrightarrow> (\<forall>k. b64_decode wire = Some k \<longrightarrow> k \<notin> snd ` set (ci_keys C)))"
    by (auto split: option.splits)
  from C obtain key where "map_of (ci_keys C) active = Some key"
    by (metis cipher.select_convs(1) map_of_eq_None_iff not_None_eq)
  then have "\<exists>name record. encrypt_record enc C iv plain = Inr (name, record)
      \<and> decrypt_record dec C' name record = Inr plain"
    using assms(2-4) C by (simp add: encrypt_record_def decrypt_record_def iv_bytes_def)
  with config show ?thesis by blast
qed

definition zero_key :: pystr where
  "zero_key = lit ''k1:'' @ b64_encode (replicate 32 0)"

lemma zero_key_cipher:
  "build_cipher zero_key [] (lit ''k1'') = Inr \<lparr>ci_keys = [(lit ''k1'', replicate 32 0)], ci_active = lit ''k1''\<rparr>"
proof -
  define key :: "nat list" where "key = replicate 32 0"
  let ?code = "b64_encode key"
  have bytes: "is_bytes key" by (simp add: key_def is_bytes_def list_all_iff)
  then have key: "b64_decode_strict ?code = Some key" "length key = 32"
    by (simp_all add: strict.decodes key_def)
  have entry: "zero_key = [107, 49, 58] @ ?code" "lit ''k1'' = [107, 49]"
    by (simp_all add: zero_key_def key_def lit_def)
  have keep: "dropWhile P xs = xs" if "\<forall>c \<in> set xs. \<not> P c" for P and xs :: pystr
    using that by (cases xs) auto
  have plain: "strip s = s" if "\<forall>c \<in> set s. \<not> is_space c" for s
    using that keep [of s is_space] keep [of "rev s" is_space] by (simp add: strip_def)
  have strips: "strip ?code = ?code" "strip zero_key = zero_key" "strip [107, 49] = [107, 49]"
    using b64_encode_chars [OF bytes] by (intro plain; auto simp: entry is_space_def)+
  have whole: "split_commas cs = [cs]" if "44 \<notin> set cs" for cs using that by (induction cs) auto
  have "parse_entry [] zero_key = Inr [(lit ''k1'', key)]"
    using key strips by (simp add: parse_entry_def entry key_bytes_def)
  moreover have "split_commas zero_key = [zero_key]"
    using b64_encode_chars [OF bytes] by (intro whole) (auto simp: entry)
  ultimately have "parse_keys zero_key = Inr [(lit ''k1'', key)]"
    using strips by (simp add: parse_keys_def) (simp add: entry)
  then show ?thesis by (simp add: build_cipher_def checkpoint_cipher_def key_def) (simp add: zero_key_def lit_def)
qed

theorem checkpoint_rotation_witness:
  "\<exists>C name record. build_cipher zero_key [] (lit ''k1'') = Inr C
     \<and> encrypt_record (\<lambda>k iv b. b) C (replicate 12 5) [1, 2] = Inr (name, record)
     \<and> decrypt_record (\<lambda>k iv b. Some b)
         \<lparr>ci_keys = [(lit ''k2'', replicate 32 1), (lit ''k1'', replicate 32 0)], ci_active = lit ''k2''\<rparr> name record
       = Inr [1, 2]"
proof -
  let ?C = "\<lparr>ci_keys = [(lit ''k2'', replicate 32 1), (lit ''k1'', replicate 32 0)], ci_active = lit ''k2''\<rparr>"
  from checkpoint_rotation [OF zero_key_cipher, of "replicate 12 5" "\<lambda>k iv b. Some b" "\<lambda>k iv b. b" "[1, 2]" ?C]
  show ?thesis using zero_key_cipher by auto
qed

end
