(* ===== verification/Service.thy ===== *)
theory Service
  imports Pipeline Seal Summary
begin

text \<open>
  app/main.py: what the service does with a request before, around and after the graph. The
  authentication of the caller, the readiness answer, the envelope of the chosen places, the
  acceptance of a job, the job itself with its time limit and its cancellation, the message of a
  failed job, and the two summary endpoints. The environment has the services a job calls; the point
  at which a job is interrupted is an argument.
\<close>

section \<open>Answers\<close>

text \<open>An \<open>HTTPException\<close> with its status and detail, or any other exception, which is a 500.\<close>

datatype fault = Http int string | Crash pyexn

text \<open>
  The token of the setting and of the header. The comparison is of the UTF-8 forms, so of the texts.
\<close>

definition verify_internal_token :: "pystr option \<Rightarrow> pystr option \<Rightarrow> fault + unit" where
  "verify_internal_token setting provided =
     (let expected = (case setting of None \<Rightarrow> [] | Some t \<Rightarrow> t)
      in if expected = [] then Inr ()
         else if provided = None \<or> provided \<noteq> Some expected
         then Inl (Http 401 ''invalid internal token'') else Inr ())"

text \<open>
  The stream's answer to a ping, absent when no publisher is set, and the answer of the checkpoint
  store, absent when checkpoints are off.
\<close>

definition health_ready :: "bool option \<Rightarrow> bool option \<Rightarrow> int \<times> (string \<times> string) list" where
  "health_ready streams pool =
     (let deps =
        [(''streams'', if streams = Some True then ''ok'' else ''down''),
         (''checkpoint'', case pool of None \<Rightarrow> ''disabled'' | Some up \<Rightarrow> if up then ''ok'' else ''down'')]
      in (if ''down'' \<in> snd ` set deps then 503 else 200, deps))"

section \<open>A failed job's message\<close>

text \<open>\<open>None\<close>: the publishing itself failed, which is only logged.\<close>

definition publish_failure :: "publisher \<Rightarrow> env \<Rightarrow> pystr \<Rightarrow> failure_info \<Rightarrow> pyexn + message option" where
  "publish_failure P E job f =
     (let payload = failed_payload job (fi_code f) (fi_retryable f)
      in (case bindE (pb_dump P payload) (\<lambda>body. publish P E job (jp_status payload) body None) of
            Inr m \<Rightarrow> Inr (Some m)
          | Inl e \<Rightarrow> if is_exception e then Inr None else Inl e))"

section \<open>The job\<close>

text \<open>One step of the graph; a finished configuration stays.\<close>

definition advance :: "publisher \<Rightarrow> env \<Rightarrow> config \<Rightarrow> config" where
  "advance P E c =
     (case c of
        At n s \<Rightarrow>
          if n = PublishDone
          then (case publish_done P E s of Inl e \<Rightarrow> Raised e | Inr (p, m) \<Rightarrow> Published s p m)
          else (case node_of n E s of Inl e \<Rightarrow> Raised e | Inr s' \<Rightarrow> At (edge n s') s')
      | _ \<Rightarrow> c)"

text \<open>
  A job runs undisturbed, or after so many steps its time is over, the service cancels it or writing a
  checkpoint fails. A run that is interrupted in its last node may have written its message already, and
  the checkpoint after the last node is written when it has.
\<close>

datatype interrupt = Undisturbed | TimeoutAt nat | CancelAt nat | BrokenAt nat pyexn

text \<open>
  The report of a failure can itself be cancelled, before its message reaches the stream or after: the
  handler in \<open>_publish_failure\<close> catches \<open>Exception\<close>, which a cancellation is not.
\<close>

datatype strike = Quiet | BeforeSend | AfterSend

definition in_flight :: "publisher \<Rightarrow> env \<Rightarrow> config \<Rightarrow> message list" where
  "in_flight P E c =
     (case c of
        At n s \<Rightarrow> if n \<noteq> PublishDone then []
                  else (case publish_done P E s of Inl e \<Rightarrow> [] | Inr (p, m) \<Rightarrow> [m])
      | _ \<Rightarrow> [])"

definition cut_off :: "publisher \<Rightarrow> env \<Rightarrow> pyexn \<Rightarrow> bool \<Rightarrow> config \<Rightarrow> (pyexn + unit) \<times> message list" where
  "cut_off P E reason sent c =
     (case c of
        Published s p m \<Rightarrow> (Inr (), [m])
      | Raised e \<Rightarrow> (Inl e, [])
      | At n s \<Rightarrow> (Inl reason, if sent then in_flight P E c else []))"

definition graph_result ::
    "publisher \<Rightarrow> env \<Rightarrow> interrupt \<Rightarrow> bool \<Rightarrow> pystr \<Rightarrow> request \<Rightarrow> (pyexn + unit) \<times> message list" where
  "graph_result P E i sent job r =
     (let start = At ParseInput (start_state job r)
      in (case i of
            Undisturbed \<Rightarrow> cut_off P E RuntimeError False (run_pipeline P E job r)
          | TimeoutAt k \<Rightarrow> cut_off P E AsyncTimeoutError sent ((advance P E ^^ k) start)
          | CancelAt k \<Rightarrow> cut_off P E CancelledError sent ((advance P E ^^ k) start)
          | BrokenAt k e \<Rightarrow>
              (case (advance P E ^^ k) start of
                 Published s p m \<Rightarrow> (Inl e, [m])
               | c \<Rightarrow> cut_off P E e sent c)))"

definition report ::
    "publisher \<Rightarrow> env \<Rightarrow> pystr \<Rightarrow> failure_info \<Rightarrow> strike \<Rightarrow> message list \<Rightarrow> pyexn + unit
     \<Rightarrow> (pyexn + unit) \<times> message list" where
  "report P E job f k ms ending =
     (let ending = (if k = Quiet then ending else Inl CancelledError)
      in if k = BeforeSend then (ending, ms)
         else case publish_failure P E job f of
             Inl e \<Rightarrow> (Inl e, ms)
           | Inr None \<Rightarrow> (ending, ms)
           | Inr (Some m) \<Rightarrow> (ending, ms @ [m]))"

definition run_job ::
    "publisher \<Rightarrow> env \<Rightarrow> interrupt \<Rightarrow> bool \<Rightarrow> strike \<Rightarrow> pystr \<Rightarrow> request \<Rightarrow> (pyexn + unit) \<times> message list" where
  "run_job P E i sent k job r =
     (case graph_result P E i sent job r of
        (Inr u, ms) \<Rightarrow> (Inr u, ms)
      | (Inl e, ms) \<Rightarrow>
          if e = AsyncTimeoutError
          then report P E job (failure ''generation_timeout'' True) k ms (Inr ())
          else if e = CancelledError
          then report P E job (failure ''upstream_unavailable'' True) k ms (Inl e)
          else report P E job (exception_failure e) k ms (Inr ()))"

section \<open>Accepting a job\<close>

definition parse_place_list :: "pydantic \<Rightarrow> pyval \<Rightarrow> selected_place list option" where
  "parse_place_list pd v =
     Option.bind (parse_items (parse_selected pd) v) (\<lambda>ps.
       if 1 \<le> length ps \<and> length ps \<le> 10 then Some ps else None)"

text \<open>
  The other fields of the request are dumped from a validated request and validated again, which
  gives them back.
\<close>

definition invalid_location :: "fault + request" where
  "invalid_location = Inl (Http 400 ''invalid location'')"

definition resolve_places :: "wire \<Rightarrow> pydantic \<Rightarrow> real \<Rightarrow> request \<Rightarrow> fault + request" where
  "resolve_places W pd now req =
     (if \<not> seal_enabled W then Inr req
      else case (case rq_loc req of None \<Rightarrow> [] | Some t \<Rightarrow> t) of
          [] \<Rightarrow> (if given_places req = [] then Inr req else invalid_location)
        | c # cs \<Rightarrow>
            (case open_seal W now (c # cs) of
               Inl e \<Rightarrow> if e = SealError then invalid_location else Inl (Crash e)
             | Inr opened \<Rightarrow>
                 (if as_list (dget opened ''places'') = None then invalid_location
                  else case parse_place_list pd (dget opened ''places'') of
                      None \<Rightarrow> invalid_location
                    | Some ps \<Rightarrow> Inr (req\<lparr>rq_places := Some ps, rq_loc := None\<rparr>))))"

record app_state =
  ap_graph :: bool                          \<comment> \<open>whether the graph has been built\<close>
  ap_tasks :: "(pystr \<times> request) list"      \<comment> \<open>the background jobs\<close>

record service =
  sv_token :: "pystr option"
  sv_wire :: wire
  sv_pd :: pydantic

record accepted =
  ac_job_id :: pystr
  ac_retry_after :: int

definition recommend ::
    "service \<Rightarrow> real \<Rightarrow> pystr \<Rightarrow> pystr option \<Rightarrow> request \<Rightarrow> app_state \<Rightarrow> (fault + accepted) \<times> app_state" where
  "recommend V now job_id provided req app =
     (case bindE (verify_internal_token (sv_token V) provided)
            (\<lambda>_. resolve_places (sv_wire V) (sv_pd V) now req) of
        Inl f \<Rightarrow> (Inl f, app)
      | Inr r \<Rightarrow>
          if \<not> ap_graph app then (Inl (Http 503 ''graph not ready''), app)
          else (Inr \<lparr>ac_job_id = job_id, ac_retry_after = 3\<rparr>,
                app\<lparr>ap_tasks := ap_tasks app @ [(job_id, r)]\<rparr>))"

section \<open>Summaries\<close>

definition summary_place_of :: "summary_request \<Rightarrow> summary_place" where
  "summary_place_of q =
     \<lparr>sm_name = sq_name q, sm_category = sq_category q, sm_snippets = map rv_description (sq_reviews q)\<rparr>"

definition run_summary ::
    "env \<Rightarrow> summary_settings \<Rightarrow> summary_request list \<Rightarrow> fault + (int \<times> pystr list) list" where
  "run_summary E S places =
     (if \<not> sc_enabled S then Inr []
      else case summary_bullets E S (map summary_place_of places) of
          Inr bullets \<Rightarrow> Inr bullets
        | Inl e \<Rightarrow>
            Inl (case e of
                   LLMBudgetExceeded \<Rightarrow> Http 429 ''summary rate limited''
                 | GeminiQuotaError _ \<Rightarrow> Http 429 ''summary rate limited''
                 | _ \<Rightarrow> if is_exception e then Http 502 ''summary unavailable'' else Crash e))"

text \<open>A response that its own schema refuses is an exception of the endpoint.\<close>

definition answer :: "pyexn + 'a \<Rightarrow> fault + 'a" where
  "answer r = (case r of Inl e \<Rightarrow> Inl (Crash e) | Inr a \<Rightarrow> Inr a)"

definition summarize_place_reviews ::
    "service \<Rightarrow> env \<Rightarrow> summary_settings \<Rightarrow> pystr option \<Rightarrow> summary_request \<Rightarrow> fault + pystr list" where
  "summarize_place_reviews V E S provided req =
     bindE (verify_internal_token (sv_token V) provided) (\<lambda>_.
     bindE (run_summary E S [req]) (\<lambda>bullets.
       answer (summary_response (case map_of bullets 0 of None \<Rightarrow> [] | Some lines \<Rightarrow> lines))))"

definition summarize_places_reviews ::
    "service \<Rightarrow> env \<Rightarrow> summary_settings \<Rightarrow> pystr option \<Rightarrow> summary_request list
     \<Rightarrow> fault + (int \<times> pystr list) list" where
  "summarize_places_reviews V E S provided reqs =
     bindE (verify_internal_token (sv_token V) provided) (\<lambda>_.
     bindE (run_summary E S reqs) (\<lambda>bullets.
       answer (mapE place_summary_result (sort_key fst bullets))))"

section \<open>Lemmas on jobs\<close>

lemma advance_final: "final c \<Longrightarrow> advance P E c = c"
  by (simp add: advance_def final_def split: config.splits)

lemma advance_step: "\<not> final c \<Longrightarrow> step P E c (advance P E c)"
proof (cases c)
  case (At n s)
  show ?thesis
  proof (cases "n = PublishDone")
    case True
    then show ?thesis
      by (cases "publish_done P E s") (auto simp: At advance_def intro: step.publish step.lost)
  next
    case False
    then show ?thesis
      by (cases "node_of n E s") (auto simp: At advance_def intro: step.go step.raise)
  qed
qed (simp_all add: final_def)

lemma advance_reaches: "reaches P E c ((advance P E ^^ k) c)"
proof (induction k)
  case (Suc k)
  show ?case
  proof (cases "final ((advance P E ^^ k) c)")
    case True
    with Suc show ?thesis by (simp add: advance_final)
  next
    case False
    from rtranclp.rtrancl_into_rtrancl [OF Suc advance_step [OF False]] show ?thesis by simp
  qed
qed simp

text \<open>A published message is the job's own.\<close>

definition own_message :: "publisher \<Rightarrow> env \<Rightarrow> pystr \<Rightarrow> request \<Rightarrow> message \<Rightarrow> bool" where
  "own_message P E job r m \<longleftrightarrow>
     (\<exists>s p. reached P E job r PublishDone s \<and> publish_done P E s = Inr (p, m))"

lemma own_message_job: "own_message P E job r m \<Longrightarrow> ms_job m = job"
  using reached_contract by (auto simp: own_message_def publish_done_def bindE_Inr_iff dest!: publish_message)

lemma in_flight_own:
  assumes "reaches P E (At ParseInput (start_state job r)) c" and "m \<in> set (in_flight P E c)"
  shows "own_message P E job r m"
proof -
  from assms(2) obtain s p where c: "c = At PublishDone s" "publish_done P E s = Inr (p, m)"
    by (cases c) (auto simp: in_flight_def split: if_splits sum.splits dest: sym)
  from reaches_reached [OF assms(1) c(1)] c(2) show ?thesis unfolding own_message_def by blast
qed

lemma cut_off_messages:
  assumes "reaches P E (At ParseInput (start_state job r)) c" and "cut_off P E reason sent c = (res, ms)"
  shows "length ms \<le> 1 \<and> (\<forall>m \<in> set ms. own_message P E job r m)
    \<and> (res = Inr () \<longrightarrow> ms \<noteq> []) \<and> (res \<noteq> Inr () \<and> (final c \<or> \<not> sent) \<longrightarrow> ms = [])"
proof (cases c)
  case (At n s)
  have "length (in_flight P E c) \<le> 1" by (auto simp: in_flight_def split: config.splits sum.splits)
  with At assms in_flight_own [OF assms(1)] show ?thesis by (auto simp: cut_off_def final_def split: if_splits)
next
  case (Published s p m)
  with assms reaches_published [of P E job r s p m] show ?thesis by (auto simp: cut_off_def own_message_def)
next
  case (Raised e)
  with assms show ?thesis by (auto simp: cut_off_def)
qed

lemma graph_result_messages:
  assumes "graph_result P E i sent job r = (res, ms)"
  shows "length ms \<le> 1 \<and> (\<forall>m \<in> set ms. own_message P E job r m)
    \<and> (res = Inr () \<longrightarrow> ms \<noteq> [])
    \<and> (res \<noteq> Inr () \<and> (i = Undisturbed \<or> \<not> sent) \<and> (\<forall>k e. i \<noteq> BrokenAt k e) \<longrightarrow> ms = [])"
proof (cases i)
  case Undisturbed
  have "reaches P E (At ParseInput (start_state job r)) (run_pipeline P E job r)"
    and "final (run_pipeline P E job r)"
    by (simp_all add: run_pipeline_def run_reached run_final)
  with Undisturbed assms cut_off_messages show ?thesis by (auto simp: graph_result_def Let_def)
next
  case (TimeoutAt k)
  then show ?thesis
    using assms cut_off_messages [OF advance_reaches [of P E "At ParseInput (start_state job r)" k], of _ sent res ms] by (auto simp: graph_result_def Let_def)
next
  case (CancelAt k)
  then show ?thesis
    using assms cut_off_messages [OF advance_reaches [of P E "At ParseInput (start_state job r)" k], of _ sent res ms] by (auto simp: graph_result_def Let_def)
next
  case (BrokenAt k e)
  note reached = advance_reaches [of P E "At ParseInput (start_state job r)" k]
  show ?thesis
  proof (cases "(advance P E ^^ k) (At ParseInput (start_state job r))")
    case (Published s p m)
    then have "res = Inl e" "ms = [m]" using assms by (auto simp: BrokenAt graph_result_def Let_def)
    moreover have "own_message P E job r m"
      using cut_off_messages [OF reached, of RuntimeError False "Inr ()" "[m]"] by (simp add: Published cut_off_def)
    ultimately show ?thesis by (simp add: BrokenAt)
  qed (use assms cut_off_messages [OF reached, of e sent res ms] in
      \<open>auto simp: BrokenAt graph_result_def Let_def\<close>)
qed

text \<open>A stream that takes every message.\<close>

definition stream_up :: "publisher \<Rightarrow> bool" where
  "stream_up P \<longleftrightarrow> (\<forall>p. \<exists>t. pb_dump P p = Inr t)
     \<and> (\<forall>f t. pb_seal P = Some f \<longrightarrow> (\<exists>u. f t = Inr u)) \<and> (\<forall>m. \<exists>mid. pb_xadd P m = Inr mid)"

lemma publish_failure_up:
  assumes "stream_up P"
  shows "\<exists>m. publish_failure P E job f = Inr (Some m) \<and> ms_job m = job \<and> ms_status m = Failed"
proof -
  let ?p = "failed_payload job (fi_code f) (fi_retryable f)"
  obtain t where t: "pb_dump P ?p = Inr t" using assms unfolding stream_up_def by blast
  obtain u where u: "(case pb_seal P of None \<Rightarrow> Inr t | Some f \<Rightarrow> f t) = Inr u"
    using assms unfolding stream_up_def by (cases "pb_seal P") (simp, fastforce)
  have "pb_xadd P m \<noteq> Inl e" for m e using assms unfolding stream_up_def by (metis Inl_Inr_False)
  then have "\<exists>m. publish P E job Failed t None = Inr m \<and> ms_job m = job \<and> ms_status m = Failed"
    by (auto simp: publish_def u training_field_def Let_def bindE_def split: sum.splits)
  moreover have "jp_status ?p = Failed" by (simp add: failed_payload_def)
  ultimately show ?thesis unfolding publish_failure_def Let_def t by auto
qed

lemma report_up:
  assumes "stream_up P" and "k \<noteq> BeforeSend"
  shows "\<exists>m. report P E job f k ms ending = (if k = Quiet then ending else Inl CancelledError, ms @ [m])
    \<and> publish_failure P E job f = Inr (Some m) \<and> ms_job m = job \<and> ms_status m = Failed"
  using publish_failure_up [OF assms(1), of E job f] assms(2) by (auto simp: report_def Let_def)

text \<open>A job whose graph ends in an exception reports one of the fixed failures.\<close>

lemma run_job_reports:
  assumes "graph_result P E i sent job r = (Inl e, ms)"
  obtains f ending where "run_job P E i sent k job r = report P E job f k ms ending"
    and "fi_code f \<in> failure_codes" and "ending \<in> {Inr (), Inl CancelledError}"
proof -
  define f where "f = (if e = AsyncTimeoutError then failure ''generation_timeout'' True
    else if e = CancelledError then failure ''upstream_unavailable'' True else exception_failure e)"
  define ending :: "pyexn + unit" where "ending = (if e = CancelledError then Inl e else Inr ())"
  have "run_job P E i sent k job r = report P E job f k ms ending"
    by (simp add: run_job_def assms f_def ending_def)
  moreover have "fi_code f \<in> failure_codes"
    using exception_failure_code [of e] by (simp add: f_def failure_codes_def)
  moreover have "ending \<in> {Inr (), Inl CancelledError}" by (simp add: ending_def)
  ultimately show thesis by (rule that)
qed

section \<open>Properties of jobs\<close>

text \<open>
  C4: Every job that has started is answered, one case apart: as long as the stream takes messages, a run
  of the job leaves at least one, whatever the hub and the model do, whenever its time runs out or the
  service shuts down, and wherever writing a checkpoint fails; and the run itself ends without an
  exception, a cancellation apart. The last message is either the result of the graph or a failure with
  one of the fixed codes. Before it there is at most one other, the graph's own, and only where an
  interruption met the last node after it had written or a checkpoint could not be written. The one case
  is a cancellation that strikes the report of a failure before its message is sent: then nothing follows
  what the graph has written, which is at most its own one message, and the run ends cancelled.
\<close>

theorem accepted_job_answered:
  assumes "stream_up P"
  shows "(k \<noteq> BeforeSend \<longrightarrow>
      (\<exists>ms m. snd (run_job P E i sent k job r) = ms @ [m] \<and> length ms \<le> 1
        \<and> (\<forall>x \<in> set (ms @ [m]). ms_job x = job) \<and> (\<forall>x \<in> set ms. own_message P E job r x)
        \<and> (own_message P E job r m \<or> (\<exists>f. fi_code f \<in> failure_codes \<and> publish_failure P E job f = Inr (Some m)))
        \<and> (ms \<noteq> [] \<longrightarrow> sent \<and> i \<noteq> Undisturbed \<or> (\<exists>n e. i = BrokenAt n e))))
    \<and> (k = BeforeSend \<longrightarrow>
        length (snd (run_job P E i sent k job r)) \<le> 1
        \<and> (\<forall>x \<in> set (snd (run_job P E i sent k job r)). ms_job x = job \<and> own_message P E job r x)
        \<and> (snd (run_job P E i sent k job r) = [] \<longrightarrow> fst (run_job P E i sent k job r) = Inl CancelledError))
    \<and> fst (run_job P E i sent k job r) \<in> {Inr (), Inl CancelledError}"
proof -
  obtain res ms where g: "graph_result P E i sent job r = (res, ms)" by fastforce
  note gm = graph_result_messages [OF g]
  have jobs: "\<forall>x \<in> set ms. ms_job x = job" using gm own_message_job by blast
  show ?thesis
  proof (cases res)
    case (Inr u)
    with gm obtain m where "ms = [m]" by (cases ms) auto
    moreover from this g Inr have "run_job P E i sent k job r = (Inr (), [m])" by (simp add: run_job_def)
    ultimately show ?thesis using gm jobs by auto
  next
    case (Inl e)
    obtain f ending where run: "run_job P E i sent k job r = report P E job f k ms ending"
      and f: "fi_code f \<in> failure_codes" and ending: "ending \<in> {Inr (), Inl CancelledError}"
      using run_job_reports [OF g [unfolded Inl]] by blast
    show ?thesis
    proof (cases "k = BeforeSend")
      case True
      then show ?thesis unfolding run using gm jobs by (simp add: report_def)
    next
      case False
      obtain m where m: "report P E job f k ms ending = (if k = Quiet then ending else Inl CancelledError, ms @ [m])"
        "publish_failure P E job f = Inr (Some m)" "ms_job m = job"
        using report_up [OF assms False] by blast
      have "ms \<noteq> [] \<longrightarrow> sent \<and> i \<noteq> Undisturbed \<or> (\<exists>n e. i = BrokenAt n e)" using gm Inl by auto
      moreover have "\<forall>x \<in> set (ms @ [m]). ms_job x = job" using jobs m(3) by simp
      ultimately have "\<exists>us x. ms @ [m] = us @ [x] \<and> length us \<le> 1 \<and> (\<forall>x \<in> set (us @ [x]). ms_job x = job)
          \<and> (\<forall>x \<in> set us. own_message P E job r x)
          \<and> (own_message P E job r x \<or> (\<exists>f. fi_code f \<in> failure_codes \<and> publish_failure P E job f = Inr (Some x)))
          \<and> (us \<noteq> [] \<longrightarrow> sent \<and> i \<noteq> Undisturbed \<or> (\<exists>n e. i = BrokenAt n e))"
        using gm m(2) f by (intro exI [of _ ms] exI [of _ m]) blast
      with False ending show ?thesis unfolding run m(1) fst_conv snd_conv by auto
    qed
  qed
qed

lemma plain_publisher_up: "stream_up plain_publisher"
  by (simp add: stream_up_def plain_publisher_def)

theorem accepted_job_answered_witness:
  "\<exists>ms m. snd (run_job plain_publisher offline_env (TimeoutAt 2) True Quiet [7] (march_request 2)) = ms @ [m]
     \<and> length ms \<le> 1 \<and> ms_job m = [7]"
  using accepted_job_answered [OF plain_publisher_up, of Quiet offline_env "TimeoutAt 2" True "[7]" "march_request 2"]
  by auto

text \<open>
  When the time runs out between the write of the result and the end of the last node, the stream
  gets a success and then a failure of the same job.
\<close>

lemma late_timeout_contradicts:
  assumes "reached P E job r PublishDone s" and "publish_done P E s = Inr (p, m)" and "stream_up P"
    and "(advance P E ^^ k) (At ParseInput (start_state job r)) = At PublishDone s"
  shows "\<exists>m'. snd (run_job P E (TimeoutAt k) True Quiet job r) = [m, m'] \<and> ms_job m' = ms_job m \<and> ms_status m' = Failed"
proof -
  have "graph_result P E (TimeoutAt k) True job r = (Inl AsyncTimeoutError, [m])"
    using assms(2,4) by (simp add: graph_result_def cut_off_def in_flight_def Let_def)
  moreover have "own_message P E job r m" unfolding own_message_def using assms(1,2) by blast
  then have "ms_job m = job" by (rule own_message_job)
  ultimately show ?thesis
    using report_up [OF assms(3), of Quiet E job "failure ''generation_timeout'' True" "[m]" "Inr ()"]
    by (auto simp: run_job_def)
qed

text \<open>
  So it does, with nothing interrupted, when the checkpoint after the last node cannot be written; and a
  job whose graph ended in an exception leaves no message at all when its report is cancelled in time.
\<close>

lemma late_checkpoint_contradicts:
  assumes "(advance P E ^^ n) (At ParseInput (start_state job r)) = Published s p m" and "stream_up P"
    and "e \<noteq> CancelledError"
  shows "\<exists>m'. run_job P E (BrokenAt n e) False Quiet job r = (Inr (), [m, m']) \<and> ms_status m' = Failed"
proof -
  have "graph_result P E (BrokenAt n e) False job r = (Inl e, [m])"
    using assms(1) by (simp add: graph_result_def Let_def)
  moreover obtain m' where "publish_failure P E job f = Inr (Some (m' f)) \<and> ms_status (m' f) = Failed" for f
    using publish_failure_up [OF assms(2), of E job] by metis
  ultimately show ?thesis using assms(3) by (auto simp: run_job_def report_def Let_def)
qed

lemma cancelled_report_lost:
  assumes "graph_result P E i sent job r = (Inl e, [])"
  shows "run_job P E i sent BeforeSend job r = (Inl CancelledError, [])"
  using assms by (simp add: run_job_def report_def Let_def)

section \<open>Properties of the endpoints\<close>

lemma verify_token_Inr:
  "verify_internal_token setting provided = Inr u \<longleftrightarrow> setting = None \<or> setting = Some [] \<or> provided = setting"
  by (auto simp: verify_internal_token_def Let_def split: option.splits)

lemma parse_selected_valid: "parse_selected pd v = Some p \<Longrightarrow> valid_selected p"
  by (auto simp: parse_selected_def bind_eq_Some_conv Let_def split: if_splits)

lemma parse_place_list_valid:
  "parse_place_list pd v = Some ps \<Longrightarrow> 1 \<le> length ps \<and> length ps \<le> 10 \<and> (\<forall>p \<in> set ps. valid_selected p)"
  by (auto simp: parse_place_list_def bind_eq_Some_conv split: if_splits
      dest: parse_items_all [OF _ parse_selected_valid])

text \<open>With a key, the places of a request come from an envelope or there are none.\<close>

definition from_envelope :: "wire \<Rightarrow> pydantic \<Rightarrow> real \<Rightarrow> request \<Rightarrow> request \<Rightarrow> bool" where
  "from_envelope W pd now req r \<longleftrightarrow>
     (\<exists>token opened. rq_loc req = Some token \<and> open_seal W now token = Inr opened
        \<and> rq_places r = parse_place_list pd (dget opened ''places'') \<and> rq_places r \<noteq> None)"

lemma resolve_places_Inr:
  assumes "resolve_places W pd now req = Inr r"
  shows "(seal_enabled W \<longrightarrow> given_places r = [] \<or> from_envelope W pd now req r)
    \<and> (valid_request req \<longrightarrow> valid_request r) \<and> (\<not> seal_enabled W \<longrightarrow> r = req)"
proof (cases "seal_enabled W \<and> rq_loc req \<noteq> None \<and> rq_loc req \<noteq> Some []")
  case True
  then obtain c cs where loc: "rq_loc req = Some (c # cs)" by (cases "rq_loc req") (auto simp: neq_Nil_conv)
  from assms True obtain opened ps where o: "open_seal W now (c # cs) = Inr opened"
    "parse_place_list pd (dget opened ''places'') = Some ps" "r = req\<lparr>rq_places := Some ps, rq_loc := None\<rparr>"
    by (auto simp: resolve_places_def loc invalid_location_def split: sum.splits if_splits option.splits)
  with parse_place_list_valid [OF o(2)] loc True show ?thesis
    by (auto simp: from_envelope_def valid_request_def)
next
  case False
  then have "r = req \<and> (seal_enabled W \<longrightarrow> given_places req = [])"
    using assms by (auto simp: resolve_places_def invalid_location_def split: if_splits option.splits)
  then show ?thesis by auto
qed

text \<open>
  C5: A job starts only for a caller with the configured token and only once the graph exists, with
  the id that is answered, and nothing changes otherwise. With a wire key, its places are those of an
  envelope, the one the request carries, that decrypts under this key, was made at most five minutes
  ago and whose values meet the schema, or there are none; plain coordinates are refused. The request
  handed on is valid if the caller's was.
\<close>

theorem recommend_gate:
  assumes "recommend V now job provided req app = (res, app')"
  shows "case res of
      Inl f \<Rightarrow> app' = app
    | Inr acc \<Rightarrow> ac_job_id acc = job \<and> ap_graph app
        \<and> (sv_token V = None \<or> sv_token V = Some [] \<or> provided = sv_token V)
        \<and> (\<exists>r. app' = app\<lparr>ap_tasks := ap_tasks app @ [(job, r)]\<rparr>
            \<and> (valid_request req \<longrightarrow> valid_request r)
            \<and> (if seal_enabled (sv_wire V)
               then given_places r = [] \<or> (\<exists>token key iv ct plain opened issued. rq_loc req = Some token
                 \<and> b64url_decode (fst (seal_parts token)) = Some iv
                 \<and> b64url_decode (snd (seal_parts token)) = Some ct
                 \<and> wire_key (sv_wire V) = Inr key \<and> wr_decrypt (sv_wire V) key iv ct = Some plain
                 \<and> wr_loads (sv_wire V) plain = Inr (PDict opened)
                 \<and> issue_time (dget opened ''iat'') = Inr issued \<and> now - issued \<le> 300
                 \<and> rq_places r = parse_place_list (sv_pd V) (dget opened ''places''))
               else r = req))"
proof (cases res)
  case (Inl f)
  then show ?thesis using assms by (auto simp: recommend_def split: sum.splits if_splits)
next
  case (Inr acc)
  with assms obtain r where token: "verify_internal_token (sv_token V) provided = Inr ()"
    and r: "resolve_places (sv_wire V) (sv_pd V) now req = Inr r" and app: "ap_graph app"
    "acc = \<lparr>ac_job_id = job, ac_retry_after = 3\<rparr>" "app' = app\<lparr>ap_tasks := ap_tasks app @ [(job, r)]\<rparr>"
    by (auto simp: recommend_def bindE_Inr_iff split: sum.splits if_splits)
  note places = resolve_places_Inr [OF r]
  have "\<exists>token key iv ct plain opened issued. rq_loc req = Some token
      \<and> b64url_decode (fst (seal_parts token)) = Some iv
      \<and> b64url_decode (snd (seal_parts token)) = Some ct
      \<and> wire_key (sv_wire V) = Inr key \<and> wr_decrypt (sv_wire V) key iv ct = Some plain
      \<and> wr_loads (sv_wire V) plain = Inr (PDict opened)
      \<and> issue_time (dget opened ''iat'') = Inr issued \<and> now - issued \<le> 300
      \<and> rq_places r = parse_place_list (sv_pd V) (dget opened ''places'')"
    if env: "from_envelope (sv_wire V) (sv_pd V) now req r"
  proof -
    from env obtain t opened where t: "rq_loc req = Some t" "open_seal (sv_wire V) now t = Inr opened"
      "rq_places r = parse_place_list (sv_pd V) (dget opened ''places'')"
      unfolding from_envelope_def by blast
    with open_seal_sound [OF t(2)] show ?thesis by metis
  qed
  with places have "if seal_enabled (sv_wire V)
      then given_places r = [] \<or> (\<exists>token key iv ct plain opened issued. rq_loc req = Some token
        \<and> b64url_decode (fst (seal_parts token)) = Some iv
        \<and> b64url_decode (snd (seal_parts token)) = Some ct
        \<and> wire_key (sv_wire V) = Inr key \<and> wr_decrypt (sv_wire V) key iv ct = Some plain
        \<and> wr_loads (sv_wire V) plain = Inr (PDict opened)
        \<and> issue_time (dget opened ''iat'') = Inr issued \<and> now - issued \<le> 300
        \<and> rq_places r = parse_place_list (sv_pd V) (dget opened ''places''))
      else r = req" by auto
  then show ?thesis
    using Inr app token [unfolded verify_token_Inr] places by auto
qed

definition place_wire :: wire where
  "place_wire = clear_wire\<lparr>wr_loads := \<lambda>b. Inr (PDict
     [(lit ''iat'', PInt 1000),
      (lit ''places'', PList [PDict [(lit ''name'', PStr (lit ''Cafe'')), (lit ''lat'', PFloat (Fin 37)),
                                     (lit ''lng'', PFloat (Fin 128))]])])\<rparr>"

definition place_token :: pystr where
  "place_token = seal_version @ [46] @ b64url [9] @ [46] @ b64url [1]"

definition sealed_request :: request where
  "sealed_request = (march_request 2)\<lparr>rq_loc := Some place_token\<rparr>"

definition sealed_service :: service where
  "sealed_service = \<lparr>sv_token = Some [5], sv_wire = place_wire, sv_pd = en_pd offline_env\<rparr>"

lemma sealed_request_opens:
  "open_seal place_wire 1200 place_token
   = Inr [(lit ''iat'', PInt 1000),
      (lit ''places'', PList [PDict [(lit ''name'', PStr (lit ''Cafe'')), (lit ''lat'', PFloat (Fin 37)),
                                     (lit ''lng'', PFloat (Fin 128))]])]"
proof -
  have "wr_key place_wire = wr_key clear_wire" by (simp add: place_wire_def)
  then have "wire_key place_wire = Inr (replicate 32 7)" using clear_wire_key by (simp only: wire_key_def)
  then have "decrypt_parts place_wire (b64url [9]) (b64url [1]) = Inr [1]"
    using url.decodes [of "[9]"] url.decodes [of "[1]"]
    by (simp add: decrypt_parts_def) (simp add: place_wire_def clear_wire_def)
  then show ?thesis
    using sealed_token [of "[9]" "[1]"]
    by (simp add: open_seal_def place_token_def) (simp add: open_payload_def place_wire_def dget_def issue_time_int max_age_seconds_def)
qed

theorem recommend_gate_witness:
  "\<exists>app' r. recommend sealed_service 1200 [7] (Some [5]) sealed_request \<lparr>ap_graph = True, ap_tasks = []\<rparr>
      = (Inr \<lparr>ac_job_id = [7], ac_retry_after = 3\<rparr>, app')
    \<and> ap_tasks app' = [([7], r)] \<and> given_places r \<noteq> [] \<and> rq_loc sealed_request \<noteq> None"
proof -
  let ?app = "\<lparr>ap_graph = True, ap_tasks = []\<rparr>"
  let ?p = "\<lparr>sp_name = lit ''Cafe'', sp_address = [], sp_lat = 37, sp_lng = 128, sp_day = 1,
    sp_content_id = None, sp_category = None\<rparr>"
  have on: "seal_enabled place_wire"
    using wire_key_Inr [OF clear_wire_key] by (simp add: place_wire_def seal_enabled_def)
  have "parse_selected (en_pd offline_env) (PDict [(lit ''name'', PStr (lit ''Cafe'')),
      (lit ''lat'', PFloat (Fin 37)), (lit ''lng'', PFloat (Fin 128))]) = Some ?p"
    by (simp add: parse_selected_def offline_env_def bounded_float_def valid_selected_def text_ok_def
        forbidden_text_char_def lit_def dget_def)
  then have places: "parse_place_list (en_pd offline_env) (PList [PDict [(lit ''name'', PStr (lit ''Cafe'')),
      (lit ''lat'', PFloat (Fin 37)), (lit ''lng'', PFloat (Fin 128))]]) = Some [?p]"
    by (simp add: parse_place_list_def parse_items_def)
  have "place_token \<noteq> []" by (simp add: place_token_def)
  then obtain c cs where token: "place_token = c # cs" by (meson neq_Nil_conv)
  have "resolve_places place_wire (en_pd offline_env) 1200 sealed_request
      = Inr (sealed_request\<lparr>rq_places := Some [?p], rq_loc := None\<rparr>)"
    using on sealed_request_opens [unfolded token] places
    by (simp add: resolve_places_def sealed_request_def token dget_def)
  then obtain app' where run: "recommend sealed_service 1200 [7] (Some [5]) sealed_request ?app
      = (Inr \<lparr>ac_job_id = [7], ac_retry_after = 3\<rparr>, app')"
    "ap_tasks app' = [([7], sealed_request\<lparr>rq_places := Some [?p], rq_loc := None\<rparr>)]"
    by (simp add: recommend_def sealed_service_def verify_internal_token_def)
  from recommend_gate [OF run(1)] obtain r where "app' = ?app\<lparr>ap_tasks := [([7], r)]\<rparr>" by auto
  then show ?thesis using run by (auto simp: given_places_def sealed_request_def)
qed

text \<open>
  An envelope of the right key whose time is an integer no float can hold is answered with a 500, though
  the opening is documented to raise only its own error.
\<close>

lemma huge_issue_time_escapes:
  assumes "2 ^ 1024 \<le> n"
  shows "issue_time (PInt n) = Inl OverflowError"
proof -
  have "(0 :: int) < 2 ^ 970" by simp
  with assms have "\<not> \<bar>n\<bar> < 2 ^ 1024 - 2 ^ 970" by linarith
  then show ?thesis by (simp only: issue_time_def pyval.case py_float.simps if_False bindE_simps)
qed

lemma run_summary_enabled:
  "sc_enabled S \<Longrightarrow> summary_bullets E S (map summary_place_of places) = Inr b \<Longrightarrow> run_summary E S places = Inr b"
  by (simp add: run_summary_def)

text \<open>
  How a failure of the summary is answered: a limit of calls, a cancellation, anything else.
\<close>

definition answered_failure :: "pyexn \<Rightarrow> fault + 'a \<Rightarrow> bool" where
  "answered_failure e reply \<longleftrightarrow>
     (if e = LLMBudgetExceeded \<or> (\<exists>code. e = GeminiQuotaError code)
      then reply = Inl (Http 429 ''summary rate limited'')
      else if e = CancelledError then reply = Inl (Crash CancelledError)
      else reply = Inl (Http 502 ''summary unavailable''))"

lemma run_summary_failed:
  "sc_enabled S \<Longrightarrow> summary_bullets E S (map summary_place_of places) = Inl e
   \<Longrightarrow> answered_failure e (run_summary E S places)"
  by (cases e) (auto simp: run_summary_def answered_failure_def is_exception_def)

lemma answered_failure_bind: "answered_failure e r \<Longrightarrow> answered_failure e (bindE r g)"
  by (auto simp: answered_failure_def split: if_splits)

lemma run_summary_Inr:
  assumes "run_summary E S reqs = Inr bullets"
  shows "distinct (map fst bullets)
    \<and> (\<forall>il \<in> set bullets. 0 \<le> fst il \<and> nat (fst il) < length reqs \<and> length (snd il) = 2)"
proof (cases "sc_enabled S")
  case True
  with assms have b: "summary_bullets E S (map summary_place_of reqs) = Inr bullets"
    by (simp add: run_summary_def split: sum.splits)
  have "length (py_prefix (sc_max_places S) (map summary_place_of reqs)) \<le> length reqs"
    by (simp add: py_prefix_def)
  with summary_bullets_ok [OF b] show ?thesis by fastforce
qed (use assms in \<open>simp add: run_summary_def\<close>)

lemma place_results_Inr:
  "\<forall>il \<in> set bullets. 0 \<le> fst il \<and> length (snd il) = 2 \<Longrightarrow> mapE place_summary_result bullets = Inr bullets"
  by (induction bullets) (auto simp: place_summary_result_def)

text \<open>The caller may use the endpoints: no token is set, or it sent the one that is.\<close>

definition authorised :: "service \<Rightarrow> pystr option \<Rightarrow> bool" where
  "authorised V provided \<longleftrightarrow> sv_token V = None \<or> sv_token V = Some [] \<or> provided = sv_token V"

lemma verify_token_cases:
  "verify_internal_token (sv_token V) provided =
     (if authorised V provided then Inr () else Inl (Http 401 ''invalid internal token''))"
  by (auto simp: verify_internal_token_def authorised_def Let_def split: option.splits)

lemma single_summary:
  assumes "authorised V provided" and "sc_enabled S"
    and "summary_bullets E S [summary_place_of req] = Inr bullets"
  shows "summarize_place_reviews V E S provided req = Inr (case map_of bullets 0 of None \<Rightarrow> [] | Some ls \<Rightarrow> ls)
    \<and> (case map_of bullets 0 of None \<Rightarrow> True | Some ls \<Rightarrow> length ls = 2)"
proof -
  have run: "run_summary E S [req] = Inr bullets" using assms(2,3) by (simp add: run_summary_def)
  have "map_of bullets 0 = Some lines \<Longrightarrow> length lines = 2" for lines
    using run_summary_Inr [OF run] by (force dest: map_of_SomeD)
  then show ?thesis using assms(1) run
    by (auto simp: summarize_place_reviews_def verify_token_cases answer_def summary_response_def split: option.splits)
qed

lemma batch_summary:
  assumes "authorised V provided" and "sc_enabled S"
    and "summary_bullets E S (map summary_place_of reqs) = Inr bullets"
  shows "\<exists>results. summarize_places_reviews V E S provided reqs = Inr results \<and> mset results = mset bullets
    \<and> sorted_wrt (<) (map fst results)
    \<and> list_all (\<lambda>il. 0 \<le> fst il \<and> nat (fst il) < length reqs \<and> length (snd il) = 2) results"
proof -
  have run: "run_summary E S reqs = Inr bullets" using assms(2,3) by (simp add: run_summary_def)
  note ok = run_summary_Inr [OF run]
  then have "mapE place_summary_result (sort_key fst bullets) = Inr (sort_key fst bullets)"
    by (intro place_results_Inr) simp
  then have "summarize_places_reviews V E S provided reqs = Inr (sort_key fst bullets)"
    using assms(1) run by (simp add: summarize_places_reviews_def verify_token_cases answer_def)
  moreover have "distinct (map fst (sort_key fst bullets))"
    using ok by (metis distinct_map distinct_sort inj_on_def set_sort)
  then have "sorted_wrt (<) (map fst (sort_key fst bullets))"
    by (simp add: strict_sorted_iff)
  ultimately show ?thesis using ok by (simp add: list_all_iff)
qed

text \<open>
  C24: The summary endpoints answer every request, each cause in its own way: 401 without the token;
  nothing while summaries are switched off; 429 when the summary run meets its budget or the limit of
  calls, 502 when it fails in any other way, and only a cancellation of the request escapes. Otherwise the
  answer is what the run found: the single endpoint has the two lines of its one place or none, and the
  batch has every place the run found lines for, two lines each, at its position in the request and in
  ascending order; no answer is refused by its own response schema.
\<close>

theorem summary_endpoints_answer:
  "(if \<not> authorised V provided
    then summarize_place_reviews V E S provided req = Inl (Http 401 ''invalid internal token'')
    else if \<not> sc_enabled S then summarize_place_reviews V E S provided req = Inr []
    else case summary_bullets E S [summary_place_of req] of
        Inl e \<Rightarrow> answered_failure e (summarize_place_reviews V E S provided req)
      | Inr bullets \<Rightarrow>
          summarize_place_reviews V E S provided req = Inr (case map_of bullets 0 of None \<Rightarrow> [] | Some ls \<Rightarrow> ls)
          \<and> (case map_of bullets 0 of None \<Rightarrow> True | Some ls \<Rightarrow> length ls = 2))
   \<and> (if \<not> authorised V provided
    then summarize_places_reviews V E S provided reqs = Inl (Http 401 ''invalid internal token'')
    else if \<not> sc_enabled S then summarize_places_reviews V E S provided reqs = Inr []
    else case summary_bullets E S (map summary_place_of reqs) of
        Inl e \<Rightarrow> answered_failure e (summarize_places_reviews V E S provided reqs)
      | Inr bullets \<Rightarrow>
          (\<exists>results. summarize_places_reviews V E S provided reqs = Inr results \<and> mset results = mset bullets
            \<and> sorted_wrt (<) (map fst results)
            \<and> list_all (\<lambda>il. 0 \<le> fst il \<and> nat (fst il) < length reqs \<and> length (snd il) = 2) results))"
proof (cases "authorised V provided \<and> sc_enabled S")
  case True
  moreover have "answered_failure e (summarize_place_reviews V E S provided req)"
    if "summary_bullets E S [summary_place_of req] = Inl e" for e
    using True that run_summary_failed [of S E "[req]" e]
    by (simp add: summarize_place_reviews_def verify_token_cases answered_failure_bind)
  moreover have "answered_failure e (summarize_places_reviews V E S provided reqs)"
    if "summary_bullets E S (map summary_place_of reqs) = Inl e" for e
    using True that run_summary_failed [of S E reqs e]
    by (simp add: summarize_places_reviews_def verify_token_cases answered_failure_bind)
  moreover have "case summary_bullets E S [summary_place_of req] of Inl e \<Rightarrow> True | Inr bullets \<Rightarrow>
      summarize_place_reviews V E S provided req = Inr (case map_of bullets 0 of None \<Rightarrow> [] | Some ls \<Rightarrow> ls)
      \<and> (case map_of bullets 0 of None \<Rightarrow> True | Some ls \<Rightarrow> length ls = 2)"
    using True single_summary [of V provided S E req] by (simp split: sum.split)
  ultimately show ?thesis
    using batch_summary [of V provided S E reqs]
    by (cases "summary_bullets E S [summary_place_of req]"; cases "summary_bullets E S (map summary_place_of reqs)") auto
next
  case False
  then show ?thesis
    by (auto simp: summarize_place_reviews_def summarize_places_reviews_def verify_token_cases run_summary_def
        answer_def summary_response_def)
qed

end
