(* ===== verification/Scorer.thy ===== *)
theory Scorer
  imports Pipeline
begin

text \<open>
  eval/scorer.py and the gate of eval/run.py: the five axes by which a collected result is judged
  without a model. The payload is the decoded JSON of a message. The axes after the first are computed
  for payloads the first has accepted, so they are given its list of places, whose \<open>day\<close> and
  \<open>place_id\<close> are integers and whose coordinates are numbers. An integer beyond the range of a float,
  which makes \<open>math.isfinite\<close> raise, counts as a bad number here. The texts of the problems are
  constructors. \<open>int\<close> of a text is the parameter \<open>rd\<close>.
\<close>

section \<open>Reading a payload\<close>

fun as_int :: "pyval \<Rightarrow> int option" where
  "as_int (PInt n) = Some n"
| "as_int _ = None"

definition int_at :: "pydict \<Rightarrow> string \<Rightarrow> int" where
  "int_at d k = (case as_int (dget d k) of None \<Rightarrow> 0 | Some n \<Rightarrow> n)"

text \<open>\<open>type(v) in (int, float) and math.isfinite(v)\<close>.\<close>

definition finite_number :: "pyval \<Rightarrow> real option" where
  "finite_number v = (case number_of v of Some (Fin r) \<Rightarrow> Some r | _ \<Rightarrow> None)"

definition real_at :: "pydict \<Rightarrow> string \<Rightarrow> real" where
  "real_at d k = (case finite_number (dget d k) of None \<Rightarrow> 0 | Some r \<Rightarrow> r)"

text \<open>\<open>"HH:MM"\<close> to minutes.\<close>

definition hhmm_minutes :: "(pystr \<Rightarrow> int option) \<Rightarrow> pyval \<Rightarrow> int option" where
  "hhmm_minutes rd v =
     (case v of
        PStr t \<Rightarrow>
          if length t \<noteq> 5 \<or> t ! 2 \<noteq> 58 then None
          else (case (rd (take 2 t), rd (drop 3 t)) of
                  (Some hour, Some minute) \<Rightarrow>
                    if 0 \<le> hour \<and> hour < 24 \<and> 0 \<le> minute \<and> minute < 60
                    then Some (hour * 60 + minute) else None
                | _ \<Rightarrow> None)
      | _ \<Rightarrow> None)"

section \<open>Schema\<close>

datatype schema_fault =
    NotObject | WrongStatus pyval | PlacesEmpty | PlaceNotObject | InvalidDay | InvalidPlaceId
  | InvalidName | InvalidNumber string | DuplicatePlaceId

definition at_least :: "int \<Rightarrow> pyval \<Rightarrow> bool" where
  "at_least lo v = (case as_int v of None \<Rightarrow> False | Some n \<Rightarrow> lo \<le> n)"

definition number_within :: "real \<Rightarrow> real \<Rightarrow> pyval \<Rightarrow> bool" where
  "number_within lo hi v = (case finite_number v of None \<Rightarrow> False | Some r \<Rightarrow> lo \<le> r \<and> r \<le> hi)"

definition nonblank :: "pyval \<Rightarrow> bool" where
  "nonblank v = (case as_str v of None \<Rightarrow> False | Some t \<Rightarrow> strip t \<noteq> [])"

definition check_place :: "pyval \<Rightarrow> schema_fault + pydict" where
  "check_place v =
     (case v of
        PDict p \<Rightarrow>
          if \<not> at_least 1 (dget p ''day'') then Inl InvalidDay
          else if \<not> at_least 0 (dget p ''place_id'') then Inl InvalidPlaceId
          else if \<not> nonblank (dget p ''name'') then Inl InvalidName
          else if \<not> number_within 33 43 (dget p ''lat'') then Inl (InvalidNumber ''lat'')
          else if \<not> number_within 124 132 (dget p ''lng'') then Inl (InvalidNumber ''lng'')
          else Inr p
      | _ \<Rightarrow> Inl PlaceNotObject)"

definition score_schema :: "pyval \<Rightarrow> schema_fault + pydict list" where
  "score_schema payload =
     (case payload of
        PDict d \<Rightarrow>
          if dget d ''status'' \<noteq> PStr (lit ''done'') then Inl (WrongStatus (dget d ''status''))
          else (case dget d ''places'' of
                  PList (x # xs) \<Rightarrow>
                    bindE (mapE check_place (x # xs)) (\<lambda>ps.
                      if distinct (map (\<lambda>p. int_at p ''place_id'') ps) then Inr ps
                      else Inl DuplicatePlaceId)
                | _ \<Rightarrow> Inl PlacesEmpty)
      | _ \<Rightarrow> Inl NotObject)"

section \<open>Sources\<close>

definition place_grounded :: "pyval \<Rightarrow> pyexn + bool" where
  "place_grounded v =
     (case v of
        PDict p \<Rightarrow>
          if dget p ''grounded'' \<noteq> PBool True then Inr False
          else bindE (hash_key (dget p ''source'')) (\<lambda>_.
            Inr ((dget p ''source'' = PStr (lit ''kakao'') \<or> dget p ''source'' = PStr (lit ''durunubi''))
              \<and> nonblank (dget p ''content_id'')
              \<and> (case as_str (dget p ''content_id'') of None \<Rightarrow> False
                 | Some t \<Rightarrow> \<not> contains_text (lit ''stub'') (ascii_lower t))))
      | _ \<Rightarrow> Inr False)"

fun all_grounded :: "pyval list \<Rightarrow> pyexn + bool" where
  "all_grounded [] = Inr True"
| "all_grounded (v # vs) = bindE (place_grounded v) (\<lambda>b. if b then all_grounded vs else Inr False)"

definition score_grounded :: "pyval \<Rightarrow> pydict option \<Rightarrow> pyexn + bool" where
  "score_grounded payload training =
     (let places = (case payload of PDict d \<Rightarrow> dget d ''places'' | _ \<Rightarrow> PNone)
      in if \<not> truthy places then Inr False
         else bindE (iter_or_empty places) (\<lambda>ps.
              bindE (all_grounded ps) (\<lambda>grounded.
                Inr (case training of
                       None \<Rightarrow> grounded
                     | Some t \<Rightarrow>
                         if t \<noteq> [] \<and> (dget t ''grounded'' = PBool False
                           \<or> dget t ''path'' = PStr (lit ''invent'')
                           \<or> dget t ''path'' = PStr (lit ''select_then_invent''))
                         then False else grounded))))"

section \<open>Radius\<close>

text \<open>The distance with its guard against a rounded argument above 1.\<close>

definition scored_km :: "real \<Rightarrow> real \<Rightarrow> real \<Rightarrow> real \<Rightarrow> real" where
  "scored_km lat1 lng1 lat2 lng2 =
     earth_radius * 2 * arcsin (min 1 (sqrt (haversine_arg lat1 lng1 lat2 lng2)))"

record rules_score =
  ru_applicable :: bool
  ru_violations :: nat
  ru_detail :: "(int \<times> pyval \<times> real) list"

definition mean_at :: "string \<Rightarrow> pydict list \<Rightarrow> real" where
  "mean_at k ps = sum_list (map (\<lambda>p. real_at p k) ps) / real (length ps)"

definition day_violations :: "real \<Rightarrow> int \<Rightarrow> pydict list \<Rightarrow> (int \<times> pyval \<times> real) list" where
  "day_violations radius day grp =
     (let km = (\<lambda>p. scored_km (mean_at ''lat'' grp) (mean_at ''lng'' grp) (real_at p ''lat'') (real_at p ''lng''))
      in map (\<lambda>p. (day, dget p ''name'', round_digits 2 (km p))) (filter (\<lambda>p. radius < km p) grp))"

definition score_rules :: "pydict list \<Rightarrow> real option \<Rightarrow> rules_score" where
  "score_rules places max_radius =
     (case max_radius of
        None \<Rightarrow> \<lparr>ru_applicable = False, ru_violations = 0, ru_detail = []\<rparr>
      | Some radius \<Rightarrow>
          (let days = sort (remdups (map (\<lambda>p. int_at p ''day'') places));
               vs = concat (map (\<lambda>d. day_violations radius d (filter (\<lambda>p. int_at p ''day'' = d) places)) days)
           in \<lparr>ru_applicable = True, ru_violations = length vs, ru_detail = take 5 vs\<rparr>))"

section \<open>Route\<close>

datatype route_problem =
    InvalidOrder | LengthMismatch nat nat | DuplicateVisit | UnknownIds "int list" | LegCount | LegMismatch
  | OrderChanged

record route_score =
  rt_present :: bool
  rt_ok :: bool
  rt_problems :: "route_problem list"

text \<open>\<open>v == n\<close> for an integer \<open>n\<close>.\<close>

fun equals_int :: "pyval \<Rightarrow> int \<Rightarrow> bool" where
  "equals_int (PInt m) n = (m = n)"
| "equals_int (PBool b) n = (n = (if b then 1 else 0))"
| "equals_int (PFloat (Fin r)) n = (r = of_int n)"
| "equals_int _ n = False"

definition leg_joins :: "pyval \<Rightarrow> int \<Rightarrow> int \<Rightarrow> bool" where
  "leg_joins v a b =
     (case as_dict v of None \<Rightarrow> False
      | Some leg \<Rightarrow> equals_int (dget leg ''from'') a \<and> equals_int (dget leg ''to'') b)"

text \<open>\<open>payload.get(k) or []\<close>.\<close>

definition or_empty :: "pyval \<Rightarrow> pyval" where
  "or_empty v = (if truthy v then v else PList [])"

definition leg_problems :: "pyval \<Rightarrow> int list \<Rightarrow> route_problem list" where
  "leg_problems legs order =
     (case as_list (or_empty legs) of
        None \<Rightarrow> [LegCount]
      | Some ls \<Rightarrow>
          if length ls \<noteq> length order - 1 then [LegCount]
          else map (\<lambda>_. LegMismatch)
                 (filter (\<lambda>i. \<not> leg_joins (ls ! i) (order ! i) (order ! Suc i)) [0..<length ls]))"

definition score_route :: "pydict list \<Rightarrow> pydict \<Rightarrow> route_score" where
  "score_route places payload =
     (let ids = map (\<lambda>p. int_at p ''place_id'') places
      in case dget payload ''visit_order'' of
           PNone \<Rightarrow> \<lparr>rt_present = False, rt_ok = False, rt_problems = []\<rparr>
         | v \<Rightarrow>
             (case Option.bind (as_list v) (\<lambda>xs. those (map as_int xs)) of
                None \<Rightarrow> \<lparr>rt_present = True, rt_ok = False, rt_problems = [InvalidOrder]\<rparr>
              | Some order \<Rightarrow>
                  (let unknown = filter (\<lambda>i. i \<notin> set ids) order;
                       problems =
                         (if length order \<noteq> length ids then [LengthMismatch (length order) (length ids)] else [])
                         @ (if distinct order then [] else [DuplicateVisit])
                         @ (if unknown = [] then [] else [UnknownIds (take 3 unknown)])
                         @ leg_problems (dget payload ''legs'') order
                   in \<lparr>rt_present = True, rt_ok = (problems = []), rt_problems = problems\<rparr>)))"

section \<open>Timeline\<close>

datatype timeline_problem =
    TimesMissing | BadTime int | Backwards int | BeforeStart int | AfterEnd int | StayMismatch int
  | BadTravel int | Overlap int

record timeline_score =
  ts_applicable :: bool
  ts_ok :: bool
  ts_problems :: "timeline_problem list"

definition leg_entry :: "pyval \<Rightarrow> ((int \<times> int) \<times> pydict) option" where
  "leg_entry v =
     Option.bind (as_dict v) (\<lambda>leg.
     Option.bind (as_int (dget leg ''from'')) (\<lambda>a.
     Option.bind (as_int (dget leg ''to'')) (\<lambda>b. Some ((a, b), leg))))"

definition leg_table :: "pyval list \<Rightarrow> int \<Rightarrow> int \<Rightarrow> pydict option" where
  "leg_table legs a b = map_of (rev (List.map_filter leg_entry legs)) (a, b)"

text \<open>\<open>legs.get((prev, pid), {}).get("estimated_duration_min", 0)\<close>.\<close>

definition travel_value :: "pyval list \<Rightarrow> int \<Rightarrow> int \<Rightarrow> pyval" where
  "travel_value legs a b =
     (case leg_table legs a b of None \<Rightarrow> PInt 0
      | Some leg \<Rightarrow> (case map_of leg (lit ''estimated_duration_min'') of None \<Rightarrow> PInt 0 | Some v \<Rightarrow> v))"

definition travel_problem :: "pyval list \<Rightarrow> int \<Rightarrow> int \<times> int \<Rightarrow> int \<Rightarrow> int \<Rightarrow> timeline_problem list" where
  "travel_problem legs day prev pid start =
     (case finite_number (travel_value legs (fst prev) pid) of
        None \<Rightarrow> [BadTravel day]
      | Some travel \<Rightarrow>
          if travel < 0 then [BadTravel day]
          else if real_of_int start < real_of_int (snd prev) + travel then [Overlap day] else [])"

definition stay_wrong :: "pyval \<Rightarrow> int \<Rightarrow> bool" where
  "stay_wrong v duration =
     (case v of PNone \<Rightarrow> False | PInt n \<Rightarrow> n < 0 \<or> duration \<noteq> n | _ \<Rightarrow> True)"

definition visit_problems ::
    "int option \<Rightarrow> int option \<Rightarrow> pyval list \<Rightarrow> (int \<times> int) option \<Rightarrow> pydict \<Rightarrow> int \<Rightarrow> int \<Rightarrow> timeline_problem list"
  where
  "visit_problems lo hi legs prev p start finish =
     (let day = int_at p ''day''
      in (if finish < start then [Backwards day] else [])
       @ (case lo of None \<Rightarrow> [] | Some l \<Rightarrow> if start < l then [BeforeStart day] else [])
       @ (case hi of None \<Rightarrow> [] | Some h \<Rightarrow> if h < finish then [AfterEnd day] else [])
       @ (if stay_wrong (dget p ''stay_minutes'') (finish - start) then [StayMismatch day] else [])
       @ (case prev of None \<Rightarrow> [] | Some pe \<Rightarrow> travel_problem legs day pe (int_at p ''place_id'') start))"

fun scan_visits ::
    "(pystr \<Rightarrow> int option) \<Rightarrow> int option \<Rightarrow> int option \<Rightarrow> pyval list \<Rightarrow> (int \<Rightarrow> (int \<times> int) option)
     \<Rightarrow> pydict list \<Rightarrow> timeline_problem list" where
  "scan_visits rd lo hi legs previous [] = []"
| "scan_visits rd lo hi legs previous (p # ps) =
     (case (hhmm_minutes rd (dget p ''visit_start''), hhmm_minutes rd (dget p ''visit_end'')) of
        (Some start, Some finish) \<Rightarrow>
          visit_problems lo hi legs (previous (int_at p ''day'')) p start finish
          @ scan_visits rd lo hi legs (previous(int_at p ''day'' \<mapsto> (int_at p ''place_id'', finish))) ps
      | _ \<Rightarrow> BadTime (int_at p ''day'') # scan_visits rd lo hi legs previous ps)"

definition visited :: "pydict list \<Rightarrow> pyval \<Rightarrow> pydict list" where
  "visited places order =
     (case as_list order of
        None \<Rightarrow> places
      | Some xs \<Rightarrow>
          List.map_filter (\<lambda>v. Option.bind (as_int v)
            (map_of (rev (map (\<lambda>p. (int_at p ''place_id'', p)) places)))) xs)"

definition score_timeline ::
    "(pystr \<Rightarrow> int option) \<Rightarrow> pydict list \<Rightarrow> pydict \<Rightarrow> pyval \<Rightarrow> pyval \<Rightarrow> bool \<Rightarrow> pyexn + timeline_score" where
  "score_timeline rd places payload time_start time_end required =
     (let ordered = visited places (dget payload ''visit_order'')
      in if \<not> list_ex (\<lambda>p. truthy (dget p ''visit_start'') \<or> truthy (dget p ''visit_end'')) ordered
         then Inr \<lparr>ts_applicable = required, ts_ok = False, ts_problems = [TimesMissing]\<rparr>
         else bindE (iter_or_empty (dget payload ''legs'')) (\<lambda>legs.
           (let problems = scan_visits rd (hhmm_minutes rd time_start) (hhmm_minutes rd time_end) legs
                             (\<lambda>_. None) ordered
            in Inr \<lparr>ts_applicable = True, ts_ok = (problems = []), ts_problems = problems\<rparr>)))"

section \<open>One case\<close>

text \<open>The parts of a case file that the scorer reads.\<close>

record eval_case =
  ec_id :: pyval
  ec_radius :: "real option"
  ec_start :: pyval
  ec_end :: pyval
  ec_stage :: pyval
  ec_optimize :: bool
  ec_selected :: "pydict list"

record case_score =
  cs_id :: pyval
  cs_schema :: "schema_fault + nat"
  cs_grounded :: bool
  cs_rules :: rules_score
  cs_route :: route_score
  cs_timeline :: timeline_score

definition changed_place :: "pydict \<Rightarrow> pydict \<Rightarrow> bool" where
  "changed_place a b \<longleftrightarrow>
     (if truthy (dget b ''content_id'') then dget a ''content_id'' \<noteq> dget b ''content_id''
      else dget a ''name'' \<noteq> dget b ''name'')
     \<or> \<not> equals_int (case map_of b (lit ''day'') of None \<Rightarrow> PInt 1 | Some v \<Rightarrow> v) (int_at a ''day'')"

text \<open>
  On the route stage without optimisation the user's order must have been kept. The list of the visited
  places is made even where the order is no list: iterating over a number raises.
\<close>

definition check_order :: "eval_case \<Rightarrow> pydict list \<Rightarrow> pydict \<Rightarrow> route_score \<Rightarrow> pyexn + route_score" where
  "check_order C places payload rs =
     (if ec_stage C = PStr (lit ''route'') \<and> \<not> ec_optimize C \<and> ec_selected C \<noteq> []
      then
        bindE (iter_or_empty (dget payload ''visit_order'')) (\<lambda>ids.
         (let actual = visited places (PList ids)
          in Inr (if length actual \<noteq> length (ec_selected C) \<or> list_ex (\<lambda>(a, b). changed_place a b) (zip actual (ec_selected C))
            then rs\<lparr>rt_ok := False, rt_problems := rt_problems rs @ [OrderChanged]\<rparr> else rs)))
      else Inr rs)"

definition score_case ::
    "(pystr \<Rightarrow> int option) \<Rightarrow> eval_case \<Rightarrow> pyval \<Rightarrow> pydict option \<Rightarrow> pyexn + case_score" where
  "score_case rd C payload training =
     bindE (score_grounded payload training) (\<lambda>grounded.
       (case (score_schema payload, as_dict payload) of
          (Inr places, Some d) \<Rightarrow>
            bindE (score_timeline rd places d (ec_start C) (ec_end C) (truthy (ec_start C) \<or> truthy (ec_end C)))
              (\<lambda>tl. bindE (check_order C places d (score_route places d)) (\<lambda>rs. Inr
                \<lparr>cs_id = ec_id C, cs_schema = Inr (length places), cs_grounded = grounded,
                 cs_rules = score_rules places (ec_radius C), cs_route = rs, cs_timeline = tl\<rparr>))
        | (sc, _) \<Rightarrow> Inr
            \<lparr>cs_id = ec_id C, cs_schema = (case sc of Inl f \<Rightarrow> Inl f | Inr ps \<Rightarrow> Inr (length ps)),
             cs_grounded = grounded,
             cs_rules = \<lparr>ru_applicable = False, ru_violations = 0, ru_detail = []\<rparr>,
             cs_route = \<lparr>rt_present = False, rt_ok = False, rt_problems = []\<rparr>,
             cs_timeline = \<lparr>ts_applicable = False, ts_ok = False, ts_problems = []\<rparr>\<rparr>))"

section \<open>All cases\<close>

definition schema_ok :: "case_score \<Rightarrow> bool" where
  "schema_ok s = (case cs_schema s of Inl f \<Rightarrow> False | Inr n \<Rightarrow> True)"

definition share :: "nat \<Rightarrow> nat \<Rightarrow> real option" where
  "share num den = (if den = 0 then None else Some (round_digits 4 (real num / real den)))"

definition count_where :: "('a \<Rightarrow> bool) \<Rightarrow> 'a list \<Rightarrow> nat" where
  "count_where P xs = length (filter P xs)"

text \<open>The axes of the summary with their values; \<open>cases\<close> is the number of cases.\<close>

definition summarize_scores :: "case_score list \<Rightarrow> (string \<times> real option) list" where
  "summarize_scores ss =
     (if ss = [] then [(''cases'', Some 0)]
      else
        (let ruled = filter (\<lambda>s. ru_applicable (cs_rules s)) ss;
             routed = filter (\<lambda>s. rt_present (cs_route s)) ss;
             timed = filter (\<lambda>s. ts_applicable (cs_timeline s)) ss
         in [(''cases'', Some (real (length ss))),
             (''schema_ok_ratio'', share (count_where schema_ok ss) (length ss)),
             (''invented_ratio'', share (count_where (\<lambda>s. \<not> cs_grounded s) ss) (length ss)),
             (''rule_clean_ratio'', share (count_where (\<lambda>s. ru_violations (cs_rules s) = 0) ruled) (length ruled)),
             (''route_ok_ratio'', share (count_where (\<lambda>s. rt_ok (cs_route s)) routed) (length routed)),
             (''timeline_ok_ratio'', share (count_where (\<lambda>s. ts_ok (cs_timeline s)) timed) (length timed))]))"

text \<open>eval/run.py: the cases that fail the gate, and the axes that got worse than the baseline.\<close>

definition case_fails :: "case_score \<Rightarrow> bool" where
  "case_fails s \<longleftrightarrow> \<not> schema_ok s \<or> \<not> cs_grounded s \<or> \<not> rt_ok (cs_route s)
     \<or> (ru_applicable (cs_rules s) \<and> 0 < ru_violations (cs_rules s))
     \<or> (ts_applicable (cs_timeline s) \<and> \<not> ts_ok (cs_timeline s))"

definition regressed :: "(string \<times> real option) list \<Rightarrow> real \<Rightarrow> string \<times> real option \<Rightarrow> bool" where
  "regressed current tolerance ab =
     (case ab of (axis, base) \<Rightarrow>
       (if axis = ''cases'' then False
        else case base of
            None \<Rightarrow> False
          | Some b \<Rightarrow>
              (case (case map_of current axis of None \<Rightarrow> None | Some v \<Rightarrow> v) of
                 None \<Rightarrow> True
               | Some now \<Rightarrow> tolerance < (if axis = ''invented_ratio'' then now - b else b - now))))"

definition compare_axes :: "(string \<times> real option) list \<Rightarrow> (string \<times> real option) list \<Rightarrow> real \<Rightarrow> string list" where
  "compare_axes current baseline tolerance = map fst (filter (regressed current tolerance) baseline)"

section \<open>The JSON of a payload\<close>

text \<open>What \<open>model_dump_json(by_alias=True)\<close> writes, decoded: every field under its name or alias.\<close>

definition opt_value :: "('a \<Rightarrow> pyval) \<Rightarrow> 'a option \<Rightarrow> pyval" where
  "opt_value f v = (case v of None \<Rightarrow> PNone | Some x \<Rightarrow> f x)"

definition json_float :: "pyfloat \<Rightarrow> pyval" where
  "json_float f = (if is_finite f then PFloat f else PNone)"

definition dump_place :: "place \<Rightarrow> pydict" where
  "dump_place p =
     [(lit ''place_id'', PInt (pl_id p)), (lit ''day'', PInt (pl_day p)), (lit ''name'', PStr (pl_name p)),
      (lit ''address'', PStr (pl_address p)), (lit ''lat'', PFloat (Fin (pl_lat p))),
      (lit ''lng'', PFloat (Fin (pl_lng p))), (lit ''recommended_visit_time'', PStr (pl_visit_time p)),
      (lit ''content_id'', opt_value PStr (pl_content_id p)), (lit ''source'', opt_value PStr (pl_source p)),
      (lit ''category'', opt_value PStr (pl_category p)),
      (lit ''category_group_code'', opt_value PStr (pl_group_code p)),
      (lit ''phone'', opt_value PStr (pl_phone p)), (lit ''place_url'', opt_value PStr (pl_place_url p)),
      (lit ''crs_dstnc_km'', opt_value json_float (pl_crs_km p)),
      (lit ''crs_total_min'', opt_value PInt (pl_crs_min p)), (lit ''crs_level'', opt_value PInt (pl_crs_level p)),
      (lit ''brd_div'', opt_value PStr (pl_brd_div p)), (lit ''gpx_url'', opt_value PStr (pl_gpx_url p)),
      (lit ''route_idx'', opt_value PStr (pl_route_idx p)), (lit ''grounded'', PBool (pl_grounded p)),
      (lit ''stay_minutes'', opt_value PInt (pl_stay_minutes p)),
      (lit ''visit_start'', opt_value PStr (pl_visit_start p)), (lit ''visit_end'', opt_value PStr (pl_visit_end p)),
      (lit ''stay_source'', opt_value PStr (pl_stay_source p)), (lit ''reason'', opt_value PStr (pl_reason p)),
      (lit ''bullets'', opt_value (\<lambda>bs. PList (map PStr bs)) (pl_bullets p))]"

definition dump_leg :: "leg \<Rightarrow> pydict" where
  "dump_leg l =
     [(lit ''from'', PInt (lg_from l)), (lit ''to'', PInt (lg_to l)), (lit ''mode'', PStr (mobility_value (lg_mode l))),
      (lit ''estimated_distance_km'', PFloat (Fin (lg_km l))), (lit ''estimated_duration_min'', PInt (lg_min l))]"

fun status_text :: "job_status \<Rightarrow> pystr" where
  "status_text Done = lit ''done''"
| "status_text Failed = lit ''failed''"

fun timeline_text :: "timeline_status \<Rightarrow> pystr" where
  "timeline_text TimelineOk = lit ''ok''"
| "timeline_text Trimmed = lit ''trimmed''"
| "timeline_text Unverified = lit ''unverified''"

definition dump_payload :: "payload \<Rightarrow> pydict" where
  "dump_payload p =
     [(lit ''job_id'', PStr (jp_job_id p)), (lit ''status'', PStr (status_text (jp_status p))),
      (lit ''places'', opt_value (\<lambda>ps. PList (map (\<lambda>q. PDict (dump_place q)) ps)) (jp_places p)),
      (lit ''visit_order'', opt_value (\<lambda>is. PList (map PInt is)) (jp_visit_order p)),
      (lit ''legs'', opt_value (\<lambda>ls. PList (map (\<lambda>l. PDict (dump_leg l)) ls)) (jp_legs p)),
      (lit ''clothing'', opt_value PStr (jp_clothing p)),
      (lit ''timeline_status'', opt_value (\<lambda>t. PStr (timeline_text t)) (jp_timeline_status p)),
      (lit ''warnings'', opt_value (\<lambda>ws. PList (map PStr ws)) (jp_warnings p)),
      (lit ''error'', opt_value PStr (jp_error p)), (lit ''code'', opt_value PStr (jp_code p)),
      (lit ''retryable'', opt_value PBool (jp_retryable p))]"

lemma dump_place_get:
  "dget (dump_place p) ''place_id'' = PInt (pl_id p)" "dget (dump_place p) ''day'' = PInt (pl_day p)"
  "dget (dump_place p) ''name'' = PStr (pl_name p)" "dget (dump_place p) ''lat'' = PFloat (Fin (pl_lat p))"
  "dget (dump_place p) ''lng'' = PFloat (Fin (pl_lng p))"
  "dget (dump_place p) ''grounded'' = PBool (pl_grounded p)"
  "dget (dump_place p) ''source'' = opt_value PStr (pl_source p)"
  "dget (dump_place p) ''content_id'' = opt_value PStr (pl_content_id p)"
  "dget (dump_place p) ''stay_minutes'' = opt_value PInt (pl_stay_minutes p)"
  "dget (dump_place p) ''visit_start'' = opt_value PStr (pl_visit_start p)"
  "dget (dump_place p) ''visit_end'' = opt_value PStr (pl_visit_end p)"
  by (simp_all add: dump_place_def dget_def)

lemma dump_payload_get:
  "dget (dump_payload p) ''status'' = PStr (status_text (jp_status p))"
  "dget (dump_payload p) ''places'' = opt_value (\<lambda>ps. PList (map (\<lambda>q. PDict (dump_place q)) ps)) (jp_places p)"
  "dget (dump_payload p) ''visit_order'' = opt_value (\<lambda>is. PList (map PInt is)) (jp_visit_order p)"
  "dget (dump_payload p) ''legs'' = opt_value (\<lambda>ls. PList (map (\<lambda>l. PDict (dump_leg l)) ls)) (jp_legs p)"
  by (simp_all add: dump_payload_def dget_def)

section \<open>Lemmas on the axes\<close>

definition shown_ok :: "place \<Rightarrow> bool" where
  "shown_ok p \<longleftrightarrow> 0 \<le> pl_id p \<and> 1 \<le> pl_day p \<and> strip (pl_name p) \<noteq> []
     \<and> 33 \<le> pl_lat p \<and> pl_lat p \<le> 43 \<and> 124 \<le> pl_lng p \<and> pl_lng p \<le> 132"

lemma check_place_dump: "shown_ok p \<Longrightarrow> check_place (PDict (dump_place p)) = Inr (dump_place p)"
  by (simp add: check_place_def dump_place_get at_least_def nonblank_def number_within_def finite_number_def
      shown_ok_def)

lemma score_schema_dump:
  assumes "jp_status p = Done" and "jp_places p = Some ps" and "ps \<noteq> []" and "distinct (map pl_id ps)"
    and "\<forall>q \<in> set ps. shown_ok q"
  shows "score_schema (PDict (dump_payload p)) = Inr (map dump_place ps)"
proof -
  have "mapE check_place (map (\<lambda>q. PDict (dump_place q)) ps) = Inr (map dump_place ps)"
    using assms(5) by (induction ps) (simp_all add: check_place_dump)
  moreover have "map (\<lambda>d. int_at d ''place_id'') (map dump_place ps) = map pl_id ps"
    by (simp add: int_at_def dump_place_get)
  then have "distinct (map (\<lambda>d. int_at d ''place_id'') (map dump_place ps))" using assms(4) by (simp only:)
  moreover obtain x xs where "map (\<lambda>q. PDict (dump_place q)) ps = x # xs"
    using assms(3) by (cases ps) simp_all
  ultimately show ?thesis
    using assms(1,2) by (simp add: score_schema_def dump_payload_get opt_value_def del: map_map)
qed

definition cited :: "place \<Rightarrow> bool" where
  "cited p \<longleftrightarrow> pl_grounded p \<and> pl_source p \<in> Some ` known_sources
     \<and> (\<exists>cid. pl_content_id p = Some cid \<and> strip cid \<noteq> [] \<and> \<not> contains_text (lit ''stub'') (ascii_lower cid))"

lemma place_grounded_dump: "cited p \<Longrightarrow> place_grounded (PDict (dump_place p)) = Inr True"
  by (auto simp: place_grounded_def dump_place_get cited_def known_sources_def opt_value_def nonblank_def)

lemma score_grounded_dump:
  assumes "jp_places p = Some ps" and "ps \<noteq> []" and "\<forall>q \<in> set ps. cited q"
  shows "score_grounded (PDict (dump_payload p)) None = Inr True"
proof -
  have "all_grounded (map (\<lambda>q. PDict (dump_place q)) ps) = Inr True"
    using assms(3) by (induction ps) (simp_all add: place_grounded_dump)
  then show ?thesis
    using assms(1,2) by (simp add: score_grounded_def dump_payload_get opt_value_def iter_or_empty_def)
qed

text \<open>The route axis accepts exactly the permutations of the ids that the legs follow.\<close>

lemma those_ints: "those (map as_int xs) = Some is \<longleftrightarrow> xs = map PInt is"
proof -
  have "as_int v = Some i \<longleftrightarrow> v = PInt i" for v i by (cases v) auto
  then show ?thesis by (auto simp: those_Some_iff list_eq_iff_nth_eq)
qed

lemma leg_problems_Nil:
  "leg_problems legs order = [] \<longleftrightarrow>
     (\<exists>ls. or_empty legs = PList ls \<and> length ls = length order - 1
        \<and> (\<forall>i < length ls. leg_joins (ls ! i) (order ! i) (order ! Suc i)))"
proof -
  have "as_list v = Some ls \<longleftrightarrow> v = PList ls" for v ls by (cases v) auto
  then show ?thesis
    by (auto simp: leg_problems_def filter_empty_conv split: option.splits)
qed

lemma score_route_ok_iff:
  assumes "distinct (map (\<lambda>p. int_at p ''place_id'') places)"
  shows "rt_ok (score_route places d) \<longleftrightarrow>
     (\<exists>order. dget d ''visit_order'' = PList (map PInt order)
        \<and> mset order = mset (map (\<lambda>p. int_at p ''place_id'') places)
        \<and> leg_problems (dget d ''legs'') order = [])"
proof -
  let ?ids = "map (\<lambda>p. int_at p ''place_id'') places"
  have perm: "length order = length ?ids \<and> distinct order \<and> filter (\<lambda>i. i \<notin> set ?ids) order = []
      \<longleftrightarrow> mset order = mset ?ids" for order
  proof
    assume l: "length order = length ?ids \<and> distinct order \<and> filter (\<lambda>i. i \<notin> set ?ids) order = []"
    then have "set order \<subseteq> set ?ids" unfolding filter_empty_conv by blast
    moreover have "card (set order) = card (set ?ids)"
      using l assms distinct_card [of order] distinct_card [of ?ids] by simp
    ultimately have "set order = set ?ids" by (intro card_subset_eq) simp_all
    with l assms show "mset order = mset ?ids" using set_eq_iff_mset_eq_distinct [of order ?ids] by blast
  next
    assume m: "mset order = mset ?ids"
    have "distinct order" by (rule iffD2 [OF mset_eq_imp_distinct_iff [OF m] assms])
    moreover have "set order = set ?ids" using arg_cong [OF m, of set_mset] by simp
    ultimately show "length order = length ?ids \<and> distinct order \<and> filter (\<lambda>i. i \<notin> set ?ids) order = []"
      using mset_eq_length [OF m] by (simp add: filter_empty_conv)
  qed
  show ?thesis
  proof (cases "Option.bind (as_list (dget d ''visit_order'')) (\<lambda>xs. those (map as_int xs))")
    case None
    then have "\<not> rt_ok (score_route places d)"
      by (cases "dget d ''visit_order''") (auto simp: score_route_def bind_eq_None_conv)
    moreover have "dget d ''visit_order'' \<noteq> PList (map PInt order)" for order
      using None those_ints [of "map PInt order" order] by auto
    ultimately show ?thesis by blast
  next
    case (Some order)
    then obtain xs where v: "dget d ''visit_order'' = PList xs" "xs = map PInt order"
      by (cases "dget d ''visit_order''") (auto simp: bind_eq_Some_conv those_ints)
    have "rt_ok (score_route places d) \<longleftrightarrow> (length order = length ?ids \<and> distinct order
        \<and> filter (\<lambda>i. i \<notin> set ?ids) order = []) \<and> leg_problems (dget d ''legs'') order = []"
      using Some by (simp add: score_route_def v(1) Let_def)
    then show ?thesis unfolding perm using v by (auto simp: map_injective inj_def)
  qed
qed

section \<open>A delivered trip passes\<close>

text \<open>Reading back the texts of the times.\<close>

lemma hhmm_minutes_text:
  assumes "\<forall>n. 0 \<le> n \<and> n < 100 \<longrightarrow> rd (two_digits n) = Some n" and "0 \<le> m" and "m < 1440"
  shows "hhmm_minutes rd (PStr (minutes_to_hhmm m)) = Some m"
proof -
  have c: "max 0 (min m (23 * 60 + 59)) = m" using assms(2,3) by simp
  have h: "0 \<le> m div 60" "m div 60 < 24" "0 \<le> m mod 60" "m mod 60 < 60"
    using assms(2,3) by presburger+
  note d = two_digits_read [of "m div 60"] two_digits_read [of "m mod 60"]
  have t: "minutes_to_hhmm m = two_digits (m div 60) @ [58] @ two_digits (m mod 60)"
    by (simp only: minutes_to_hhmm_def Let_def c)
  have len: "length (two_digits (m div 60)) = 2" "length (two_digits (m mod 60)) = 2" using d h by simp_all
  have "m div 60 * 60 + m mod 60 = m" by simp
  then show ?thesis
    using h len assms(1) by (simp add: hhmm_minutes_def t nth_append)
qed

text \<open>The travel time the scorer finds is one the planner has used.\<close>

lemma leg_table_dump:
  assumes "leg_table (map (\<lambda>l. PDict (dump_leg l)) legs) a b = Some d"
  shows "\<exists>l \<in> set legs. lg_from l = a \<and> lg_to l = b \<and> d = dump_leg l"
proof -
  have "leg_entry (PDict (dump_leg l)) = Some ((lg_from l, lg_to l), dump_leg l)" for l
    by (simp add: leg_entry_def dump_leg_def dget_def)
  then have "List.map_filter leg_entry (map (\<lambda>l. PDict (dump_leg l)) legs)
      = map (\<lambda>l. ((lg_from l, lg_to l), dump_leg l)) legs"
    by (induction legs) (simp_all add: List.map_filter_simps)
  with assms show ?thesis by (auto simp: leg_table_def dest!: map_of_SomeD)
qed

lemma travel_value_dump:
  assumes "legs_match order legs" and "distinct order"
  shows "\<exists>n. travel_value (map (\<lambda>l. PDict (dump_leg l)) legs) a b = PInt n \<and> 0 \<le> n \<and> n \<le> leg_minutes legs order a"
proof (cases "leg_table (map (\<lambda>l. PDict (dump_leg l)) legs) a b")
  case None
  then show ?thesis by (simp add: travel_value_def leg_minutes_nonneg)
next
  case (Some d)
  from leg_table_dump [OF this] obtain l where l: "l \<in> set legs" "lg_from l = a" "d = dump_leg l" by blast
  then obtain i where i: "i < length legs" "legs ! i = l" by (auto simp: in_set_conv_nth)
  with assms(1) l(2) have "order ! i = a" "valid_leg l" by (auto simp: legs_match_def)
  with leg_minutes_nth [OF assms i(1)] i(2) have "leg_minutes legs order a = lg_min l" by simp
  moreover have "travel_value (map (\<lambda>l. PDict (dump_leg l)) legs) a b = PInt (lg_min l)"
    by (simp add: travel_value_def Some l(3)) (simp add: dump_leg_def)
  ultimately show ?thesis using \<open>valid_leg l\<close> by (simp add: valid_leg_def)
qed

text \<open>What the scan needs of the visits and of the entries that show them.\<close>

definition shows_visit :: "(pystr \<Rightarrow> int option) \<Rightarrow> pydict \<Rightarrow> visit \<Rightarrow> bool" where
  "shows_visit rd p v \<longleftrightarrow> int_at p ''day'' = vs_day v \<and> int_at p ''place_id'' = vs_id v
     \<and> hhmm_minutes rd (dget p ''visit_start'') = Some (vs_start v)
     \<and> hhmm_minutes rd (dget p ''visit_end'') = Some (vs_end v)
     \<and> dget p ''stay_minutes'' = PInt (vs_end v - vs_start v) \<and> vs_start v \<le> vs_end v"

lemma scan_visits_clean:
  assumes "list_all2 (shows_visit rd) ps vs" and "sorted_wrt (follows K) vs" and "0 \<le> ck_buffer K"
    and "\<forall>a b. \<exists>n. travel_value legs a b = PInt n \<and> 0 \<le> n \<and> n \<le> ck_travel K a"
    and "\<forall>v \<in> set vs. (\<forall>l. lo = Some l \<longrightarrow> l \<le> vs_start v) \<and> (\<forall>h. hi = Some h \<longrightarrow> vs_end v \<le> h)"
    and "\<forall>v \<in> set vs. \<forall>a e. previous (vs_day v) = Some (a, e) \<longrightarrow> e + ck_travel K a + ck_buffer K \<le> vs_start v"
  shows "scan_visits rd lo hi legs previous ps = []"
  using assms(1,2,5,6)
proof (induction arbitrary: previous rule: list_all2_induct)
  case (Cons p ps v vs)
  have "travel_problem legs d ae (vs_id v) (vs_start v) = []" if "previous (vs_day v) = Some ae" for d ae
  proof -
    obtain a e where ae: "ae = (a, e)" by fastforce
    from assms(4) obtain n where n: "travel_value legs a (vs_id v) = PInt n" "0 \<le> n" "n \<le> ck_travel K a" by blast
    moreover have "e + ck_travel K a + ck_buffer K \<le> vs_start v" using Cons.prems(3) that ae by simp
    ultimately have "e + n \<le> vs_start v" using assms(3) by linarith
    then have "\<not> real_of_int (vs_start v) < real_of_int e + real_of_int n" by linarith
    with n show ?thesis by (simp add: travel_problem_def ae finite_number_def)
  qed
  then have "visit_problems lo hi legs (previous (vs_day v)) p (vs_start v) (vs_end v) = []"
    using Cons.hyps(1) Cons.prems(2)
    by (auto simp: visit_problems_def shows_visit_def stay_wrong_def Let_def split: option.splits)
  moreover have "scan_visits rd lo hi legs (previous(vs_day v \<mapsto> (vs_id v, vs_end v))) ps = []"
    using Cons.prems by (intro Cons.IH) (auto simp: follows_def)
  ultimately show ?case using Cons.hyps(1) by (simp add: shows_visit_def)
qed simp


text \<open>The entries of the payload in visiting order, against the visits the planner has laid out.\<close>

lemma merge_place_kept:
  "pl_name (merge_place s p) = pl_name p" "pl_grounded (merge_place s p) = pl_grounded p"
  "pl_source (merge_place s p) = pl_source p" "pl_content_id (merge_place s p) = pl_content_id p"
  by (simp_all add: merge_place_def merge_slot_def Let_def split: option.splits)

lemma merge_place_stay:
  "pl_stay_minutes (merge_place s p) = Some n
   \<Longrightarrow> pl_stay_minutes p = Some n \<or> (\<exists>sl \<in> snd ` set (st_timeline s). n = sl_stay sl)"
  by (cases "map_of (st_timeline s) (pl_id p)")
     (force simp: merge_place_def merge_slot_def Let_def dest: map_of_SomeD split: option.splits)+

lemma schedule_stay_cong:
  "\<forall>i \<in> set order. f i = ck_stay K i
   \<Longrightarrow> schedule (K\<lparr>ck_stay := f\<rparr>) current cursor order = schedule K current cursor order"
proof (induction order arbitrary: current cursor)
  case (Cons i rest)
  then show ?case by (simp add: Let_def split: option.splits)
qed simp

lemma planned_facts:
  fixes E :: env and r :: request
  assumes "route_ok ps order legs" and "\<forall>i \<in> set order. 0 \<le> stay i"
  defines "K \<equiv> clock_of E r ps order legs (\<lambda>i. if i \<in> set order then stay i else 0)"
    and "vs \<equiv> planned E r ps order legs stay"
  shows "sorted_wrt (follows K) vs"
    and "\<forall>v \<in> set vs. minute_of_day (dr_time_start (rq_date r)) \<le> vs_start v \<and> vs_start v \<le> vs_end v
      \<and> vs_end v = vs_start v + stay (vs_id v) \<and> vs_day v = day_of ps (vs_id v)"
    and "map vs_id vs = order"
proof -
  note ord = route_ok_order [OF assms(1)]
  let ?K0 = "clock_of E r ps order legs stay"
  let ?f = "\<lambda>i. if i \<in> set order then stay i else 0"
  have "?K0\<lparr>ck_stay := ?f\<rparr> = K" "ck_stay ?K0 = stay" "ck_start ?K0 = ck_start K"
    by (simp_all add: K_def clock_of_def)
  then have same: "vs = schedule K None (ck_start K) order"
    using schedule_stay_cong [of order ?f ?K0 None "ck_start ?K0"]
    by (simp add: vs_def planned_def visits_def)
  have K: "ck_places K = ps" "ck_start K = minute_of_day (dr_time_start (rq_date r))" "ck_stay K = ?f"
    by (simp_all add: K_def clock_of_def)
  have "calm K"
    using assms(2) leg_minutes_nonneg by (simp add: calm_def K_def clock_of_def)
  moreover have "sorted (map (day_of (ck_places K)) order)" using assms(1) K(1) by (simp add: route_ok_def)
  ultimately have start: "(\<forall>v \<in> set vs. ck_start K \<le> vs_start v) \<and> sorted_wrt (follows K) vs"
    using schedule_start [of K order "ck_start K" None] ord(3) K(1) unfolding same by simp
  then show "sorted_wrt (follows K) vs" by blast
  have "vs_id v \<in> set order" "vs_end v = vs_start v + stay (vs_id v)" "vs_day v = day_of ps (vs_id v)"
    if "v \<in> set vs" for v
    using schedule_in [of v K None "ck_start K" order] schedule_end [of v K None "ck_start K" order]
      schedule_day [of v K None "ck_start K" order] that K unfolding same by simp_all
  with start K(2) assms(2) show "\<forall>v \<in> set vs. minute_of_day (dr_time_start (rq_date r)) \<le> vs_start v
      \<and> vs_start v \<le> vs_end v \<and> vs_end v = vs_start v + stay (vs_id v) \<and> vs_day v = day_of ps (vs_id v)"
    by fastforce
  show "map vs_id vs = order" using planned_ids [OF ord(3)] by (simp add: vs_def)
qed

lemma slot_of_visit:
  assumes "distinct (map vs_id vs)" and "v \<in> set vs"
  shows "map_of (with_sources source (map (time_texts stay) vs)) (vs_id v)
    = Some ((snd (time_texts stay v))\<lparr>sl_source := Some (source (vs_id v))\<rparr>)"
  by (rule map_of_is_SomeI)
     (use assms in \<open>auto simp: with_sources_def time_texts_def comp_def image_image\<close>)

lemma visited_dump:
  assumes "distinct (map pl_id qs)" and "set order \<subseteq> pl_id ` set qs"
  shows "visited (map (dump_place \<circ> merge_place s) qs) (PList (map PInt order))
    = map (\<lambda>i. dump_place (merge_place s (the (by_id qs i)))) order"
proof -
  let ?kvs = "map (\<lambda>d. (int_at d ''place_id'', d)) (map (dump_place \<circ> merge_place s) qs)"
  have kvs: "?kvs = map (\<lambda>q. (pl_id q, dump_place (merge_place s q))) qs"
    by (simp add: int_at_def dump_place_get)
  have found: "map_of (rev ?kvs) i = Some (dump_place (merge_place s (the (by_id qs i))))"
    if i: "i \<in> pl_id ` set qs" for i
  proof -
    from i obtain q where q: "q \<in> set qs" "pl_id q = i" by blast
    have "map_of (rev ?kvs) i = Some (dump_place (merge_place s q))"
      unfolding kvs by (rule map_of_is_SomeI) (use assms(1) q in \<open>auto simp: comp_def rev_map [symmetric]\<close>)
    with by_id_Some [OF assms(1) q(1)] q(2) show ?thesis by simp
  qed
  show ?thesis using assms(2)
    by (induction order) (simp_all add: visited_def List.map_filter_simps found del: map_map)
qed

lemma timeline_clean:
  assumes ok: "route_ok qs order legs"
    and tt: "st_timeline s = with_sources source (map (time_texts stay) (planned E r qs order legs stay))"
    and late: "over_days r (planned E r qs order legs stay) = {}"
    and stays: "\<forall>i \<in> set order. 0 \<le> stay i"
    and rd: "\<forall>n. 0 \<le> n \<and> n < 100 \<longrightarrow> rd (two_digits n) = Some n"
    and hours: "valid_time (dr_time_start (rq_date r))" "valid_time (dr_time_end (rq_date r))"
    and lo: "\<And>l. lo = Some l \<Longrightarrow> l \<le> minute_of_day (dr_time_start (rq_date r))"
    and hi: "\<And>h. hi = Some h \<Longrightarrow> minute_of_day (dr_time_end (rq_date r)) \<le> h"
  shows "scan_visits rd lo hi (map (\<lambda>l. PDict (dump_leg l)) legs) (\<lambda>_. None)
    (map (\<lambda>i. dump_place (merge_place s (the (by_id qs i)))) order) = []"
proof -
  define vs where "vs = planned E r qs order legs stay"
  note ord = route_ok_order [OF ok]
  have ids: "map vs_id vs = order" using planned_ids [OF ord(3)] by (simp add: vs_def)
  note facts = planned_facts [OF ok stays, of E r, folded vs_def]
  have latest: "vs_end v \<le> minute_of_day (dr_time_end (rq_date r))" if "v \<in> set vs" for v
    using late that by (force simp: over_days_def vs_def)
  note day = minute_of_day_bounds [OF hours(1)] minute_of_day_bounds [OF hours(2)]
  have shows_v: "shows_visit rd (dump_place (merge_place s (the (by_id qs (vs_id v))))) v" if v: "v \<in> set vs" for v
  proof -
    have "vs_id v \<in> set order" using v unfolding ids [symmetric] by simp
    with ord(3) obtain q where q: "by_id qs (vs_id v) = Some q" by auto
    note in_q = by_id_in [OF q]
    have "distinct (map vs_id vs)" using ord(1) ids by simp
    from slot_of_visit [OF this v, of source stay]
    have "map_of (st_timeline s) (pl_id q) = Some ((snd (time_texts stay v))\<lparr>sl_source := Some (source (vs_id v))\<rparr>)"
      using in_q by (simp add: tt vs_def)
    note slot = merge_place_times [OF this]
    have b: "minute_of_day (dr_time_start (rq_date r)) \<le> vs_start v" "vs_start v \<le> vs_end v"
      "vs_end v = vs_start v + stay (vs_id v)" "vs_day v = day_of qs (vs_id v)"
      using facts(2) v by blast+
    have "0 \<le> vs_start v" "vs_start v < 1440" "0 \<le> vs_end v" "vs_end v < 1440"
      using b(1,2) latest [OF v] day by linarith+
    then have t: "hhmm_minutes rd (PStr (minutes_to_hhmm (vs_start v))) = Some (vs_start v)"
      "hhmm_minutes rd (PStr (minutes_to_hhmm (vs_end v))) = Some (vs_end v)"
      by (auto intro: hhmm_minutes_text [OF rd])
    have "vs_day v = pl_day q" using b(4) q by (simp add: day_of_def)
    then show ?thesis
      using slot t b(2,3) in_q q
      by (simp add: shows_visit_def dump_place_get int_at_def opt_value_def time_texts_def)
  qed
  have "list_all2 (shows_visit rd) (map (\<lambda>i. dump_place (merge_place s (the (by_id qs i)))) order) vs"
    unfolding ids [symmetric] using shows_v by (simp add: list.rel_map list_all2_same)
  then show ?thesis
  proof (rule scan_visits_clean [OF _ facts(1)])
    show "\<forall>a b. \<exists>n. travel_value (map (\<lambda>l. PDict (dump_leg l)) legs) a b = PInt n \<and> 0 \<le> n
        \<and> n \<le> ck_travel (clock_of E r qs order legs (\<lambda>i. if i \<in> set order then stay i else 0)) a"
      using travel_value_dump [OF _ ord(1)] ok by (simp add: clock_of_def route_ok_def)
    show "\<forall>v \<in> set vs. (\<forall>l. lo = Some l \<longrightarrow> l \<le> vs_start v) \<and> (\<forall>h. hi = Some h \<longrightarrow> vs_end v \<le> h)"
      using facts(2) latest lo hi by fastforce
  qed (simp_all add: clock_of_def)
qed

lemma route_stays:
  assumes ok: "route_ok qs order legs"
    and tt: "st_timeline s = with_sources source (map (time_texts stay) (planned E r qs order legs stay))"
    and "i \<in> set order"
  shows "\<exists>q \<in> set qs. pl_stay_minutes (merge_place s q) = Some (stay i)
    \<and> pl_visit_start (merge_place s q) \<noteq> None \<and> by_id qs i = Some q"
proof -
  note ord = route_ok_order [OF ok]
  have ids: "map vs_id (planned E r qs order legs stay) = order" by (rule planned_ids [OF ord(3)])
  from assms(3) have "i \<in> set (map vs_id (planned E r qs order legs stay))" unfolding ids .
  then obtain v where v: "v \<in> set (planned E r qs order legs stay)" "vs_id v = i" by auto
  from ord(3) assms(3) obtain q where q: "by_id qs i = Some q" by auto
  have "distinct (map vs_id (planned E r qs order legs stay))" using ord(1) ids by simp
  from slot_of_visit [OF this v(1), of source stay] v(2) by_id_in [OF q]
  have "map_of (st_timeline s) (pl_id q) = Some ((snd (time_texts stay v))\<lparr>sl_source := Some (source i)\<rparr>)"
    by (simp add: tt)
  from merge_place_times [OF this] v(2) by_id_in [OF q] q show ?thesis by (auto simp: time_texts_def)
qed

lemma score_timeline_clean:
  assumes ok: "route_ok qs order legs" and "qs \<noteq> []"
    and p: "jp_visit_order p = Some order" "jp_legs p = Some legs"
    and tt: "st_timeline s = with_sources source (map (time_texts stay) (planned E r qs order legs stay))"
    and clean: "scan_visits rd (hhmm_minutes rd t0) (hhmm_minutes rd t1) (map (\<lambda>l. PDict (dump_leg l)) legs) (\<lambda>_. None)
      (map (\<lambda>i. dump_place (merge_place s (the (by_id qs i)))) order) = []"
  shows "score_timeline rd (map (dump_place \<circ> merge_place s) qs) (dump_payload p) t0 t1 req
    = Inr \<lparr>ts_applicable = True, ts_ok = True, ts_problems = []\<rparr>"
proof -
  note ord = route_ok_order [OF ok]
  have distinct: "distinct (map pl_id qs)" using ok by (simp add: route_ok_def)
  have ids: "map vs_id (planned E r qs order legs stay) = order" by (rule planned_ids [OF ord(3)])
  from assms(2) ord(2) obtain i rest where order: "order = i # rest" by (cases order) auto
  with ids obtain v where v: "v \<in> set (planned E r qs order legs stay)" "vs_id v = i"
    by (metis list.set_intros(1) list.set_map image_iff)
  from ord(3) order obtain q where q: "by_id qs i = Some q" by auto
  have "distinct (map vs_id (planned E r qs order legs stay))" using ord(1) ids by simp
  from slot_of_visit [OF this v(1), of source stay] v(2) by_id_in [OF q]
  have "map_of (st_timeline s) (pl_id q) = Some ((snd (time_texts stay v))\<lparr>sl_source := Some (source i)\<rparr>)"
    by (simp add: tt)
  note slot = merge_place_times [OF this]
  have "truthy (dget (dump_place (merge_place s (the (by_id qs i)))) ''visit_start'')"
    using slot q by (simp add: dump_place_get opt_value_def time_texts_def minutes_to_hhmm_def Let_def)
  moreover have "visited (map (dump_place \<circ> merge_place s) qs) (PList (map PInt order))
      = map (\<lambda>i. dump_place (merge_place s (the (by_id qs i)))) order"
    by (rule visited_dump [OF distinct]) (simp add: ord(2))
  moreover have "iter_or_empty (PList xs) = Inr xs" for xs by (cases xs) (simp_all add: iter_or_empty_def)
  ultimately show ?thesis
    using p clean order
    by (simp add: score_timeline_def dump_payload_get opt_value_def Let_def del: map_map)
qed

lemma score_route_dump:
  assumes ok: "route_ok qs order legs" and p: "jp_visit_order p = Some order" "jp_legs p = Some legs"
  shows "rt_ok (score_route (map (dump_place \<circ> merge_place s) qs) (dump_payload p))"
proof -
  have ids: "map (\<lambda>d. int_at d ''place_id'') (map (dump_place \<circ> merge_place s) qs) = map pl_id qs"
    by (simp add: int_at_def dump_place_get)
  have d: "distinct (map (\<lambda>d. int_at d ''place_id'') (map (dump_place \<circ> merge_place s) qs))"
    unfolding ids using ok by (simp add: route_ok_def)
  have "or_empty (PList xs) = PList xs" for xs by (cases xs) (simp_all add: or_empty_def)
  moreover have "leg_joins (PDict (dump_leg l)) a b \<longleftrightarrow> a = lg_from l \<and> b = lg_to l" for l a b
    by (auto simp: leg_joins_def dump_leg_def dget_def)
  ultimately have "leg_problems (dget (dump_payload p) ''legs'') order = []"
    using ok p(2) by (simp add: leg_problems_Nil dump_payload_get opt_value_def route_ok_def legs_match_def)
  moreover have "mset order = mset (map pl_id qs)" using ok by (simp add: route_ok_def)
  ultimately show ?thesis
    unfolding score_route_ok_iff [OF d] ids
    by (intro exI [of _ order]) (simp add: dump_payload_get opt_value_def p(1))
qed

section \<open>Properties\<close>

text \<open>
  C3: The evaluation agrees with the pipeline: the payload of any job that reports success with a time
  axis, written out as JSON and read back by the scorer, passes the gate on every axis it is judged by,
  whatever the services answered. It needs names that are not blank, stays that are not negative, a
  \<open>int\<close> that reads two digits, and a case that allows the hours the request gives, bounds no radius and
  compares no fixed order.
\<close>

theorem delivered_job_passes_gate:
  assumes "valid_request r" and "run_pipeline P E job r = Published s p m" and "jp_status p = Done"
    and "jp_timeline_status p = Some TimelineOk \<or> jp_timeline_status p = Some Trimmed"
    and "jp_places p = Some ps"
    and "\<And>q. q \<in> set ps \<Longrightarrow> strip (pl_name q) \<noteq> [] \<and> (\<forall>n. pl_stay_minutes q = Some n \<longrightarrow> 0 \<le> n)"
    and "\<And>n. 0 \<le> n \<Longrightarrow> n < 100 \<Longrightarrow> rd (two_digits n) = Some n"
    and "\<And>l. hhmm_minutes rd (ec_start C) = Some l \<Longrightarrow> l \<le> minute_of_day (dr_time_start (rq_date r))"
    and "\<And>h. hhmm_minutes rd (ec_end C) = Some h \<Longrightarrow> minute_of_day (dr_time_end (rq_date r)) \<le> h"
    and "ec_radius C = None" and "ec_selected C = []"
  shows "\<exists>sc. score_case rd C (PDict (dump_payload p)) None = Inr sc \<and> \<not> case_fails sc"
proof -
  note del = done_job_delivered [OF assms(1-3)]
  from del obtain qs order legs where q: "st_places s = Some (map (merge_place s) qs)" "st_order s = Some order"
      "st_legs s = Some legs" "trip_ok r qs" "route_ok qs order legs" "timetable E r qs order legs s {}"
    by (auto simp: delivered_def)
  have p: "jp_places p = Some (map (merge_place s) qs)" "jp_visit_order p = Some order" "jp_legs p = Some legs"
    "jp_timeline_status p = st_tl_status s"
    using del q by (auto simp: done_payload_def bindE_Inr_iff need_def)
  have ps: "ps = map (merge_place s) qs" using p(1) assms(5) by simp
  from assms(4) q(6) p(4) obtain stay source where
    tt: "st_timeline s = with_sources source (map (time_texts stay) (planned E r qs order legs stay))"
      "over_days r (planned E r qs order legs stay) = {}"
    by (auto simp: timetable_def Let_def)
  have trip: "qs \<noteq> []" "distinct (map pl_id qs)" "\<forall>q \<in> set qs. 0 \<le> pl_id q \<and> sourced q"
    using q(4) by (auto simp: trip_ok_def list_all_iff)
  have "shown_ok x \<and> cited x" if "x \<in> set ps" for x
  proof -
    from that ps obtain y where "y \<in> set qs" "x = merge_place s y" by auto
    with trip(3) assms(6) [OF that] show ?thesis
      by (auto simp: shown_ok_def cited_def sourced_def valid_place_def merge_place_kept)
  qed
  moreover have "ps \<noteq> []" "distinct (map pl_id ps)" using trip(1,2) by (simp_all add: ps comp_def)
  ultimately have judged: "score_schema (PDict (dump_payload p)) = Inr (map dump_place ps)"
      "score_grounded (PDict (dump_payload p)) None = Inr True"
    using score_schema_dump [OF assms(3,5)] score_grounded_dump [OF assms(5)] by blast+
  have "\<forall>i \<in> set order. 0 \<le> stay i"
  proof
    fix i assume "i \<in> set order"
    from route_stays [OF q(5) tt(1) this] obtain y where
      "y \<in> set qs" "pl_stay_minutes (merge_place s y) = Some (stay i)" by blast
    with assms(6) [of "merge_place s y"] ps show "0 \<le> stay i" by auto
  qed
  from timeline_clean [OF q(5) tt this] assms(1,7,8,9)
  have "scan_visits rd (hhmm_minutes rd (ec_start C)) (hhmm_minutes rd (ec_end C))
      (map (\<lambda>l. PDict (dump_leg l)) legs) (\<lambda>_. None)
      (map (\<lambda>i. dump_place (merge_place s (the (by_id qs i)))) order) = []"
    by (simp add: valid_request_def valid_date_range_def)
  from score_timeline_clean [OF q(5) trip(1) p(2,3) tt(1) this] score_route_dump [OF q(5) p(2,3), of s]
  show ?thesis using judged assms(10,11)
    by (simp add: score_case_def check_order_def score_rules_def case_fails_def schema_ok_def ps)
qed

definition gate_case :: eval_case where
  "gate_case =
     \<lparr>ec_id = PStr (lit ''two places''), ec_radius = None, ec_start = PStr (lit ''09:00''),
      ec_end = PStr (lit ''18:00''), ec_stage = PStr (lit ''route''), ec_optimize = False, ec_selected = []\<rparr>"

theorem delivered_job_passes_gate_witness:
  "\<exists>s p m sc. run_pipeline plain_publisher dwell_env [7] route_request = Published s p m
     \<and> score_case (\<lambda>t. Some (int (digits_value t))) gate_case (PDict (dump_payload p)) None = Inr sc
     \<and> \<not> case_fails sc"
proof -
  let ?rd = "\<lambda>t. Some (int (digits_value t))"
  obtain s p m t where run: "run_pipeline plain_publisher dwell_env [7] route_request = Published s p m"
    and p: "jp_status p = Done" "st_tl_status s = Some TimelineOk" "\<forall>sl \<in> snd ` set (st_timeline s). sl_stay sl = 0"
      "st_timeline t = st_timeline s" "jp_places p = Some (map (merge_place t) two_kakao)"
    using route_job by blast
  from done_job_delivered [OF route_request_ok(1) run p(1)] have q: "jp_timeline_status p = Some TimelineOk"
    using p(2) by (auto simp: done_payload_def bindE_Inr_iff need_def)
  have named: "pl_name x = lit ''A'' \<or> pl_name x = lit ''B''" if "x \<in> set (map (merge_place t) two_kakao)" for x
    using that by (auto simp: merge_place_kept kakao_at_def)
  have stays: "n = 0" if "x \<in> set (map (merge_place t) two_kakao)" "pl_stay_minutes x = Some n" for x n
  proof -
    from that(1) obtain y where y: "y \<in> set two_kakao" "x = merge_place t y" by auto
    from y(1) have none: "pl_stay_minutes y = None" by (auto simp: kakao_at_def)
    from that(2) y(2) have "pl_stay_minutes (merge_place t y) = Some n" by simp
    from merge_place_stay [OF this] none p(4) obtain sl where "sl \<in> snd ` set (st_timeline s)" "n = sl_stay sl"
      by (metis option.distinct(1))
    with p(3) show ?thesis by blast
  qed
  have hours: "hhmm_minutes ?rd (ec_start gate_case) = Some 540" "hhmm_minutes ?rd (ec_end gate_case) = Some 1080"
    by (simp_all add: hhmm_minutes_def gate_case_def digits_value_def lit_def)
  have day: "minute_of_day (dr_time_start (rq_date route_request)) = 540"
    "minute_of_day (dr_time_end (rq_date route_request)) = 1080"
    by (simp_all add: route_request_def mode1_request_def march_request_def minute_of_day_def)
  have "\<exists>sc. score_case ?rd gate_case (PDict (dump_payload p)) None = Inr sc \<and> \<not> case_fails sc"
  proof (rule delivered_job_passes_gate [OF route_request_ok(1) run p(1) disjI1 [OF q] p(5)])
    fix x assume x: "x \<in> set (map (merge_place t) two_kakao)"
    have "strip (pl_name x) \<noteq> []" using named [OF x] by (auto simp: strip_def lit_def is_space_def)
    with stays [OF x] show "strip (pl_name x) \<noteq> [] \<and> (\<forall>n. pl_stay_minutes x = Some n \<longrightarrow> 0 \<le> n)" by auto
  next
    show "?rd (two_digits n) = Some n" if "0 \<le> n" "n < 100" for n
      using two_digits_read [OF that] by simp
  next
    show "ec_radius gate_case = None" "ec_selected gate_case = []" by (simp_all add: gate_case_def)
  qed (simp_all add: hours day)
  with run show ?thesis by blast
qed

text \<open>
  What the route axis accepts, on a payload the schema axis has accepted: exactly a visiting order
  of integers that is a permutation of the ids of the places, with one leg between each two neighbours
  of the order and joining them.
\<close>

theorem route_axis_exact:
  assumes "score_schema (PDict d) = Inr places"
  shows "rt_ok (score_route places d) \<longleftrightarrow>
     (\<exists>order ls. dget d ''visit_order'' = PList (map PInt order)
        \<and> mset order = mset (map (\<lambda>p. int_at p ''place_id'') places)
        \<and> or_empty (dget d ''legs'') = PList ls \<and> length ls = length order - 1
        \<and> (\<forall>i < length ls. leg_joins (ls ! i) (order ! i) (order ! Suc i)))"
proof -
  have "distinct (map (\<lambda>p. int_at p ''place_id'') places)"
    using assms by (auto simp: score_schema_def bindE_Inr_iff split: if_splits pyval.splits list.splits)
  from score_route_ok_iff [OF this] show ?thesis by (auto simp: leg_problems_Nil)
qed

definition bare_entry :: "int \<Rightarrow> pydict" where
  "bare_entry n =
     [(lit ''place_id'', PInt n), (lit ''day'', PInt 1), (lit ''name'', PStr (lit ''A'')),
      (lit ''lat'', PFloat (Fin 37)), (lit ''lng'', PFloat (Fin 127))]"

definition two_entries :: pydict where
  "two_entries =
     [(lit ''status'', PStr (lit ''done'')), (lit ''places'', PList [PDict (bare_entry 0), PDict (bare_entry 1)]),
      (lit ''visit_order'', PList [PInt 1, PInt 0]),
      (lit ''legs'', PList [PDict [(lit ''from'', PInt 1), (lit ''to'', PInt 0)]])]"

lemma bare_entry_ok:
  assumes "0 \<le> n"
  shows "check_place (PDict (bare_entry n)) = Inr (bare_entry n)" and "int_at (bare_entry n) ''place_id'' = n"
proof -
  have "strip (lit ''A'') \<noteq> []" by (simp add: strip_def lit_def is_space_def)
  then show "check_place (PDict (bare_entry n)) = Inr (bare_entry n)" using assms
    by (simp add: check_place_def bare_entry_def dget_def at_least_def nonblank_def number_within_def finite_number_def)
  show "int_at (bare_entry n) ''place_id'' = n" by (simp add: bare_entry_def int_at_def dget_def)
qed

theorem route_axis_exact_witness:
  "\<exists>places. score_schema (PDict two_entries) = Inr places \<and> length places = 2
     \<and> rt_ok (score_route places two_entries)"
proof -
  obtain places where s: "score_schema (PDict two_entries) = Inr places" "length places = 2"
      "map (\<lambda>p. int_at p ''place_id'') places = [0, 1]"
    by (simp add: score_schema_def two_entries_def dget_def bare_entry_ok)
  have "\<exists>order ls. dget two_entries ''visit_order'' = PList (map PInt order)
      \<and> mset order = mset [0, 1] \<and> or_empty (dget two_entries ''legs'') = PList ls \<and> length ls = length order - 1
      \<and> (\<forall>i < length ls. leg_joins (ls ! i) (order ! i) (order ! Suc i))"
    by (intro exI [of _ "[1, 0]"] exI [of _ "[PDict [(lit ''from'', PInt 1), (lit ''to'', PInt 0)]]"])
       (simp add: two_entries_def dget_def or_empty_def leg_joins_def Let_def)
  with route_axis_exact [OF s(1)] s show ?thesis by auto
qed

end
