(* ===== verification/SegmentStats.thy ===== *)
theory SegmentStats
  imports Ranking
begin

text \<open>
  eval/segment_stats.py: the statistics of which places the users of a segment were shown and which
  they saved, counted from the recorded sessions. A session is a decoded line of the input. The
  tables of the loop are association lists in the order of the first insertion, with the hash of a
  place's id as the key and the id as it was first seen in the cell. The last section joins the file
  to its reader in the agent.
\<close>

section \<open>Counting\<close>

definition stats_schema_version :: int where "stats_schema_version = 1"
definition default_min_support :: int where "default_min_support = 3"

text \<open>\<open>(user or {}).get(k) or "unknown"\<close> within an f-string.\<close>

definition known_or_unknown :: "env \<Rightarrow> pydict \<Rightarrow> string \<Rightarrow> pystr" where
  "known_or_unknown E user k = (if truthy (dget user k) then py_str E (dget user k) else lit ''unknown'')"

definition segment_key :: "env \<Rightarrow> pyval \<Rightarrow> pyexn + pystr" where
  "segment_key E v =
     (case (if truthy v then v else PDict []) of
        PDict user \<Rightarrow> Inr (known_or_unknown E user ''age_band'' @ lit ''|'' @ known_or_unknown E user ''gender'')
      | _ \<Rightarrow> Inl AttributeError)"

record cell =
  ce_cid :: pyval
  ce_shown :: nat
  ce_saved :: nat

record tally =
  ty_cells :: "(pystr \<times> (pyval \<times> cell) list) list"
  ty_sessions :: "(pystr \<times> nat) list"
  ty_used :: nat

definition no_tally :: tally where
  "no_tally = \<lparr>ty_cells = [], ty_sessions = [], ty_used = 0\<rparr>"

definition or_default :: "'a \<Rightarrow> 'a option \<Rightarrow> 'a" where
  "or_default d v = (case v of None \<Rightarrow> d | Some x \<Rightarrow> x)"

definition bump_cell :: "pyval \<Rightarrow> bool \<Rightarrow> cell option \<Rightarrow> cell" where
  "bump_cell cid saved v =
     (let c = or_default \<lparr>ce_cid = cid, ce_shown = 0, ce_saved = 0\<rparr> v
      in c\<lparr>ce_shown := ce_shown c + 1, ce_saved := ce_saved c + (if saved then 1 else 0)\<rparr>)"

definition count_candidate :: "pystr \<Rightarrow> pyval \<Rightarrow> tally \<Rightarrow> pyexn + tally" where
  "count_candidate key v t =
     (case v of
        PDict c \<Rightarrow>
          (let cid = dget c ''content_id''
           in if \<not> truthy cid then Inr t
              else bindE (hash_key cid) (\<lambda>k.
                (let cells = or_default [] (map_of (ty_cells t) key);
                     cell = bump_cell cid (truthy (dget c ''saved'')) (map_of cells k)
                 in Inr (t\<lparr>ty_cells := AList.update key (AList.update k cell cells) (ty_cells t)\<rparr>))))
      | _ \<Rightarrow> Inl AttributeError)"

fun count_candidates :: "pystr \<Rightarrow> pyval list \<Rightarrow> tally \<Rightarrow> pyexn + tally" where
  "count_candidates key [] t = Inr t"
| "count_candidates key (v # vs) t = bindE (count_candidate key v t) (count_candidates key vs)"

definition count_row :: "env \<Rightarrow> pyval \<Rightarrow> tally \<Rightarrow> pyexn + tally" where
  "count_row E row t =
     (case row of
        PDict d \<Rightarrow>
          if \<not> truthy (dget d ''l1_eligible'') then Inr t
          else bindE (segment_key E (dget d ''user_segment'')) (\<lambda>key.
               bindE (iter_or_empty (dget d ''candidates'')) (\<lambda>cs.
                 count_candidates key cs
                   (t\<lparr>ty_sessions := AList.update key (or_default 0 (map_of (ty_sessions t) key) + 1) (ty_sessions t),
                      ty_used := ty_used t + 1\<rparr>)))
      | _ \<Rightarrow> Inl AttributeError)"

fun count_rows :: "env \<Rightarrow> pyval list \<Rightarrow> tally \<Rightarrow> pyexn + tally" where
  "count_rows E [] t = Inr t"
| "count_rows E (r # rs) t = bindE (count_row E r t) (count_rows E rs)"

section \<open>The statistics\<close>

record segment_entry =
  se_sessions :: nat
  se_places :: "cell list"

record stats =
  sg_min_support :: int
  sg_used :: nat
  sg_segments :: "(pystr \<times> segment_entry) list"
  sg_dropped :: nat

definition supported :: "int \<Rightarrow> cell \<Rightarrow> bool" where
  "supported m c \<longleftrightarrow> m \<le> int (ce_shown c)"

definition segment_of :: "int \<Rightarrow> tally \<Rightarrow> pystr \<times> (pyval \<times> cell) list \<Rightarrow> (pystr \<times> segment_entry) option" where
  "segment_of m t kc =
     (let places = filter (supported m) (map snd (snd kc))
      in if places = [] then None
         else Some (fst kc, \<lparr>se_sessions = or_default 0 (map_of (ty_sessions t) (fst kc)), se_places = places\<rparr>))"

definition stats_of :: "int \<Rightarrow> tally \<Rightarrow> stats" where
  "stats_of m t =
     \<lparr>sg_min_support = m, sg_used = ty_used t, sg_segments = List.map_filter (segment_of m t) (ty_cells t),
      sg_dropped = sum_list (map (\<lambda>kc. length (filter (\<lambda>c. \<not> supported m c) (map snd (snd kc)))) (ty_cells t))\<rparr>"

definition build_stats :: "env \<Rightarrow> pyval list \<Rightarrow> int \<Rightarrow> pyexn + stats" where
  "build_stats E rows m = bindE (count_rows E rows no_tally) (\<lambda>t. Inr (stats_of m t))"

section \<open>The file\<close>

text \<open>The text \<open>json.dumps\<close> makes of a key.\<close>

definition json_key :: "env \<Rightarrow> pyval \<Rightarrow> pystr" where
  "json_key E v =
     (case v of PStr s \<Rightarrow> s | PInt n \<Rightarrow> int_text n | PBool b \<Rightarrow> lit (if b then ''true'' else ''false'')
      | PNone \<Rightarrow> lit ''null'' | _ \<Rightarrow> en_repr E v)"

definition save_rate :: "cell \<Rightarrow> real" where
  "save_rate c = round_digits 4 (real (ce_saved c) / real (ce_shown c))"

definition cell_json :: "cell \<Rightarrow> pyval" where
  "cell_json c =
     PDict [(lit ''shown'', PInt (int (ce_shown c))), (lit ''saved'', PInt (int (ce_saved c))),
            (lit ''rate'', PFloat (Fin (save_rate c)))]"

definition segment_json :: "env \<Rightarrow> segment_entry \<Rightarrow> pyval" where
  "segment_json E e =
     PDict [(lit ''sessions'', PInt (int (se_sessions e))),
            (lit ''places'', PDict (map (\<lambda>c. (json_key E (ce_cid c), cell_json c)) (se_places e)))]"

definition stats_json :: "env \<Rightarrow> stats \<Rightarrow> pyval" where
  "stats_json E st =
     PDict [(lit ''schema_version'', PInt stats_schema_version), (lit ''min_support'', PInt (sg_min_support st)),
            (lit ''sessions_used'', PInt (int (sg_used st))),
            (lit ''segments'', PDict (map (\<lambda>ke. (fst ke, segment_json E (snd ke))) (sg_segments st))),
            (lit ''dropped_below_support'', PInt (int (sg_dropped st)))]"

section \<open>What was counted\<close>

text \<open>The candidates with an id in the usable sessions of a segment.\<close>

definition row_sightings :: "env \<Rightarrow> pystr \<Rightarrow> pyval \<Rightarrow> pydict list" where
  "row_sightings E key row =
     (case row of
        PDict d \<Rightarrow>
          if truthy (dget d ''l1_eligible'') \<and> segment_key E (dget d ''user_segment'') = Inr key
          then (case iter_or_empty (dget d ''candidates'') of Inl _ \<Rightarrow> [] | Inr vs \<Rightarrow> dicts_of vs)
          else []
      | _ \<Rightarrow> [])"

definition sightings :: "env \<Rightarrow> pystr \<Rightarrow> pyval list \<Rightarrow> pydict list" where
  "sightings E key rows = concat (map (row_sightings E key) rows)"

definition times_shown :: "pystr \<Rightarrow> pydict list \<Rightarrow> nat" where
  "times_shown i cs = length (filter (\<lambda>c. dget c ''content_id'' = PStr i) cs)"

definition times_saved :: "pystr \<Rightarrow> pydict list \<Rightarrow> nat" where
  "times_saved i cs = length (filter (\<lambda>c. dget c ''content_id'' = PStr i \<and> truthy (dget c ''saved'')) cs)"

lemma saved_le_shown: "times_saved i cs \<le> times_shown i cs"
  by (induction cs) (simp_all add: times_saved_def times_shown_def)

definition cell_at :: "tally \<Rightarrow> pystr \<Rightarrow> pyval \<Rightarrow> cell option" where
  "cell_at t key k = Option.bind (map_of (ty_cells t) key) (\<lambda>cells. map_of cells k)"

text \<open>The tables agree with the sightings.\<close>

definition tallied :: "tally \<Rightarrow> (pystr \<Rightarrow> pydict list) \<Rightarrow> bool" where
  "tallied t seen \<longleftrightarrow> (\<forall>key i. i \<noteq> [] \<longrightarrow> cell_at t key (PStr i) =
     (if times_shown i (seen key) = 0 then None
      else Some \<lparr>ce_cid = PStr i, ce_shown = times_shown i (seen key), ce_saved = times_saved i (seen key)\<rparr>))"

lemma hash_key_text: "hash_key v = Inr (PStr i) \<longleftrightarrow> v = PStr i"
  by (cases v rule: hash_key.cases) (auto split: if_splits)

lemma tallied_candidate:
  assumes "tallied t seen" and "count_candidate key (PDict c) t = Inr t'"
  shows "tallied t' (seen(key := seen key @ [c]))"
proof (cases "truthy (dget c ''content_id'')")
  case False
  then have "dget c ''content_id'' \<noteq> PStr i" if "i \<noteq> []" for i using that by auto
  then show ?thesis using assms False
    by (simp add: count_candidate_def Let_def tallied_def times_shown_def times_saved_def)
next
  case True
  with assms(2) obtain k where k: "hash_key (dget c ''content_id'') = Inr k"
    and t': "t' = t\<lparr>ty_cells := AList.update key (AList.update k
      (bump_cell (dget c ''content_id'') (truthy (dget c ''saved'')) (map_of (or_default [] (map_of (ty_cells t) key)) k))
      (or_default [] (map_of (ty_cells t) key))) (ty_cells t)\<rparr>"
    by (auto simp: count_candidate_def Let_def bindE_Inr_iff)
  have cells: "cell_at t' key' j = (if key' = key \<and> j = k
      then Some (bump_cell (dget c ''content_id'') (truthy (dget c ''saved'')) (cell_at t key k))
      else cell_at t key' j)" for key' j
    by (auto simp: cell_at_def t' update_conv' or_default_def split: option.splits)
  show ?thesis unfolding tallied_def
  proof (intro allI impI)
    fix key' and i :: pystr assume i: "i \<noteq> []"
    have old: "cell_at t key' (PStr i) = (if times_shown i (seen key') = 0 then None
      else Some \<lparr>ce_cid = PStr i, ce_shown = times_shown i (seen key'), ce_saved = times_saved i (seen key')\<rparr>)"
      using assms(1) i by (simp add: tallied_def)
    have zero: "times_shown i cs = 0 \<Longrightarrow> times_saved i cs = 0" for cs
      by (auto simp: times_shown_def times_saved_def filter_empty_conv)
    show "cell_at t' key' (PStr i) = (if times_shown i ((seen(key := seen key @ [c])) key') = 0 then None
      else Some \<lparr>ce_cid = PStr i, ce_shown = times_shown i ((seen(key := seen key @ [c])) key'),
                 ce_saved = times_saved i ((seen(key := seen key @ [c])) key')\<rparr>)"
    proof (cases "key' = key \<and> dget c ''content_id'' = PStr i")
      case True
      with k have "k = PStr i" by simp
      with True old zero show ?thesis
        by (auto simp: cells bump_cell_def or_default_def times_shown_def times_saved_def Let_def)
    next
      case False
      then have "\<not> (key' = key \<and> PStr i = k)" using k hash_key_text by auto
      with False old show ?thesis by (auto simp: cells times_shown_def times_saved_def)
    qed
  qed
qed

lemma tallied_candidates:
  "tallied t seen \<Longrightarrow> count_candidates key vs t = Inr t' \<Longrightarrow> tallied t' (seen(key := seen key @ dicts_of vs))"
proof (induction vs arbitrary: t seen)
  case (Cons v vs)
  from Cons.prems(2) obtain t1 where t1: "count_candidate key v t = Inr t1" "count_candidates key vs t1 = Inr t'"
    by (auto simp: bindE_Inr_iff)
  then obtain c where c: "v = PDict c" by (cases v) (auto simp: count_candidate_def)
  have "tallied t1 (seen(key := seen key @ [c]))" using tallied_candidate [OF Cons.prems(1)] t1(1) c by simp
  from Cons.IH [OF this t1(2)] show ?case using c by (simp add: fun_upd_def if_distrib cong: if_cong)
qed (simp add: fun_upd_idem)

lemma tallied_row:
  assumes "tallied t seen" and "count_row E row t = Inr t'"
  shows "tallied t' (\<lambda>k. seen k @ row_sightings E k row)"
proof -
  from assms(2) obtain d where d: "row = PDict d" by (cases row) (auto simp: count_row_def)
  show ?thesis
  proof (cases "truthy (dget d ''l1_eligible'')")
    case True
    with assms(2) d obtain key cs where k: "segment_key E (dget d ''user_segment'') = Inr key"
        "iter_or_empty (dget d ''candidates'') = Inr cs"
        "count_candidates key cs (t\<lparr>ty_sessions := AList.update key (or_default 0 (map_of (ty_sessions t) key) + 1)
          (ty_sessions t), ty_used := ty_used t + 1\<rparr>) = Inr t'"
      by (auto simp: count_row_def bindE_Inr_iff)
    have "tallied t' (seen(key := seen key @ dicts_of cs))"
      by (rule tallied_candidates [OF _ k(3)]) (use assms(1) in \<open>simp add: tallied_def cell_at_def\<close>)
    moreover have "(\<lambda>k. seen k @ row_sightings E k row) = seen(key := seen key @ dicts_of cs)"
      using True k(1,2) by (auto simp: row_sightings_def d fun_eq_iff)
    ultimately show ?thesis by simp
  next
    case False
    then show ?thesis using assms by (simp add: count_row_def row_sightings_def d)
  qed
qed

lemma tallied_rows:
  "tallied t seen \<Longrightarrow> count_rows E rows t = Inr t' \<Longrightarrow> tallied t' (\<lambda>k. seen k @ sightings E k rows)"
proof (induction rows arbitrary: t seen)
  case (Cons r rs)
  then obtain t1 where t1: "count_row E r t = Inr t1" "count_rows E rs t1 = Inr t'" by (auto simp: bindE_Inr_iff)
  from Cons.IH [OF tallied_row [OF Cons.prems(1) t1(1)] t1(2)]
  show ?case by (simp add: sightings_def)
qed (simp add: sightings_def)

text \<open>The tables are dictionaries, and with ids that are texts a cell lies under its id.\<close>

definition text_id :: "pydict \<Rightarrow> bool" where
  "text_id c \<longleftrightarrow> (truthy (dget c ''content_id'') \<longrightarrow> (\<exists>j. dget c ''content_id'' = PStr j))"

definition neat_cells :: "(pyval \<times> cell) list \<Rightarrow> bool" where
  "neat_cells cells \<longleftrightarrow> distinct (map fst cells)
     \<and> (\<forall>k c. (k, c) \<in> set cells \<longrightarrow> (\<exists>j. k = PStr j \<and> ce_cid c = PStr j))"

definition neat :: "tally \<Rightarrow> bool" where
  "neat t \<longleftrightarrow> distinct (map fst (ty_cells t)) \<and> (\<forall>key cells. (key, cells) \<in> set (ty_cells t) \<longrightarrow> neat_cells cells)"

lemma neat_cells_update:
  assumes "neat_cells cells"
  shows "neat_cells (AList.update (PStr j) (bump_cell (PStr j) b (map_of cells (PStr j))) cells)"
proof -
  have "ce_cid (bump_cell (PStr j) b (map_of cells (PStr j))) = PStr j"
    using assms by (fastforce simp: bump_cell_def or_default_def neat_cells_def Let_def dest: map_of_SomeD split: option.splits)
  then show ?thesis
    using assms set_AList_update [of "PStr j" "bump_cell (PStr j) b (map_of cells (PStr j))" cells]
    unfolding neat_cells_def by (fastforce simp: distinct_update)
qed

lemma neat_candidate:
  assumes "neat t" and "count_candidate key (PDict c) t = Inr t'" and "text_id c"
  shows "neat t'"
proof (cases "truthy (dget c ''content_id'')")
  case False
  with assms show ?thesis by (simp add: count_candidate_def Let_def)
next
  case True
  with assms(3) obtain j where j: "dget c ''content_id'' = PStr j" by (auto simp: text_id_def)
  define cells where "cells = or_default [] (map_of (ty_cells t) key)"
  define cells' where "cells' = AList.update (PStr j)
    (bump_cell (PStr j) (truthy (dget c ''saved'')) (map_of cells (PStr j))) cells"
  have t': "t' = t\<lparr>ty_cells := AList.update key cells' (ty_cells t)\<rparr>"
    using True assms(2) j by (auto simp: count_candidate_def Let_def cells'_def cells_def)
  have "neat_cells cells"
    using assms(1) by (auto simp: cells_def or_default_def neat_def neat_cells_def dest: map_of_SomeD split: option.splits)
  then have new: "neat_cells cells'" unfolding cells'_def by (rule neat_cells_update)
  have "cs = cells' \<or> (key', cs) \<in> set (ty_cells t)" if "(key', cs) \<in> set (ty_cells t')" for key' cs
    using that set_AList_update [of key cells' "ty_cells t"] by (auto simp: t')
  moreover have "distinct (map fst (ty_cells t'))" using assms(1) by (simp add: t' neat_def distinct_update)
  ultimately show ?thesis using assms(1) new unfolding neat_def by blast
qed

lemma neat_candidates:
  "neat t \<Longrightarrow> count_candidates key vs t = Inr t' \<Longrightarrow> \<forall>c \<in> set (dicts_of vs). text_id c \<Longrightarrow> neat t'"
proof (induction vs arbitrary: t)
  case (Cons v vs)
  from Cons.prems(2) obtain t1 where t1: "count_candidate key v t = Inr t1" "count_candidates key vs t1 = Inr t'"
    by (auto simp: bindE_Inr_iff)
  then obtain c where c: "v = PDict c" by (cases v) (auto simp: count_candidate_def)
  with Cons.prems t1 neat_candidate [of t key c t1] have "neat t1" by simp
  with Cons.IH [of t1] Cons.prems(3) t1(2) c show ?case by simp
qed simp

lemma neat_rows:
  "neat t \<Longrightarrow> count_rows E rows t = Inr t' \<Longrightarrow> \<forall>key. \<forall>c \<in> set (sightings E key rows). text_id c \<Longrightarrow> neat t'"
proof (induction rows arbitrary: t)
  case (Cons r rs)
  then obtain t1 where t1: "count_row E r t = Inr t1" "count_rows E rs t1 = Inr t'" by (auto simp: bindE_Inr_iff)
  from Cons.prems(3) have ids: "\<forall>c \<in> set (row_sightings E key r). text_id c" "\<forall>c \<in> set (sightings E key rs). text_id c" for key
    by (auto simp: sightings_def)
  from t1(1) obtain d where d: "r = PDict d" by (cases r) (auto simp: count_row_def)
  have "neat t1"
  proof (cases "truthy (dget d ''l1_eligible'')")
    case True
    with t1(1) d obtain key cs where k: "segment_key E (dget d ''user_segment'') = Inr key"
        "iter_or_empty (dget d ''candidates'') = Inr cs"
        "count_candidates key cs (t\<lparr>ty_sessions := AList.update key (or_default 0 (map_of (ty_sessions t) key) + 1)
          (ty_sessions t), ty_used := ty_used t + 1\<rparr>) = Inr t1"
      by (auto simp: count_row_def bindE_Inr_iff)
    have "\<forall>c \<in> set (dicts_of cs). text_id c"
      using ids(1) [of key] True k(1,2) by (simp add: row_sightings_def d)
    with neat_candidates [OF _ k(3)] Cons.prems(1) show ?thesis by (simp add: neat_def)
  next
    case False
    with t1(1) Cons.prems(1) show ?thesis by (simp add: count_row_def d)
  qed
  from Cons.IH [OF this t1(2)] ids(2) show ?case by blast
qed simp

section \<open>Reading the file\<close>

lemma round_digits_le_one: "x \<le> 1 \<Longrightarrow> round_digits n x \<le> 1"
proof -
  assume x: "x \<le> 1"
  have "round_half_even (x * 10 ^ n) \<le> 10 ^ n"
  proof (cases "x = 1")
    case True
    have "\<lfloor>10 ^ n :: real\<rfloor> = 10 ^ n" by (metis floor_of_int of_int_numeral of_int_power)
    with True show ?thesis by (simp add: round_half_even_def Let_def)
  next
    case False
    with x have "x * 10 ^ n < of_int (10 ^ n)" by simp
    then have "\<lfloor>x * 10 ^ n\<rfloor> < 10 ^ n" by (simp only: floor_less_iff)
    then show ?thesis by (simp add: round_half_even_def Let_def)
  qed
  then have "real_of_int (round_half_even (x * 10 ^ n)) \<le> 10 ^ n" by (metis of_int_le_iff of_int_numeral of_int_power)
  then show ?thesis by (simp add: round_digits_def)
qed

lemma valid_stats_json: "valid_stats (stats_json E st)"
  by (simp add: valid_stats_def stats_json_def has_key_def dget_def valid_segment_def segment_json_def cell_json_def
      list_all_iff)

lemma map_of_filtered:
  assumes "neat_cells cells"
  shows "map_of (map (\<lambda>c. (json_key E (ce_cid c), cell_json c)) (filter (supported m) (map snd cells))) i
    = (case map_of cells (PStr i) of Some c \<Rightarrow> if supported m c then Some (cell_json c) else None | None \<Rightarrow> None)"
  using assms
proof (induction cells)
  case (Cons kc cells)
  obtain k c where kc: "kc = (k, c)" by fastforce
  with Cons.prems obtain j where j: "k = PStr j" "ce_cid c = PStr j"
    unfolding neat_cells_def by (metis list.set_intros(1))
  have "map_of cells (PStr j) = None" using Cons.prems kc j by (force simp: neat_cells_def map_of_eq_None_iff)
  moreover have "neat_cells cells" using Cons.prems by (auto simp: neat_cells_def)
  ultimately show ?case using Cons.IH kc j by (auto simp: json_key_def split: option.splits)
qed simp

lemma map_of_segments:
  assumes "distinct (map fst tables)"
  shows "map_of (List.map_filter (segment_of m t) tables) key
    = Option.bind (map_of tables key) (\<lambda>cells. map_option snd (segment_of m t (key, cells)))"
  using assms
proof (induction tables)
  case (Cons kc tables)
  obtain k cells where kc: "kc = (k, cells)" by fastforce
  have "map_of tables k = None" using Cons.prems kc by (force simp: map_of_eq_None_iff)
  with Cons kc show ?case
    by (auto simp: List.map_filter_simps segment_of_def Let_def)
qed (simp add: List.map_filter_simps)

text \<open>The key the agent looks for.\<close>

definition asked_key :: "pystr option \<Rightarrow> pystr option \<Rightarrow> pystr" where
  "asked_key age gender =
     (case age of None \<Rightarrow> lit ''unknown'' | Some s \<Rightarrow> if s = [] then lit ''unknown'' else s) @ lit ''|''
     @ (case gender of None \<Rightarrow> lit ''unknown'' | Some s \<Rightarrow> if s = [] then lit ''unknown'' else s)"

lemma rate_gain_rate:
  assumes "ce_saved c \<le> ce_shown c"
  shows "rate_gain E (PFloat (Fin (save_rate c))) = affinity_max * save_rate c"
proof -
  have "real (ce_saved c) / real (ce_shown c) \<le> 1" using assms by (cases "ce_shown c = 0") (simp_all add: divide_le_eq_1)
  then show ?thesis
    using round_digits_le_one round_digits_nonneg by (simp add: rate_gain_def save_rate_def)
qed

lemma map_of_snd: "map_of (map (\<lambda>kv. (fst kv, f (snd kv))) kvs) k = map_option f (map_of kvs k)"
  by (induction kvs) auto

lemma segment_for_file:
  assumes "cf_stats_path (en_settings A) \<noteq> []"
    and "en_stats A (cf_stats_path (en_settings A)) = Some (stats_json E st)"
  shows "segment_for A age gender
    = (case map_of (sg_segments st) (asked_key age gender) of None \<Rightarrow> PNone | Some e \<Rightarrow> segment_json E e)"
proof -
  have "segment_stats A = (case stats_json E st of PDict d \<Rightarrow> d | _ \<Rightarrow> [])"
    using assms valid_stats_json [of E st] by (simp add: segment_stats_def Let_def)
  then have "dget (segment_stats A) ''segments'' = PDict (map (\<lambda>ke. (fst ke, segment_json E (snd ke))) (sg_segments st))"
    by (simp add: stats_json_def dget_def)
  then show ?thesis
    using map_of_snd [of "segment_json E" "sg_segments st"]
    by (simp add: segment_for_def Let_def asked_key_def split: option.splits)
qed

lemma segment_gain_entry:
  assumes "dget c ''content_id'' = PStr i" and "i \<noteq> []"
  shows "segment_gain A c (segment_json E e)
    = Inr (entry_gain A (map_of (map (\<lambda>c. (json_key E (ce_cid c), cell_json c)) (se_places e)) i))"
proof -
  have "dget [(lit ''sessions'', x), (lit ''places'', y)] ''places'' = y" for x y by (simp add: dget_def)
  then show ?thesis using assms by (simp add: segment_gain_def segment_json_def Let_def)
qed

section \<open>Properties\<close>

text \<open>
  C27: The statistics and their reader agree: with a file built from any recorded sessions whose ids are
  texts, the gain the agent gives a candidate for the user's segment is the share of the sightings in
  that segment's usable sessions that were saved, rounded to four digits and scaled by the largest
  preference, when there were at least as many sightings as the support asks for, and nothing
  otherwise. The file is read back as it was written.
\<close>

theorem segment_gain_exact:
  assumes "build_stats E rows m = Inr st"
    and "\<And>key c. c \<in> set (sightings E key rows) \<Longrightarrow> text_id c"
    and "cf_stats_path (en_settings A) \<noteq> []" and "en_stats A (cf_stats_path (en_settings A)) = Some (stats_json E st)"
    and "dget c ''content_id'' = PStr i" and "i \<noteq> []"
  shows "segment_gain A c (segment_for A age gender)
    = Inr (let cs = sightings E (asked_key age gender) rows; n = times_shown i cs
           in if 0 < n \<and> m \<le> int n
              then affinity_max * round_digits 4 (real (times_saved i cs) / real n) else 0)"
proof -
  define key where "key = asked_key age gender"
  from assms(1) obtain t where t: "count_rows E rows no_tally = Inr t" "st = stats_of m t"
    by (auto simp: build_stats_def bindE_Inr_iff)
  have "tallied no_tally (\<lambda>_. [])" "neat no_tally"
    by (simp_all add: tallied_def cell_at_def no_tally_def times_shown_def neat_def)
  with tallied_rows [OF _ t(1)] neat_rows [OF _ t(1)] assms(2)
  have tallied: "tallied t (\<lambda>k. [] @ sightings E k rows)" and neat: "neat t" by blast+
  let ?cs = "sightings E key rows"
  have cell: "cell_at t key (PStr i) = (if times_shown i ?cs = 0 then None
      else Some \<lparr>ce_cid = PStr i, ce_shown = times_shown i ?cs, ce_saved = times_saved i ?cs\<rparr>)"
    using tallied assms(6) by (simp add: tallied_def)
  have le: "times_saved i ?cs \<le> times_shown i ?cs"
    by (rule saved_le_shown)
  have seg: "segment_for A age gender = (case map_of (ty_cells t) key of None \<Rightarrow> PNone
      | Some cells \<Rightarrow> (case segment_of m t (key, cells) of None \<Rightarrow> PNone | Some ke \<Rightarrow> segment_json E (snd ke)))"
    unfolding segment_for_file [OF assms(3,4)] t(2) stats_of_def key_def [symmetric]
    using map_of_segments [of "ty_cells t" m t key] neat by (simp add: neat_def split: option.splits)
  have "segment_gain A c (segment_for A age gender) = Inr (case cell_at t key (PStr i) of None \<Rightarrow> 0
      | Some ce \<Rightarrow> if supported m ce then affinity_max * save_rate ce else 0)"
  proof (cases "map_of (ty_cells t) key")
    case None
    then show ?thesis by (simp add: seg cell_at_def segment_gain_def)
  next
    case (Some cells)
    then have neat': "neat_cells cells" using neat by (auto simp: neat_def dest: map_of_SomeD)
    have known: "\<forall>ce. cell_at t key (PStr i) = Some ce \<longrightarrow> ce_saved ce \<le> ce_shown ce"
      using cell le by (auto split: if_splits)
    show ?thesis
    proof (cases "filter (supported m) (map snd cells) = []")
      case True
      then have "\<forall>ce. map_of cells (PStr i) = Some ce \<longrightarrow> \<not> supported m ce"
        by (force simp: filter_empty_conv dest: map_of_SomeD)
      with True show ?thesis
        by (simp add: seg Some segment_of_def cell_at_def segment_gain_def split: option.splits)
    next
      case False
      have "segment_gain A c (segment_for A age gender) = Inr (entry_gain A
          (case map_of cells (PStr i) of Some c \<Rightarrow> if supported m c then Some (cell_json c) else None | None \<Rightarrow> None))"
        using False segment_gain_entry [OF assms(5,6)] map_of_filtered [OF neat', of E m i]
        by (simp add: seg Some segment_of_def)
      with known show ?thesis
        by (auto simp: cell_at_def Some entry_gain_def cell_json_def dget_def rate_gain_rate split: option.splits)
    qed
  qed
  then show ?thesis
    using cell by (simp add: key_def [symmetric] supported_def save_rate_def Let_def)
qed

text \<open>Three sessions of one segment that saw a place, two of which kept it, and a fourth that is not usable.\<close>

definition session_row :: "bool \<Rightarrow> bool \<Rightarrow> pyval" where
  "session_row eligible saved =
     PDict [(lit ''l1_eligible'', PBool eligible),
            (lit ''user_segment'', PDict [(lit ''age_band'', PStr (lit ''20s''))]),
            (lit ''candidates'', PList [PDict [(lit ''content_id'', PStr (lit ''A'')), (lit ''saved'', PBool saved)]])]"

definition four_sessions :: "pyval list" where
  "four_sessions = [session_row True True, session_row True False, session_row True True, session_row False True]"

theorem segment_gain_exact_witness:
  "\<exists>st. build_stats offline_env four_sessions 3 = Inr st
     \<and> (let A = offline_env\<lparr>en_settings := default_settings\<lparr>cf_stats_path := lit ''s''\<rparr>,
                             en_stats := \<lambda>_. Some (stats_json offline_env st)\<rparr>
        in segment_gain A [(lit ''content_id'', PStr (lit ''A''))] (segment_for A (Some (lit ''20s'')) None)
           = Inr (affinity_max * round_digits 4 (2 / 3)))"
proof -
  have ne: "lit ''20s'' \<noteq> []" "lit ''A'' \<noteq> []" "lit ''s'' \<noteq> []" by (simp_all add: lit_def)
  have key: "segment_key offline_env (PDict [(lit ''age_band'', PStr (lit ''20s''))])
      = Inr (asked_key (Some (lit ''20s'')) None)"
    using ne by (simp add: segment_key_def known_or_unknown_def dget_def py_str_def asked_key_def)
  have row: "row_sightings offline_env k (session_row e b) = (if e \<and> k = asked_key (Some (lit ''20s'')) None
      then [[(lit ''content_id'', PStr (lit ''A'')), (lit ''saved'', PBool b)]] else [])" for k e b
    using key by (auto simp: row_sightings_def session_row_def dget_def iter_or_empty_def)
  obtain st where st: "build_stats offline_env four_sessions 3 = Inr st"
    using key ne
    by (simp add: build_stats_def four_sessions_def session_row_def count_row_def dget_def iter_or_empty_def
        count_candidate_def Let_def)
  define A where "A = offline_env\<lparr>en_settings := default_settings\<lparr>cf_stats_path := lit ''s''\<rparr>,
    en_stats := \<lambda>_. Some (stats_json offline_env st)\<rparr>"
  have texts: "text_id c" if "c \<in> set (sightings offline_env k four_sessions)" for k c
    using that by (auto simp: sightings_def four_sessions_def row text_id_def dget_def)
  have path: "cf_stats_path (en_settings A) \<noteq> []" "en_stats A (cf_stats_path (en_settings A)) = Some (stats_json offline_env st)"
    using ne by (simp_all add: A_def)
  have cid: "dget [(lit ''content_id'', PStr (lit ''A''))] ''content_id'' = PStr (lit ''A'')" by (simp add: dget_def)
  have "times_shown (lit ''A'') (sightings offline_env (asked_key (Some (lit ''20s'')) None) four_sessions) = 3"
    "times_saved (lit ''A'') (sightings offline_env (asked_key (Some (lit ''20s'')) None) four_sessions) = 2"
    by (simp_all add: sightings_def four_sessions_def row times_shown_def times_saved_def dget_def)
  with segment_gain_exact [OF st texts path cid ne(2), where age = "Some (lit ''20s'')" and gender = None] st
  show ?thesis by (auto simp: A_def [symmetric] Let_def)
qed

end
