(* ===== verification/CheckpointDb.thy ===== *)
theory CheckpointDb
  imports Errors
begin

text \<open>
  app/checkpoint_db.py and app/checkpoint_migrate.py: what startup checks of the checkpoint schema and
  what the migration job does. The database is a parameter: to each statement it gives an answer or an
  exception and a new state of its own. A session is that state with the log of the statements and
  their answers. The three statements whose answer is one Boolean column are constructors of their
  own; so is \<open>setup\<close> of the pinned library, which runs its migrations.
\<close>

section \<open>Statements\<close>

datatype statement =
    AskElevated pystr              \<comment> \<open>is the serving role more than the restricted one\<close>
  | AskMigratorElevated | SetRole | SetLockTimeout | SetStatementTimeout
  | TryLock | Unlock
  | AskSchema pystr | SetSearchPath pystr | AskHistory pystr
  | ReadHistory pystr | ReadTables pystr | ReadIndexes pystr
  | Setup

datatype answer = Nothing | Flag bool | Versions "int list" | Names "pystr list"

type_synonym log = "(statement \<times> (pyexn + answer)) list"
type_synonym 'd database = "statement \<Rightarrow> 'd \<Rightarrow> (pyexn + answer) \<times> 'd"
type_synonym ('d, 'a) action = "'d \<times> log \<Rightarrow> (pyexn + 'a) \<times> 'd \<times> log"

definition execute :: "'d database \<Rightarrow> statement \<Rightarrow> ('d, answer) action" where
  "execute db c dl = (case db c (fst dl) of (r, d) \<Rightarrow> (r, d, snd dl @ [(c, r)]))"

definition pass :: "'a \<Rightarrow> ('d, 'a) action" where
  "pass x dl = (Inr x, dl)"

definition stop :: "pyexn \<Rightarrow> ('d, 'a) action" where
  "stop e dl = (Inl e, dl)"

definition seq :: "('d, 'a) action \<Rightarrow> ('a \<Rightarrow> ('d, 'b) action) \<Rightarrow> ('d, 'b) action" where
  "seq m f dl = (case m dl of (Inl e, dl') \<Rightarrow> (Inl e, dl') | (Inr x, dl') \<Rightarrow> f x dl')"

text \<open>\<open>try: m finally: f\<close>: what \<open>f\<close> raises replaces the outcome.\<close>

definition finally_do :: "('d, 'a) action \<Rightarrow> ('d, 'b) action \<Rightarrow> ('d, 'a) action" where
  "finally_do m f dl =
     (case m dl of (r, dl') \<Rightarrow> (case f dl' of (Inl e, dl'') \<Rightarrow> (Inl e, dl'') | (Inr _, dl'') \<Rightarrow> (r, dl'')))"

text \<open>A row without the column that is read is a \<open>KeyError\<close>, an empty \<open>fetchone()\<close> a \<open>TypeError\<close>.\<close>

definition flag :: "answer \<Rightarrow> ('d, bool) action" where
  "flag a = (case a of Flag b \<Rightarrow> pass b | Nothing \<Rightarrow> stop TypeError | _ \<Rightarrow> stop KeyError)"

definition versions :: "answer \<Rightarrow> ('d, int list) action" where
  "versions a = (case a of Versions vs \<Rightarrow> pass vs | _ \<Rightarrow> stop KeyError)"

definition names :: "answer \<Rightarrow> ('d, pystr list) action" where
  "names a = (case a of Names ns \<Rightarrow> pass ns | _ \<Rightarrow> stop KeyError)"

section \<open>The checks\<close>

definition schema_start :: "nat \<Rightarrow> bool" where
  "schema_start c \<longleftrightarrow> (97 \<le> c \<and> c \<le> 122) \<or> c = 95"

definition schema_char :: "nat \<Rightarrow> bool" where
  "schema_char c \<longleftrightarrow> schema_start c \<or> (48 \<le> c \<and> c \<le> 57)"

text \<open>\<open>[a-z_][a-z0-9_]{0,62}\<close>, the whole text.\<close>

definition checkpoint_schema :: "pystr \<Rightarrow> pyexn + pystr" where
  "checkpoint_schema v =
     (if v \<noteq> [] \<and> schema_start (hd v) \<and> list_all schema_char (tl v) \<and> length (tl v) \<le> 62
      then Inr v else Inl RuntimeError)"

definition check :: "bool \<Rightarrow> ('d, unit) action" where
  "check ok = (if ok then pass () else stop RuntimeError)"

definition tables :: "pystr list" where
  "tables = [lit ''checkpoint_migrations'', lit ''checkpoints'', lit ''checkpoint_blobs'', lit ''checkpoint_writes'']"

definition indexes :: "pystr list" where
  "indexes = [lit ''checkpoints_thread_id_idx'', lit ''checkpoint_blobs_thread_id_idx'',
              lit ''checkpoint_writes_thread_id_idx'']"

text \<open>\<open>n\<close> is the number of migrations of the pinned library.\<close>

definition history_ok :: "nat \<Rightarrow> bool \<Rightarrow> int list \<Rightarrow> bool" where
  "history_ok n full vs \<longleftrightarrow>
     vs = map int [0..<(if full then n else length vs)] \<and> length vs \<le> n"

definition validate_history :: "'d database \<Rightarrow> nat \<Rightarrow> pystr \<Rightarrow> bool \<Rightarrow> ('d, unit) action" where
  "validate_history db n schema full =
     seq (execute db (ReadHistory schema)) (\<lambda>a. seq (versions a) (\<lambda>vs. check (history_ok n full vs)))"

definition validate_indexes :: "'d database \<Rightarrow> pystr \<Rightarrow> ('d, unit) action" where
  "validate_indexes db schema =
     seq (execute db (ReadIndexes schema)) (\<lambda>a. seq (names a) (\<lambda>ns. check (set ns = set indexes)))"

text \<open>\<open>migration_dsn\<close>: the environment has the credentials of the migration job.\<close>

definition validate_runtime_schema :: "'d database \<Rightarrow> nat \<Rightarrow> bool \<Rightarrow> pystr \<Rightarrow> ('d, unit) action" where
  "validate_runtime_schema db n migration_dsn schema =
     (if migration_dsn then stop RuntimeError
      else case checkpoint_schema schema of
          Inl e \<Rightarrow> stop e
        | Inr _ \<Rightarrow>
            seq (execute db (AskElevated schema)) (\<lambda>a. seq (flag a) (\<lambda>elevated.
            seq (check (\<not> elevated)) (\<lambda>_.
            seq (validate_history db n schema True) (\<lambda>_.
            seq (execute db (ReadTables schema)) (\<lambda>a. seq (names a) (\<lambda>ns.
            seq (check (set ns = set tables)) (\<lambda>_.
              validate_indexes db schema))))))))"

section \<open>The migration job\<close>

text \<open>Inside the lock.\<close>

definition migrate_locked :: "'d database \<Rightarrow> nat \<Rightarrow> pystr \<Rightarrow> ('d, unit) action" where
  "migrate_locked db n schema =
     seq (execute db (AskSchema schema)) (\<lambda>a. seq (flag a) (\<lambda>present.
     seq (check present) (\<lambda>_.
     seq (execute db (SetSearchPath schema)) (\<lambda>_.
     seq (execute db (AskHistory schema)) (\<lambda>a. seq (flag a) (\<lambda>started.
     seq (if started then validate_history db n schema False else pass ()) (\<lambda>_.
     seq (execute db Setup) (\<lambda>_.
     seq (validate_history db n schema True) (\<lambda>_.
       validate_indexes db schema)))))))))"

definition migrate :: "'d database \<Rightarrow> nat \<Rightarrow> pystr \<Rightarrow> ('d, unit) action" where
  "migrate db n schema =
     (case checkpoint_schema schema of
        Inl e \<Rightarrow> stop e
      | Inr _ \<Rightarrow>
          seq (execute db AskMigratorElevated) (\<lambda>a. seq (flag a) (\<lambda>elevated.
          seq (check (\<not> elevated)) (\<lambda>_.
          seq (execute db SetRole) (\<lambda>_. seq (execute db SetLockTimeout) (\<lambda>_.
          seq (execute db SetStatementTimeout) (\<lambda>_.
          seq (execute db TryLock) (\<lambda>a. seq (flag a) (\<lambda>locked.
          seq (check locked) (\<lambda>_.
            finally_do (migrate_locked db n schema) (execute db Unlock)))))))))))"

text \<open>
  The exit code of the job. \<open>dsn\<close> and \<open>password\<close> say whether the environment has the job's own
  credentials and those of the service; \<open>conn\<close> is the outcome of connecting.
\<close>

definition migrate_main ::
    "'d database \<Rightarrow> nat \<Rightarrow> bool \<Rightarrow> bool \<Rightarrow> pystr \<Rightarrow> pyexn + unit \<Rightarrow> 'd \<Rightarrow> (pyexn + int) \<times> 'd \<times> log" where
  "migrate_main db n dsn password schema conn d =
     (let caught = (\<lambda>e. if is_exception e then Inr 1 else Inl e)
      in if \<not> dsn \<or> password then (Inr 1, d, [])
         else case checkpoint_schema schema of
             Inl e \<Rightarrow> (caught e, d, [])
           | Inr _ \<Rightarrow>
               (case conn of
                  Inl e \<Rightarrow> (caught e, d, [])
                | Inr _ \<Rightarrow>
                    (case migrate db n schema (d, []) of
                       (Inl e, dl) \<Rightarrow> (caught e, dl)
                     | (Inr _, dl) \<Rightarrow> (Inr 0, dl))))"

section \<open>Lemmas\<close>

lemma seq_iff:
  "seq m f dl = (r, dl') \<longleftrightarrow> (\<exists>e. m dl = (Inl e, dl') \<and> r = Inl e) \<or> (\<exists>x dl1. m dl = (Inr x, dl1) \<and> f x dl1 = (r, dl'))"
  by (auto simp: seq_def split: prod.splits sum.splits)

lemma execute_iff:
  "execute db c (d, l) = (r, dl') \<longleftrightarrow> (\<exists>d'. db c d = (r, d') \<and> dl' = (d', l @ [(c, r)]))"
  by (auto simp: execute_def split: prod.splits)

lemma pure_iff:
  "pass x dl = (r, dl') \<longleftrightarrow> r = Inr x \<and> dl' = dl" "stop e dl = (q, dl') \<longleftrightarrow> q = Inl e \<and> dl' = dl"
  "check ok dl = (u, dl') \<longleftrightarrow> dl' = dl \<and> u = (if ok then Inr () else Inl RuntimeError)"
  by (auto simp: pass_def stop_def check_def)

lemma flag_iff: "flag a dl = (Inr b, dl') \<longleftrightarrow> a = Flag b \<and> dl' = dl"
  by (auto simp: flag_def pure_iff split: answer.splits)

lemma versions_iff: "versions a dl = (Inr vs, dl') \<longleftrightarrow> a = Versions vs \<and> dl' = dl"
  by (auto simp: versions_def pure_iff split: answer.splits)

lemma names_iff: "names a dl = (Inr ns, dl') \<longleftrightarrow> a = Names ns \<and> dl' = dl"
  by (auto simp: names_def pure_iff split: answer.splits)

text \<open>Reading an answer that is no such answer leaves the session.\<close>

lemma reads_Inl:
  "flag a dl = (Inl e, dl') \<Longrightarrow> dl' = dl \<and> (\<forall>b. a \<noteq> Flag b)"
  "versions a dl = (Inl e, dl') \<Longrightarrow> dl' = dl" "names a dl = (Inl e, dl') \<Longrightarrow> dl' = dl"
  by (auto simp: flag_def versions_def names_def pure_iff split: answer.splits)

lemmas session_iffs = seq_iff execute_iff pure_iff flag_iff versions_iff names_iff

text \<open>A check asks the database one thing; what it accepts is what the answer says.\<close>

locale one_question =
  fixes act :: "'d database \<Rightarrow> ('d, unit) action" and question :: statement and good :: "answer \<Rightarrow> bool"
  assumes run: "act db (d, l) = (r, d', l') \<Longrightarrow>
    \<exists>a. l' = l @ [(question, a)] \<and> (r = Inr () \<longrightarrow> (\<exists>v. a = Inr v \<and> good v))"
begin

lemma asks_only: "act db (d, l) = (r, d', l') \<Longrightarrow> fst ` set l' = insert question (fst ` set l)"
  using run [of db d l r d' l'] by auto

lemma accepted: "act db (d, l) = (Inr (), d', l') \<Longrightarrow> \<exists>v. l' = l @ [(question, Inr v)] \<and> good v"
  using run [of db d l "Inr ()" d' l'] by auto

end

interpretation history: one_question "\<lambda>db. validate_history db n schema full" "ReadHistory schema"
    "\<lambda>v. \<exists>vs. v = Versions vs \<and> history_ok n full vs" for n schema full
  by unfold_locales
     (auto simp: validate_history_def session_iffs dest!: reads_Inl split: if_splits)

interpretation indexes: one_question "\<lambda>db. validate_indexes db schema" "ReadIndexes schema"
    "\<lambda>v. \<exists>ns. v = Names ns \<and> set ns = set indexes" for schema
  by unfold_locales
     (auto simp: validate_indexes_def session_iffs dest!: reads_Inl split: if_splits)

lemmas question_runs = history.run indexes.run

text \<open>The startup of the service only reads, however it ends.\<close>

definition runtime_questions :: "pystr \<Rightarrow> statement set" where
  "runtime_questions schema =
     {AskElevated schema, ReadHistory schema, ReadTables schema, ReadIndexes schema}"

lemma startup_only_reads:
  assumes "validate_runtime_schema db n dsn schema (d, []) = (r, d', l')"
  shows "fst ` set l' \<subseteq> runtime_questions schema"
  using assms
  by (auto simp: validate_runtime_schema_def runtime_questions_def session_iffs
      dest!: reads_Inl question_runs split: if_splits sum.splits)

text \<open>What the part inside the lock adds to the log.\<close>

lemma locked_run:
  assumes "migrate_locked db n schema (d, l) = (r, d', l')"
  shows "\<exists>ext. l' = l @ ext \<and> TryLock \<notin> fst ` set ext \<and> Unlock \<notin> fst ` set ext
    \<and> (Setup \<in> fst ` set ext \<longrightarrow> (AskSchema schema, Inr (Flag True)) \<in> set ext)
    \<and> (r = Inr () \<longrightarrow> (\<exists>pre a ns. ext = pre @ [(Setup, Inr a), (ReadHistory schema, Inr (Versions (map int [0..<n]))),
          (ReadIndexes schema, Inr (Names ns))] \<and> Setup \<notin> fst ` set pre \<and> set ns = set indexes))"
  using assms
  by (auto simp: migrate_locked_def session_iffs history_ok_def
      dest!: reads_Inl question_runs split: if_splits)

lemma finally_do_iff:
  "finally_do m f dl = (r, dl') \<longleftrightarrow> (\<exists>q dl1. m dl = (q, dl1)
     \<and> ((\<exists>e. f dl1 = (Inl e, dl') \<and> r = Inl e) \<or> (\<exists>x. f dl1 = (Inr x, dl') \<and> r = q)))"
  by (auto simp: finally_do_def split: prod.splits sum.splits)

section \<open>Properties\<close>

text \<open>
  C26: The migration job, whatever the database answers: the migrations run only under a restricted
  login, inside the lock and in a schema that was provisioned under a valid name; once the lock is
  taken its release is the last statement, and it is never released otherwise; and the job reports
  success only when, after a single run of the migrations, the history was complete and all indexes
  were there.
\<close>

theorem migrate_guarded:
  assumes "migrate db n schema (d, []) = (res, d', stmts)"
  shows "(Setup \<in> fst ` set stmts \<longrightarrow> checkpoint_schema schema = Inr schema
        \<and> (AskMigratorElevated, Inr (Flag False)) \<in> set stmts \<and> (TryLock, Inr (Flag True)) \<in> set stmts
        \<and> (AskSchema schema, Inr (Flag True)) \<in> set stmts)
    \<and> ((TryLock, Inr (Flag True)) \<in> set stmts \<longrightarrow> (\<exists>pre u. stmts = pre @ [(Unlock, u)]))
    \<and> (Unlock \<in> fst ` set stmts \<longrightarrow> (TryLock, Inr (Flag True)) \<in> set stmts)
    \<and> (res = Inr () \<longrightarrow> (\<exists>pre a ns u. stmts = pre @ [(Setup, Inr a),
          (ReadHistory schema, Inr (Versions (map int [0..<n]))), (ReadIndexes schema, Inr (Names ns)), (Unlock, u)]
          \<and> Setup \<notin> fst ` set pre \<and> set ns = set indexes))"
proof (cases "checkpoint_schema schema")
  case (Inl e)
  with assms have "stmts = []" "res = Inl e" by (simp_all add: migrate_def pure_iff)
  then show ?thesis by simp
next
  case (Inr v)
  then have schema: "checkpoint_schema schema = Inr schema" by (auto simp: checkpoint_schema_def split: if_splits)
  define locking :: "answer \<Rightarrow> answer \<Rightarrow> answer \<Rightarrow> log" where "locking = (\<lambda>a b c. [(AskMigratorElevated, Inr (Flag False)), (SetRole, Inr a), (SetLockTimeout, Inr b),
    (SetStatementTimeout, Inr c), (TryLock, Inr (Flag True))])"
  have "(res \<noteq> Inr () \<and> fst ` set stmts \<subseteq> {AskMigratorElevated, SetRole, SetLockTimeout, SetStatementTimeout, TryLock}
      \<and> (TryLock, Inr (Flag True)) \<notin> set stmts)
    \<or> (\<exists>a b c q d1 d2 l2 u. migrate_locked db n schema (d1, locking a b c) = (q, d2, l2)
        \<and> stmts = l2 @ [(Unlock, u)] \<and> (res = Inr () \<longrightarrow> q = Inr ()))"
    using assms Inr unfolding locking_def
    by (auto simp: migrate_def session_iffs finally_do_iff dest!: reads_Inl split: if_splits) blast+
  then show ?thesis
  proof
    assume "res \<noteq> Inr () \<and> fst ` set stmts \<subseteq> {AskMigratorElevated, SetRole, SetLockTimeout, SetStatementTimeout, TryLock}
      \<and> (TryLock, Inr (Flag True)) \<notin> set stmts"
    then show ?thesis by auto
  next
    assume "\<exists>a b c q d1 d2 l2 u. migrate_locked db n schema (d1, locking a b c) = (q, d2, l2)
        \<and> stmts = l2 @ [(Unlock, u)] \<and> (res = Inr () \<longrightarrow> q = Inr ())"
    then obtain a b c q d1 d2 l2 u where run: "migrate_locked db n schema (d1, locking a b c) = (q, d2, l2)"
      "stmts = l2 @ [(Unlock, u)]" "res = Inr () \<longrightarrow> q = Inr ()" by blast
    have o: "(AskMigratorElevated, Inr (Flag False)) \<in> set (locking a b c)"
      "(TryLock, Inr (Flag True)) \<in> set (locking a b c)" "Setup \<notin> fst ` set (locking a b c)"
      by (simp_all add: locking_def)
    from locked_run [OF run(1)] obtain ext where l2: "l2 = locking a b c @ ext"
      and ext: "Setup \<in> fst ` set ext \<longrightarrow> (AskSchema schema, Inr (Flag True)) \<in> set ext"
      and done': "q = Inr () \<longrightarrow> (\<exists>pre a ns. ext = pre @ [(Setup, Inr a),
          (ReadHistory schema, Inr (Versions (map int [0..<n]))), (ReadIndexes schema, Inr (Names ns))]
          \<and> Setup \<notin> fst ` set pre \<and> set ns = set indexes)"
      by blast
    have "\<exists>pre a ns u. stmts = pre @ [(Setup, Inr a), (ReadHistory schema, Inr (Versions (map int [0..<n]))),
        (ReadIndexes schema, Inr (Names ns)), (Unlock, u)] \<and> Setup \<notin> fst ` set pre \<and> set ns = set indexes"
      if "res = Inr ()"
    proof -
      from that run(3) done' obtain pre x ns where e: "ext = pre @ [(Setup, Inr x),
          (ReadHistory schema, Inr (Versions (map int [0..<n]))), (ReadIndexes schema, Inr (Names ns))]"
          "Setup \<notin> fst ` set pre" "set ns = set indexes" by blast
      then show ?thesis using o(3)
        by (intro exI [of _ "locking a b c @ pre"] exI [of _ x] exI [of _ ns] exI [of _ u]) (simp add: run(2) l2 image_Un)
    qed
    then show ?thesis using schema o ext by (auto simp: run(2) l2)
  qed
qed

text \<open>A first migration: no history before, a complete one after.\<close>

definition fresh_db :: "nat database" where
  "fresh_db c done =
     ((case c of AskMigratorElevated \<Rightarrow> Inr (Flag False) | TryLock \<Rightarrow> Inr (Flag True) | AskSchema _ \<Rightarrow> Inr (Flag True)
       | AskHistory _ \<Rightarrow> Inr (Flag (0 < done)) | ReadHistory _ \<Rightarrow> Inr (Versions (map int [0..<done]))
       | ReadIndexes _ \<Rightarrow> Inr (Names (if 0 < done then indexes else [])) | _ \<Rightarrow> Inr Nothing),
      if c = Setup then 2 else done)"

theorem migrate_guarded_witness:
  "\<exists>stmts. migrate fresh_db 2 (lit ''langgraph'') (0, []) = (Inr (), 2, stmts) \<and> Setup \<in> fst ` set stmts
     \<and> (\<exists>pre u. stmts = pre @ [(Unlock, u)])"
proof -
  have "checkpoint_schema (lit ''langgraph'') = Inr (lit ''langgraph'')"
    by (simp add: checkpoint_schema_def lit_def schema_char_def schema_start_def)
  then have "\<exists>stmts. migrate fresh_db 2 (lit ''langgraph'') (0, []) = (Inr (), 2, stmts)"
    by (simp add: migrate_def migrate_locked_def validate_history_def validate_indexes_def seq_def finally_do_def
        execute_def pass_def check_def flag_def versions_def names_def fresh_db_def history_ok_def)
  then obtain stmts where run: "migrate fresh_db 2 (lit ''langgraph'') (0, []) = (Inr (), 2, stmts)" by blast
  from migrate_guarded [OF run] have "Setup \<in> fst ` set stmts" by auto
  with migrate_guarded [OF run] run show ?thesis by blast
qed

end
