(* ===== verification/Lifecycle.thy ===== *)
theory Lifecycle
  imports Seal CheckpointDb
begin

text \<open>
  The life of the process: the slots of app/agent_dependencies.py and the \<open>lifespan\<close> of app/main.py. What
  lies outside is a parameter: whether a constructor, an import, the opening of the pool or a closing
  raises, and the checkpoint database. The background tasks are given by what they still need and by
  whether they end once cancelled.
\<close>

section \<open>The slots\<close>

datatype client = HubClient | DoneStream | StatusStream | Limiter | GeminiClient | Pool

record slots =
  dp_hub :: "client option"
  dp_streams :: "client option"
  dp_status :: "client option"
  dp_gemini :: "client option"

definition reset_all :: slots where
  "reset_all = \<lparr>dp_hub = None, dp_streams = None, dp_status = None, dp_gemini = None\<rparr>"

definition set_hub_client :: "client \<Rightarrow> slots \<Rightarrow> slots" where
  "set_hub_client c d = d\<lparr>dp_hub := Some c\<rparr>"

definition set_streams_publisher :: "client \<Rightarrow> slots \<Rightarrow> slots" where
  "set_streams_publisher c d = d\<lparr>dp_streams := Some c\<rparr>"

definition set_status_publisher :: "client \<Rightarrow> slots \<Rightarrow> slots" where
  "set_status_publisher c d = d\<lparr>dp_status := Some c\<rparr>"

definition set_gemini_client :: "client \<Rightarrow> slots \<Rightarrow> slots" where
  "set_gemini_client c d = d\<lparr>dp_gemini := Some c\<rparr>"

definition from_slot :: "client option \<Rightarrow> pyexn + client" where
  "from_slot v = (case v of None \<Rightarrow> Inl RuntimeError | Some c \<Rightarrow> Inr c)"

definition get_hub_client :: "slots \<Rightarrow> pyexn + client" where
  "get_hub_client d = from_slot (dp_hub d)"

definition get_streams_publisher :: "slots \<Rightarrow> pyexn + client" where
  "get_streams_publisher d = from_slot (dp_streams d)"

definition get_status_publisher :: "slots \<Rightarrow> pyexn + client" where
  "get_status_publisher d = from_slot (dp_status d)"

definition get_gemini_client :: "slots \<Rightarrow> pyexn + client" where
  "get_gemini_client d = from_slot (dp_gemini d)"

lemmas slot_defs = set_hub_client_def set_streams_publisher_def set_status_publisher_def set_gemini_client_def
  get_hub_client_def get_streams_publisher_def get_status_publisher_def get_gemini_client_def from_slot_def

text \<open>What the nodes rely on: a slot gives back what was put in, and raises until then.\<close>

locale client_slot =
  fixes put :: "client \<Rightarrow> slots \<Rightarrow> slots" and get :: "slots \<Rightarrow> pyexn + client"
  assumes put_get: "get (put c d) = Inr c" and unset: "get reset_all = Inl RuntimeError"
    and last_put: "put c (put c' d) = put c d"
begin

lemma filled: "get d = Inr c \<Longrightarrow> get (put c' d) = Inr c' \<and> d \<noteq> reset_all"
  using put_get unset by auto

end

interpretation hub_slot: client_slot set_hub_client get_hub_client
  by unfold_locales (simp_all add: slot_defs reset_all_def)

interpretation streams_slot: client_slot set_streams_publisher get_streams_publisher
  by unfold_locales (simp_all add: slot_defs reset_all_def)

interpretation status_slot: client_slot set_status_publisher get_status_publisher
  by unfold_locales (simp_all add: slot_defs reset_all_def)

interpretation gemini_slot: client_slot set_gemini_client get_gemini_client
  by unfold_locales (simp_all add: slot_defs reset_all_def)

definition fill_slots :: "slots \<Rightarrow> slots" where
  "fill_slots d =
     set_gemini_client GeminiClient (set_status_publisher StatusStream
       (set_streams_publisher DoneStream (set_hub_client HubClient d)))"

lemma fill_slots_eq [simp]:
  "fill_slots d = \<lparr>dp_hub = Some HubClient, dp_streams = Some DoneStream,
                  dp_status = Some StatusStream, dp_gemini = Some GeminiClient\<rparr>"
  by (simp add: fill_slots_def slot_defs)

section \<open>Starting\<close>

record boot_settings =
  bt_api_key :: pystr
  bt_token :: "pystr option"
  bt_auth :: bool
  bt_checkpoint :: bool
  bt_schema :: pystr
  bt_enc_keys :: pystr
  bt_active_kid :: pystr
  bt_wire_key :: pystr
  bt_grace :: real

record 'd world =
  wd_new :: "client \<Rightarrow> pyexn option"
  wd_close :: "client \<Rightarrow> pyexn option"
  wd_imports :: "pyexn option"         \<comment> \<open>the late imports of the checkpoint libraries\<close>
  wd_conninfo :: "pyexn option"
  wd_connect :: "pyexn option"         \<comment> \<open>opening the pool and borrowing a connection\<close>
  wd_saver :: "pyexn option"
  wd_db :: "'d database"
  wd_state :: 'd
  wd_migrations :: nat
  wd_dsn :: bool                       \<comment> \<open>the environment has the migration credentials\<close>

record bg_task =
  tk_done :: bool
  tk_left :: "real option"             \<comment> \<open>the time it still needs, if it ends by itself\<close>
  tk_settles :: bool                   \<comment> \<open>whether it ends once cancelled\<close>
  tk_cancelled :: bool

record process =
  pc_open :: "client list"             \<comment> \<open>made and not closed yet\<close>
  pc_closed :: "client list"           \<comment> \<open>every closing so far, in order\<close>
  pc_slots :: slots
  pc_cipher :: "cipher option"
  pc_serving :: bool
  pc_log :: log

definition idle :: process where
  "idle = \<lparr>pc_open = [], pc_closed = [], pc_slots = reset_all, pc_cipher = None, pc_serving = False, pc_log = []\<rparr>"

fun open_all :: "(client \<Rightarrow> pyexn option) \<Rightarrow> client list \<Rightarrow> process \<Rightarrow> pyexn option \<times> process" where
  "open_all new [] p = (None, p)"
| "open_all new (c # cs) p =
     (case new c of Some e \<Rightarrow> (Some e, p)
      | None \<Rightarrow> open_all new cs (p\<lparr>pc_open := pc_open p @ [c]\<rparr>))"

fun close_all :: "(client \<Rightarrow> pyexn option) \<Rightarrow> client list \<Rightarrow> process \<Rightarrow> pyexn option \<times> process" where
  "close_all close [] p = (None, p)"
| "close_all close (c # cs) p =
     (case close c of Some e \<Rightarrow> (Some e, p)
      | None \<Rightarrow> close_all close cs
          (p\<lparr>pc_open := remove1 c (pc_open p), pc_closed := pc_closed p @ [c]\<rparr>))"

text \<open>The body of the \<open>try\<close>: schema name, connection text, cipher, pool, checks, saver.\<close>

definition may_raise :: "pyexn option \<Rightarrow> pyexn + unit" where
  "may_raise v = (case v of None \<Rightarrow> Inr () | Some e \<Rightarrow> Inl e)"

definition checkpoint_cipher_of :: "'d world \<Rightarrow> boot_settings \<Rightarrow> pyexn + cipher" where
  "checkpoint_cipher_of W S =
     bindE (checkpoint_schema (bt_schema S)) (\<lambda>_.
     bindE (may_raise (wd_conninfo W)) (\<lambda>_.
       build_cipher (bt_enc_keys S) (bt_wire_key S) (bt_active_kid S)))"

definition set_up_checkpoint :: "'d world \<Rightarrow> boot_settings \<Rightarrow> process \<Rightarrow> pyexn option \<times> process" where
  "set_up_checkpoint W S p =
     (case checkpoint_cipher_of W S of
        Inl e \<Rightarrow> (Some e, p)
      | Inr cipher \<Rightarrow>
          (case open_all (wd_new W) [Pool] p of
             (Some e, p1) \<Rightarrow> (Some e, p1)
           | (None, p1) \<Rightarrow>
               (case may_raise (wd_connect W) of
                  Inl e \<Rightarrow> (Some e, p1)
                | Inr _ \<Rightarrow>
                    (case validate_runtime_schema (wd_db W) (wd_migrations W) (wd_dsn W) (bt_schema S) (wd_state W, []) of
                       (Inl e, d, l) \<Rightarrow> (Some e, p1\<lparr>pc_log := l\<rparr>)
                     | (Inr _, d, l) \<Rightarrow>
                         (case may_raise (wd_saver W) of
                            Inl e \<Rightarrow> (Some e, p1\<lparr>pc_log := l\<rparr>)
                          | Inr _ \<Rightarrow> (None, p1\<lparr>pc_log := l, pc_cipher := Some cipher\<rparr>))))))"

definition clients :: "client list" where
  "clients = [HubClient, DoneStream, StatusStream, Limiter, GeminiClient]"

definition closing_order :: "client list" where
  "closing_order = [HubClient, DoneStream, StatusStream, GeminiClient, Limiter]"

text \<open>The handler of a failed set-up: everything is closed again, and startup fails.\<close>

definition undo_boot :: "'d world \<Rightarrow> process \<Rightarrow> pyexn option \<times> process" where
  "undo_boot W p =
     (case close_all (wd_close W) ((if Pool \<in> set (pc_open p) then [Pool] else []) @ closing_order) p of
        (Some e, p') \<Rightarrow> (Some e, p')
      | (None, p') \<Rightarrow> (Some RuntimeError, p'\<lparr>pc_slots := reset_all\<rparr>))"

definition boot :: "'d world \<Rightarrow> boot_settings \<Rightarrow> pyexn option \<times> process" where
  "boot W S =
     (if bt_api_key S = [] then (Some RuntimeError, idle)
      else if bt_auth S \<and> (bt_token S = None \<or> bt_token S = Some []) then (Some RuntimeError, idle)
      else case open_all (wd_new W) clients idle of
          (Some e, p) \<Rightarrow> (Some e, p)
        | (None, p) \<Rightarrow>
            (let p = p\<lparr>pc_slots := fill_slots (pc_slots p)\<rparr>
             in if \<not> bt_checkpoint S then (None, p\<lparr>pc_serving := True\<rparr>)
                else case wd_imports W of
                    Some e \<Rightarrow> (Some e, p)
                  | None \<Rightarrow>
                      (case set_up_checkpoint W S p of
                         (None, p') \<Rightarrow> (None, p'\<lparr>pc_serving := True\<rparr>)
                       | (Some e, p') \<Rightarrow> if is_exception e then undo_boot W p' else (Some e, p'))))"

section \<open>Stopping\<close>

text \<open>
  \<open>asyncio.wait_for(gather(*pending, return_exceptions=True), timeout)\<close>: when the time is over the
  gathering future is cancelled, which cancels its tasks, and \<open>wait_for\<close> returns only once they all
  have ended. \<open>None\<close>: it never returns. The flag: whether it raised \<open>TimeoutError\<close>.
\<close>

definition in_time :: "real \<Rightarrow> bg_task \<Rightarrow> bool" where
  "in_time grace t \<longleftrightarrow> tk_done t \<or> (case tk_left t of None \<Rightarrow> False | Some l \<Rightarrow> l \<le> grace)"

definition ends_cancelled :: "bg_task \<Rightarrow> bool" where
  "ends_cancelled t \<longleftrightarrow> tk_left t \<noteq> None \<or> tk_settles t"

definition end_task :: "real \<Rightarrow> bg_task \<Rightarrow> bg_task" where
  "end_task grace t = t\<lparr>tk_done := True, tk_cancelled := tk_cancelled t \<or> \<not> in_time grace t\<rparr>"

definition wait_for_all :: "real \<Rightarrow> bg_task list \<Rightarrow> (bool \<times> bg_task list) option" where
  "wait_for_all grace ts =
     (if list_all (in_time grace) ts then Some (False, map (end_task grace) ts)
      else if list_all (\<lambda>t. in_time grace t \<or> ends_cancelled t) ts then Some (True, map (end_task grace) ts)
      else None)"

definition cancel_task :: "bg_task \<Rightarrow> bg_task" where
  "cancel_task t = (if tk_done t then t else t\<lparr>tk_cancelled := True\<rparr>)"

definition drain :: "real \<Rightarrow> bg_task list \<Rightarrow> bg_task list option" where
  "drain grace ts =
     (if ts = [] then Some []
      else case wait_for_all grace ts of
          None \<Rightarrow> None
        | Some (False, ts1) \<Rightarrow> Some ts1
        | Some (True, ts1) \<Rightarrow> map_option snd (wait_for_all grace (map cancel_task ts1)))"

definition shutdown ::
    "'d world \<Rightarrow> boot_settings \<Rightarrow> bg_task list \<Rightarrow> process \<Rightarrow> (pyexn option \<times> bg_task list \<times> process) option" where
  "shutdown W S ts p =
     (case drain (bt_grace S) ts of
        None \<Rightarrow> None
      | Some ts' \<Rightarrow>
          Some (case close_all (wd_close W) (closing_order @ (if Pool \<in> set (pc_open p) then [Pool] else [])) p of
                  (Some e, p') \<Rightarrow> (Some e, ts', p')
                | (None, p') \<Rightarrow> (None, ts', p'\<lparr>pc_slots := reset_all, pc_serving := False\<rparr>)))"

section \<open>Lemmas\<close>

lemma open_all_None: "open_all new cs p = (None, p') \<Longrightarrow> p' = p\<lparr>pc_open := pc_open p @ cs\<rparr>"
  by (induction cs arbitrary: p) (fastforce split: option.splits)+

lemma open_all_ok: "\<forall>c. new c = None \<Longrightarrow> open_all new cs p = (None, p\<lparr>pc_open := pc_open p @ cs\<rparr>)"
  by (induction cs arbitrary: p) auto

lemma close_all_ok:
  "\<forall>c. close c = None
   \<Longrightarrow> close_all close cs p = (None, p\<lparr>pc_open := foldl (\<lambda>xs c. remove1 c xs) (pc_open p) cs,
        pc_closed := pc_closed p @ cs\<rparr>)"
  by (induction cs arbitrary: p) auto

lemma checks_passed:
  assumes "validate_runtime_schema db n dsn schema (d, []) = (Inr (), d', l)"
  shows "\<not> dsn \<and> (AskElevated schema, Inr (Flag False)) \<in> set l
    \<and> (ReadHistory schema, Inr (Versions (map int [0..<n]))) \<in> set l
    \<and> fst ` set l \<subseteq> runtime_questions schema"
  using assms startup_only_reads [OF assms]
  by (auto simp: validate_runtime_schema_def session_iffs history_ok_def
      dest!: question_runs split: if_splits sum.splits)

lemma set_up_checkpoint_None:
  assumes "set_up_checkpoint W S p = (None, p')"
  shows "\<exists>cipher l. p' = p\<lparr>pc_open := pc_open p @ [Pool], pc_log := l, pc_cipher := Some cipher\<rparr>
    \<and> checkpoint_cipher_of W S = Inr cipher \<and> \<not> wd_dsn W
    \<and> (AskElevated (bt_schema S), Inr (Flag False)) \<in> set l
    \<and> (ReadHistory (bt_schema S), Inr (Versions (map int [0..<wd_migrations W]))) \<in> set l
    \<and> fst ` set l \<subseteq> runtime_questions (bt_schema S)"
  using assms
  by (auto simp: set_up_checkpoint_def dest!: open_all_None checks_passed split: sum.splits option.splits prod.splits)

lemma set_up_checkpoint_open:
  assumes "set_up_checkpoint W S p = (v, p')"
  shows "(pc_open p' = pc_open p \<or> pc_open p' = pc_open p @ [Pool]) \<and> pc_closed p' = pc_closed p
    \<and> pc_slots p' = pc_slots p"
  using assms
  by (auto simp: set_up_checkpoint_def split: sum.splits option.splits prod.splits)

lemma end_task_again: "end_task g (end_task g t) = end_task g t"
  by (simp add: end_task_def in_time_def)

lemma end_task_done: "tk_done (end_task g t)" "in_time g (end_task g t)" "cancel_task (end_task g t) = end_task g t"
  by (simp_all add: end_task_def in_time_def cancel_task_def)

text \<open>Everything has ended when the first wait is over: the cancelling after it finds no task.\<close>

lemma drain_ok:
  assumes "list_all (\<lambda>t. in_time g t \<or> ends_cancelled t) ts"
  shows "drain g ts = Some (map (end_task g) ts)"
  using assms
  by (auto simp: drain_def wait_for_all_def end_task_done end_task_again list_all_iff comp_def)

text \<open>A task that neither ends nor can be cancelled holds the shutdown for ever.\<close>

lemma stubborn_task_hangs:
  "shutdown W S [\<lparr>tk_done = False, tk_left = None, tk_settles = False, tk_cancelled = False\<rparr>] p = None"
  by (simp add: shutdown_def drain_def wait_for_all_def in_time_def ends_cancelled_def)

text \<open>What a started process holds.\<close>

lemma undo_boot_fails: "undo_boot W q \<noteq> (None, p)"
  by (simp add: undo_boot_def split: prod.splits option.splits)

lemma boot_open:
  assumes "boot W S = (None, p)"
  shows "pc_open p = clients @ (if bt_checkpoint S then [Pool] else [])" and "pc_closed p = []"
  using assms undo_boot_fails
  by (auto simp: boot_def Let_def idle_def dest!: open_all_None set_up_checkpoint_None
      split: if_splits prod.splits option.splits)

lemma undo_boot_all:
  assumes "\<forall>c. wd_close W c = None" and "pc_open q = clients \<or> pc_open q = clients @ [Pool]" and "pc_closed q = []"
  shows "\<exists>p. undo_boot W q = (Some RuntimeError, p) \<and> pc_open p = [] \<and> pc_slots p = reset_all
    \<and> distinct (pc_closed p) \<and> mset (pc_closed p) = mset (pc_open q)"
  using assms(2,3)
  by (auto simp: undo_boot_def close_all_ok [OF assms(1)] clients_def closing_order_def)

lemma failed_boot:
  assumes "\<forall>c. wd_new W c = None" and "\<forall>c. wd_close W c = None" and "wd_imports W = None"
    and "boot W S = (Some e, p)" and "e \<noteq> CancelledError"
  shows "pc_open p = [] \<and> distinct (pc_closed p) \<and> pc_slots p = reset_all"
proof (cases "bt_api_key S = [] \<or> bt_auth S \<and> (bt_token S = None \<or> bt_token S = Some [])")
  case True
  with assms(4) have "p = idle" by (auto simp: boot_def split: if_splits)
  then show ?thesis by (simp add: idle_def)
next
  case False
  define q where "q = idle\<lparr>pc_open := pc_open idle @ clients, pc_slots := \<lparr>dp_hub = Some HubClient,
    dp_streams = Some DoneStream, dp_status = Some StatusStream, dp_gemini = Some GeminiClient\<rparr>\<rparr>"
  have q: "pc_open q = clients" "pc_closed q = []" by (simp_all add: q_def idle_def)
  obtain v p' where s: "set_up_checkpoint W S q = (v, p')" by fastforce
  have "boot W S = (if \<not> bt_checkpoint S then (None, q\<lparr>pc_serving := True\<rparr>)
      else case v of None \<Rightarrow> (None, p'\<lparr>pc_serving := True\<rparr>)
        | Some e \<Rightarrow> if is_exception e then undo_boot W p' else (Some e, p'))"
    using False s assms(3) by (auto simp: boot_def open_all_ok [OF assms(1)] q_def Let_def split: option.splits)
  with assms(4,5) obtain f where "v = Some f" "undo_boot W p' = (Some e, p)"
    by (auto simp: is_exception_def split: if_splits option.splits)
  moreover have "pc_open p' = clients \<or> pc_open p' = clients @ [Pool]" "pc_closed p' = []"
    using set_up_checkpoint_open [OF s] q by auto
  ultimately show ?thesis using undo_boot_all [OF assms(2), of p'] by auto
qed

text \<open>
  What the handler does not cover: the late imports stand before the \<open>try\<close>, and a cancellation is no
  \<open>Exception\<close>. Nothing is closed then.
\<close>

lemma open_all_closed: "open_all new cs p = (v, p') \<Longrightarrow> pc_closed p' = pc_closed p"
  by (induction cs arbitrary: p) (auto split: option.splits)

lemma uncovered_boot:
  assumes "\<forall>c. wd_close W c = None" and "boot W S = (Some e, p)" and "wd_imports W \<noteq> None \<or> e = CancelledError"
  shows "pc_closed p = []"
proof (cases "bt_api_key S = [] \<or> bt_auth S \<and> (bt_token S = None \<or> bt_token S = Some [])")
  case True
  with assms(2) have "p = idle" by (auto simp: boot_def split: if_splits)
  then show ?thesis by (simp add: idle_def)
next
  case False
  obtain v q where o: "open_all (wd_new W) clients idle = (v, q)" by fastforce
  have q: "pc_closed q = []" using open_all_closed [OF o] by (simp add: idle_def)
  define q' where "q' = q\<lparr>pc_slots := fill_slots (pc_slots q)\<rparr>"
  obtain u p' where s: "set_up_checkpoint W S q' = (u, p')" by fastforce
  have p': "pc_closed p' = []" using set_up_checkpoint_open [OF s] q by (simp add: q'_def)
  have "undo_boot W p' = (Some RuntimeError, snd (undo_boot W p'))"
    by (simp add: undo_boot_def close_all_ok [OF assms(1)])
  then have "undo_boot W p' \<noteq> (Some CancelledError, p)" by (auto dest: sym)
  with False o s [unfolded q'_def fill_slots_eq] assms(2,3) q p' show ?thesis
    by (auto simp: boot_def Let_def split: option.splits if_splits)
qed

lemma failed_imports_leave_open:
  assumes "\<forall>c. wd_new W c = None" and "wd_imports W = Some e" and "bt_checkpoint S" and "bt_api_key S \<noteq> []"
    and "bt_token S = Some t" and "t \<noteq> []"
  shows "\<exists>p. boot W S = (Some e, p) \<and> pc_open p = clients \<and> pc_closed p = []"
  using assms by (simp add: boot_def open_all_ok Let_def idle_def)

section \<open>Properties\<close>

text \<open>
  C9: What a process that serves has been checked for: it has a key for the model, a token where one is
  enforced, every slot filled with its client, and with checkpoints on a valid schema name, a cipher
  built from its keys, no credentials of the migration job, a restricted database role and a complete
  migration history, for which the database was asked the questions of the check and told nothing.
\<close>

theorem boot_serves_checked:
  assumes "boot W S = (None, p)"
  shows "pc_serving p \<and> bt_api_key S \<noteq> [] \<and> (bt_auth S \<longrightarrow> (\<exists>t. bt_token S = Some t \<and> t \<noteq> []))
    \<and> get_hub_client (pc_slots p) = Inr HubClient \<and> get_streams_publisher (pc_slots p) = Inr DoneStream
    \<and> get_status_publisher (pc_slots p) = Inr StatusStream \<and> get_gemini_client (pc_slots p) = Inr GeminiClient
    \<and> pc_open p = clients @ (if bt_checkpoint S then [Pool] else [])
    \<and> (bt_checkpoint S \<longrightarrow> checkpoint_schema (bt_schema S) = Inr (bt_schema S)
        \<and> (\<exists>cipher. pc_cipher p = Some cipher
             \<and> build_cipher (bt_enc_keys S) (bt_wire_key S) (bt_active_kid S) = Inr cipher)
        \<and> \<not> wd_dsn W \<and> (AskElevated (bt_schema S), Inr (Flag False)) \<in> set (pc_log p)
        \<and> (ReadHistory (bt_schema S), Inr (Versions (map int [0..<wd_migrations W]))) \<in> set (pc_log p)
        \<and> fst ` set (pc_log p) \<subseteq> runtime_questions (bt_schema S))"
proof -
  have slots: "get_hub_client d = Inr HubClient" "get_streams_publisher d = Inr DoneStream"
    "get_status_publisher d = Inr StatusStream" "get_gemini_client d = Inr GeminiClient"
    if "d = \<lparr>dp_hub = Some HubClient, dp_streams = Some DoneStream, dp_status = Some StatusStream,
      dp_gemini = Some GeminiClient\<rparr>" for d
    by (simp_all add: that get_hub_client_def get_streams_publisher_def get_status_publisher_def
        get_gemini_client_def from_slot_def)
  have schema: "checkpoint_schema (bt_schema S) = Inr (bt_schema S)
      \<and> build_cipher (bt_enc_keys S) (bt_wire_key S) (bt_active_kid S) = Inr cipher"
    if "checkpoint_cipher_of W S = Inr cipher" for cipher
    using that by (auto simp: checkpoint_cipher_of_def bindE_Inr_iff checkpoint_schema_def split: if_splits)
  show ?thesis using assms undo_boot_fails schema
    by (auto simp: boot_def Let_def slots idle_def dest!: open_all_None set_up_checkpoint_None
        split: if_splits prod.splits option.splits) (force+)
qed

text \<open>A database as the migration job leaves it, and the settings of a small deployment.\<close>

definition good_db :: "unit database" where
  "good_db c d =
     ((case c of AskElevated _ \<Rightarrow> Inr (Flag False) | ReadHistory _ \<Rightarrow> Inr (Versions [0, 1])
       | ReadTables _ \<Rightarrow> Inr (Names tables) | ReadIndexes _ \<Rightarrow> Inr (Names indexes) | _ \<Rightarrow> Inr Nothing), d)"

definition good_world :: "unit world" where
  "good_world =
     \<lparr>wd_new = \<lambda>_. None, wd_close = \<lambda>_. None, wd_imports = None, wd_conninfo = None, wd_connect = None,
      wd_saver = None, wd_db = good_db, wd_state = (), wd_migrations = 2, wd_dsn = False\<rparr>"

definition small_settings :: boot_settings where
  "small_settings =
     \<lparr>bt_api_key = lit ''k'', bt_token = Some (lit ''t''), bt_auth = True, bt_checkpoint = True,
      bt_schema = lit ''langgraph'', bt_enc_keys = zero_key, bt_active_kid = lit ''k1'', bt_wire_key = [],
      bt_grace = 310\<rparr>"

lemma good_boot: "\<exists>p. boot good_world small_settings = (None, p)"
proof -
  have schema: "checkpoint_schema (lit ''langgraph'') = Inr (lit ''langgraph'')"
    by (simp add: checkpoint_schema_def lit_def schema_char_def schema_start_def)
  have "checkpoint_cipher_of good_world small_settings
      = Inr \<lparr>ci_keys = [(lit ''k1'', replicate 32 0)], ci_active = lit ''k1''\<rparr>"
    using schema zero_key_cipher
    by (simp add: checkpoint_cipher_of_def small_settings_def good_world_def may_raise_def)
  moreover have "map int [0..<2] = [0, 1]" by (simp add: upt_rec)
  then have "\<exists>l. validate_runtime_schema good_db 2 False (lit ''langgraph'') ((), []) = (Inr (), (), l)"
    using schema
    by (simp add: validate_runtime_schema_def validate_history_def validate_indexes_def seq_def execute_def pass_def
        check_def flag_def versions_def names_def good_db_def history_ok_def)
  ultimately show ?thesis
    by (auto simp: boot_def set_up_checkpoint_def Let_def open_all_ok may_raise_def good_world_def small_settings_def)
qed

theorem boot_serves_checked_witness:
  "\<exists>p cipher. boot good_world small_settings = (None, p) \<and> pc_cipher p = Some cipher"
proof -
  obtain p where p: "boot good_world small_settings = (None, p)" using good_boot by blast
  have "bt_checkpoint small_settings" by (simp add: small_settings_def)
  with boot_serves_checked [OF p] p show ?thesis by blast
qed

text \<open>
  C10: Whatever starts is also stopped, where the code provides for it. With constructors and closings
  that succeed, a start that fails closes every client it had made, each exactly once, and empties the
  slots, unless a late import failed or the start was cancelled: the handler covers neither, and then
  nothing is closed. A process that serves and is told to stop, with tasks that end at least when they
  are cancelled, waits for all of them, cancels exactly those that need longer than the grace period,
  closes every open client exactly once and empties the slots.
\<close>

theorem lifespan_balanced:
  assumes "\<forall>c. wd_close W c = None"
  shows "(boot W S = (Some e, p) \<and> (\<forall>c. wd_new W c = None) \<and> wd_imports W = None \<and> e \<noteq> CancelledError
      \<longrightarrow> pc_open p = [] \<and> distinct (pc_closed p) \<and> pc_slots p = reset_all)
    \<and> (boot W S = (Some e, p) \<and> (wd_imports W \<noteq> None \<or> e = CancelledError) \<longrightarrow> pc_closed p = [])
    \<and> (boot W S = (None, p) \<and> list_all (\<lambda>t. in_time (bt_grace S) t \<or> ends_cancelled t) ts
      \<longrightarrow> (\<exists>p'. shutdown W S ts p = Some (None, map (end_task (bt_grace S)) ts, p')
            \<and> pc_open p' = [] \<and> distinct (pc_closed p') \<and> mset (pc_closed p') = mset (pc_open p)
            \<and> pc_slots p' = reset_all \<and> \<not> pc_serving p'))"
proof (intro conjI impI)
  assume "boot W S = (Some e, p) \<and> (\<forall>c. wd_new W c = None) \<and> wd_imports W = None \<and> e \<noteq> CancelledError"
  then show "pc_open p = []" "distinct (pc_closed p)" "pc_slots p = reset_all"
    using failed_boot [OF _ assms] by blast+
next
  assume "boot W S = (Some e, p) \<and> (wd_imports W \<noteq> None \<or> e = CancelledError)"
  then show "pc_closed p = []" using uncovered_boot [OF assms] by blast
next
  assume "boot W S = (None, p) \<and> list_all (\<lambda>t. in_time (bt_grace S) t \<or> ends_cancelled t) ts"
  then have ends: "drain (bt_grace S) ts = Some (map (end_task (bt_grace S)) ts)"
    and op: "pc_open p = clients @ (if bt_checkpoint S then [Pool] else [])" "pc_closed p = []"
    using drain_ok boot_open by blast+
  then show "\<exists>p'. shutdown W S ts p = Some (None, map (end_task (bt_grace S)) ts, p')
      \<and> pc_open p' = [] \<and> distinct (pc_closed p') \<and> mset (pc_closed p') = mset (pc_open p)
      \<and> pc_slots p' = reset_all \<and> \<not> pc_serving p'"
    using assms by (simp add: shutdown_def close_all_ok clients_def closing_order_def)
qed

theorem lifespan_balanced_witness:
  "\<exists>p p' t. boot good_world small_settings = (None, p)
     \<and> shutdown good_world small_settings
         [\<lparr>tk_done = False, tk_left = Some 400, tk_settles = True, tk_cancelled = False\<rparr>] p = Some (None, [t], p')
     \<and> tk_cancelled t \<and> pc_open p' = [] \<and> distinct (pc_closed p')"
proof -
  let ?t = "\<lparr>tk_done = False, tk_left = Some 400, tk_settles = True, tk_cancelled = False\<rparr>"
  obtain p where p: "boot good_world small_settings = (None, p)" using good_boot by blast
  have w: "\<forall>c. wd_close good_world c = None"
    by (simp add: good_world_def)
  have "list_all (\<lambda>t. in_time (bt_grace small_settings) t \<or> ends_cancelled t) [?t]"
    by (simp add: ends_cancelled_def)
  then obtain p' where "shutdown good_world small_settings [?t] p
      = Some (None, map (end_task (bt_grace small_settings)) [?t], p')" "pc_open p' = []"
    "distinct (pc_closed p')"
    using lifespan_balanced [OF w, of small_settings undefined p "[?t]"] p by blast
  moreover have "tk_cancelled (end_task (bt_grace small_settings) ?t)"
    by (simp add: end_task_def in_time_def small_settings_def)
  ultimately show ?thesis using p by auto
qed

end
