(* ===== verification/Clients.thy ===== *)
theory Clients
  imports Seal State
begin

text \<open>
  The rest of app/clients/agent_clients.py: the requests of the hub client, of which the search by
  radius is sealed when a key is set, the answers it accepts, the status events of the publisher, and
  how the model client turns its settings into the options of its library. Sending is not modelled: a
  request is the value that is sent. Whether the HTTP library refuses a response, the digits of a text
  and \<open>int\<close> of one are parameters.
\<close>

section \<open>Hub requests\<close>

datatype http_method = Get | Post

record hub =
  hb_base :: pystr
  hb_headers :: "(pystr \<times> pystr) list"

record hub_request =
  hr_method :: http_method
  hr_url :: pystr
  hr_headers :: "(pystr \<times> pystr) list"
  hr_params :: "(pystr \<times> pyval) list"
  hr_body :: pyval

definition rstrip_slash :: "pystr \<Rightarrow> pystr" where
  "rstrip_slash s = rev (dropWhile (\<lambda>c. c = 47) (rev s))"

definition hub_client :: "pystr \<Rightarrow> pystr option \<Rightarrow> hub" where
  "hub_client base token =
     \<lparr>hb_base = rstrip_slash base,
      hb_headers = (case token of None \<Rightarrow> [] | Some t \<Rightarrow> if t = [] then [] else [(lit ''X-Internal-Token'', t)])\<rparr>"

definition hub_get :: "hub \<Rightarrow> string \<Rightarrow> (pystr \<times> pyval) list \<Rightarrow> hub_request" where
  "hub_get H path params =
     \<lparr>hr_method = Get, hr_url = hb_base H @ lit path, hr_headers = hb_headers H, hr_params = params, hr_body = PNone\<rparr>"

definition hub_post :: "hub \<Rightarrow> string \<Rightarrow> pydict \<Rightarrow> hub_request" where
  "hub_post H path body =
     \<lparr>hr_method = Post, hr_url = hb_base H @ lit path, hr_headers = hb_headers H, hr_params = [], hr_body = PDict body\<rparr>"

definition weather_request :: "hub \<Rightarrow> pystr \<Rightarrow> pystr \<Rightarrow> date \<Rightarrow> date \<Rightarrow> hub_request" where
  "weather_request H province city d0 d1 =
     hub_get H ''/v1/weather''
       [(lit ''province'', PStr province), (lit ''city'', PStr city),
        (lit ''date_start'', PStr (date_iso d0)), (lit ''date_end'', PStr (date_iso d1))]"

definition given :: "string \<Rightarrow> pystr option \<Rightarrow> (pystr \<times> pyval) list" where
  "given k v = (case v of None \<Rightarrow> [] | Some t \<Rightarrow> if t = [] then [] else [(lit k, PStr t)])"

definition places_request ::
    "hub \<Rightarrow> pystr \<Rightarrow> pystr \<Rightarrow> pystr option \<Rightarrow> pystr option \<Rightarrow> int \<Rightarrow> hub_request" where
  "places_request H province city mobility keyword n =
     hub_get H ''/v1/places''
       ([(lit ''province'', PStr province), (lit ''city'', PStr city), (lit ''size'', PInt n)]
        @ given ''mobility'' mobility @ given ''keyword'' keyword)"

definition reviews_request :: "hub \<Rightarrow> pystr \<Rightarrow> int \<Rightarrow> hub_request" where
  "reviews_request H query display =
     hub_get H ''/v1/reviews''
       [(lit ''query'', PStr query), (lit ''display'', PInt display), (lit ''sort'', PStr (lit ''sim''))]"

definition radius_values :: "pyval \<Rightarrow> pyval list \<Rightarrow> pydict" where
  "radius_values origin candidates = [(lit ''origin'', origin), (lit ''candidates'', PList candidates)]"

definition radius_request ::
    "hub \<Rightarrow> wire \<Rightarrow> nat list \<Rightarrow> real \<Rightarrow> pyval \<Rightarrow> pystr \<Rightarrow> pyval list \<Rightarrow> pyexn + hub_request" where
  "radius_request H W iv now origin mobility candidates =
     bindE
       (if seal_enabled W
        then bindE (seal W iv now (radius_values origin candidates)) (\<lambda>token.
               Inr [(lit ''mobility'', PStr mobility), (lit ''loc'', PStr token)])
        else Inr [(lit ''origin'', origin), (lit ''mobility'', PStr mobility),
                  (lit ''candidates'', PList candidates)])
       (\<lambda>body. Inr (hub_post H ''/v1/rules/filter/mobility-radius'' body))"

definition indoor_request :: "hub \<Rightarrow> pyval list \<Rightarrow> int option \<Rightarrow> hub_request" where
  "indoor_request H pois day_pop_max =
     hub_post H ''/v1/rules/score/indoor-bonus''
       [(lit ''pois'', PList pois), (lit ''day_pop_max'', case day_pop_max of None \<Rightarrow> PNone | Some n \<Rightarrow> PInt n)]"

definition estimate_request :: "hub \<Rightarrow> pyval list \<Rightarrow> hub_request" where
  "estimate_request H places = hub_post H ''/v1/rules/estimate/dwell'' [(lit ''places'', PList places)]"

text \<open>\<open>r.raise_for_status(); return r.json()\<close>. The response, or what the sending raised.\<close>

record hub_response =
  rs_status :: int
  rs_json :: "pyval option"

definition hub_answer :: "(hub_response \<Rightarrow> bool) \<Rightarrow> pyexn + hub_response \<Rightarrow> pyexn + pyval" where
  "hub_answer refused sent =
     bindE sent (\<lambda>r.
       if refused r then Inl (HTTPStatusError (rs_status r) (rs_json r))
       else case rs_json r of None \<Rightarrow> Inl JSONDecodeError | Some v \<Rightarrow> Inr v)"

section \<open>Status events\<close>

record stream_add =
  sa_stream :: pystr
  sa_fields :: "(pystr \<times> pystr) list"
  sa_maxlen :: "int option"            \<comment> \<open>approximate, absent when the stream is not trimmed\<close>

definition publish_status :: "pystr \<Rightarrow> int \<Rightarrow> pystr \<Rightarrow> pystr \<Rightarrow> pystr \<Rightarrow> stream_add" where
  "publish_status stream maxlen now job stage =
     \<lparr>sa_stream = stream,
      sa_fields = [(lit ''job_id'', job), (lit ''stage'', stage), (lit ''status'', lit ''in_progress''), (lit ''ts'', now)],
      sa_maxlen = (if 0 < maxlen then Some maxlen else None)\<rparr>"

definition ping :: "pyexn + unit \<Rightarrow> pyexn + bool" where
  "ping r = (case r of Inr _ \<Rightarrow> Inr True | Inl e \<Rightarrow> if is_exception e then Inr False else Inl e)"

section \<open>The model client\<close>

text \<open>A finish reason has a name, or only a text.\<close>

record finish_reason =
  fr_name :: "pystr option"
  fr_text :: pystr

text \<open>The candidates of the reply with their finish reasons, or what reading them raised.\<close>

definition is_truncated :: "pyexn + (finish_reason option) list \<Rightarrow> pyexn + bool" where
  "is_truncated candidates =
     (case candidates of
        Inl e \<Rightarrow> if is_exception e then Inr False else Inl e
      | Inr [] \<Rightarrow> Inr False
      | Inr (None # _) \<Rightarrow> Inr False
      | Inr (Some r # _) \<Rightarrow>
          Inr (contains_text (lit ''MAX_TOKENS'')
                 (case fr_name r of None \<Rightarrow> fr_text r | Some n \<Rightarrow> if n = [] then fr_text r else n)))"

record retry_options =
  rt_attempts :: int
  rt_initial :: real
  rt_max :: real
  rt_codes :: "int list"

record http_options =
  ho_timeout_ms :: "int option"
  ho_retry :: "retry_options option"

record gemini_settings =
  gm_attempts :: int
  gm_initial :: real
  gm_max :: real
  gm_codes :: pystr
  gm_http_timeout :: real
  gm_thinking :: int

definition retry_codes :: "(pystr \<Rightarrow> bool) \<Rightarrow> (pystr \<Rightarrow> int option) \<Rightarrow> pystr \<Rightarrow> pyexn + int list" where
  "retry_codes isdigit rd codes =
     mapE (\<lambda>c. case rd c of None \<Rightarrow> Inl ValueError | Some n \<Rightarrow> Inr n)
       (filter (\<lambda>c. isdigit (strip c)) (split_commas codes))"

text \<open>\<open>None\<close>: the options are not passed at all.\<close>

definition gemini_options ::
    "(pystr \<Rightarrow> bool) \<Rightarrow> (pystr \<Rightarrow> int option) \<Rightarrow> gemini_settings \<Rightarrow> pyexn + http_options option" where
  "gemini_options isdigit rd G =
     bindE (retry_codes isdigit rd (gm_codes G)) (\<lambda>codes.
       (let retry = (if 1 < gm_attempts G \<and> codes \<noteq> []
                     then Some \<lparr>rt_attempts = gm_attempts G, rt_initial = gm_initial G, rt_max = gm_max G,
                                rt_codes = codes\<rparr>
                     else None);
            timeout = (if 0 < gm_http_timeout G then Some \<lfloor>gm_http_timeout G * 1000\<rfloor> else None)
        in Inr (if retry = None \<and> timeout = None then None
                else Some \<lparr>ho_timeout_ms = timeout, ho_retry = retry\<rparr>)))"

text \<open>The thinking budget of a call; absent below zero.\<close>

definition thinking_config :: "gemini_settings \<Rightarrow> int option" where
  "thinking_config G = (if 0 \<le> gm_thinking G then Some (gm_thinking G) else None)"

section \<open>Lemmas\<close>

lemma stamped_keeps: "lit k \<noteq> lit ''iat'' \<Longrightarrow> dget (stamped now payload) k = dget payload k"
  by (simp add: stamped_def dget_def update_conv')

text \<open>
  The library is never given an empty list of codes, which it would take for its own list with 429 in
  it, and every code it is given is one the setting names.
\<close>

lemma retry_codes_named:
  assumes "gemini_options isdigit rd G = Inr (Some opts)" and "ho_retry opts = Some r"
  shows "rt_codes r \<noteq> [] \<and> 2 \<le> rt_attempts r
    \<and> (\<forall>n \<in> set (rt_codes r). \<exists>c \<in> set (split_commas (gm_codes G)). isdigit (strip c) \<and> rd c = Some n)"
proof -
  from assms obtain codes where codes: "retry_codes isdigit rd (gm_codes G) = Inr codes"
    and r: "1 < gm_attempts G" "codes \<noteq> []" "rt_codes r = codes" "rt_attempts r = gm_attempts G"
    by (auto simp: gemini_options_def bindE_Inr_iff Let_def split: if_splits)
  have "\<exists>c \<in> set cs. isdigit (strip c) \<and> rd c = Some n"
    if "mapE (\<lambda>c. case rd c of None \<Rightarrow> Inl ValueError | Some n \<Rightarrow> Inr n) (filter (\<lambda>c. isdigit (strip c)) cs) = Inr ns"
      "n \<in> set ns" for cs ns n
    using that
    by (induction cs arbitrary: ns) (fastforce simp: bindE_Inr_iff split: if_splits option.splits)+
  with codes r show ?thesis unfolding retry_codes_def by force
qed

section \<open>Properties\<close>

text \<open>
  C25: A search by radius shows no coordinates once a key is set: its body consists of the means of
  transport and a token alone, and a hub that holds the same key and an intact cipher opens the token,
  from a minute before its time until five minutes after, to exactly the origin and the candidates.
\<close>

theorem radius_request_sealed:
  assumes "radius_request H W iv now origin mobility candidates = Inr q" and "seal_enabled W"
    and "wr_dumps W (PDict (stamped \<lfloor>now\<rfloor> (radius_values origin candidates))) = Inr body"
    and "wr_loads W body = Inr (PDict (stamped \<lfloor>now\<rfloor> (radius_values origin candidates)))"
    and "\<And>key. wr_decrypt W key iv (wr_encrypt W key iv body) = Some body"
    and "is_bytes iv" and "\<And>key. is_bytes (wr_encrypt W key iv body)" and "0 \<le> now" and "now < 2 ^ 62"
  shows "\<exists>token. hr_body q = PDict [(lit ''mobility'', PStr mobility), (lit ''loc'', PStr token)] \<and> hr_params q = []
    \<and> (\<forall>later :: real. - 60 \<le> later - \<lfloor>now\<rfloor> \<and> later - \<lfloor>now\<rfloor> \<le> 300 \<longrightarrow>
        (\<exists>opened. open_seal W later token = Inr opened
          \<and> dget opened ''origin'' = origin \<and> dget opened ''candidates'' = PList candidates))"
proof -
  from assms(1,2) obtain token where token: "seal W iv now (radius_values origin candidates) = Inr token"
    and q: "q = hub_post H ''/v1/rules/filter/mobility-radius''
      [(lit ''mobility'', PStr mobility), (lit ''loc'', PStr token)]"
    by (auto simp: radius_request_def bindE_Inr_iff)
  have "dget (stamped \<lfloor>now\<rfloor> (radius_values origin candidates)) ''origin'' = origin"
    "dget (stamped \<lfloor>now\<rfloor> (radius_values origin candidates)) ''candidates'' = PList candidates"
    by (simp_all add: stamped_keeps lit_eq_Nil) (simp_all add: radius_values_def dget_def)
  with seal_opens [OF token assms(3-9)] show ?thesis
    by (intro exI [of _ token]) (auto simp: q hub_post_def)
qed

text \<open>A wire whose cipher changes nothing.\<close>

definition radius_wire :: wire where
  "radius_wire = clear_wire\<lparr>wr_loads := \<lambda>b. Inr (PDict (stamped 1000 (radius_values (PInt 5) [PInt 6])))\<rparr>"

theorem radius_request_sealed_witness:
  "\<exists>q token opened. radius_request (hub_client (lit ''http://hub:8000/'') None) radius_wire [9] 1000 (PInt 5) (lit ''walk'') [PInt 6] = Inr q
     \<and> hr_body q = PDict [(lit ''mobility'', PStr (lit ''walk'')), (lit ''loc'', PStr token)]
     \<and> open_seal radius_wire 1200 token = Inr opened \<and> dget opened ''origin'' = PInt 5"
proof -
  have "wr_key radius_wire = wr_key clear_wire" by (simp add: radius_wire_def)
  then have key: "wire_key radius_wire = Inr (replicate 32 7)" using clear_wire_key by (simp only: wire_key_def)
  then have on: "seal_enabled radius_wire" using wire_key_Inr by blast
  have laws: "wr_dumps radius_wire v = Inr [1]" "wr_encrypt radius_wire k i b = b"
    "wr_decrypt radius_wire k i b = Some b" for v k i b
    by (simp_all add: radius_wire_def clear_wire_def)
  have loads: "wr_loads radius_wire [1] = Inr (PDict (stamped \<lfloor>1000 :: real\<rfloor> (radius_values (PInt 5) [PInt 6])))"
    by (simp add: radius_wire_def)
  obtain q where q: "radius_request (hub_client (lit ''http://hub:8000/'') None) radius_wire [9] 1000 (PInt 5) (lit ''walk'') [PInt 6] = Inr q"
    using on key laws by (simp add: radius_request_def seal_def)
  from radius_request_sealed [OF q on laws(1) loads] laws obtain token where
    "hr_body q = PDict [(lit ''mobility'', PStr (lit ''walk'')), (lit ''loc'', PStr token)]"
    "\<forall>later :: real. - 60 \<le> later - \<lfloor>1000 :: real\<rfloor> \<and> later - \<lfloor>1000 :: real\<rfloor> \<le> 300 \<longrightarrow> (\<exists>opened. open_seal radius_wire later token = Inr opened
        \<and> dget opened ''origin'' = PInt 5 \<and> dget opened ''candidates'' = PList [PInt 6])"
    by auto
  moreover from spec [OF this(2), of 1200]
  have "\<exists>opened. open_seal radius_wire 1200 token = Inr opened \<and> dget opened ''origin'' = PInt 5" by auto
  ultimately show ?thesis using q by blast
qed

end
