(* ===== verification/Collect.thy ===== *)
theory Collect
  imports Scorer
begin

text \<open>
  eval/collect.py: the request built from a case, the reading of the stream of results, and the files
  the program leaves; and the program of eval/run.py, which scores them. The day of the run, the job
  ids the service answers with, and what each read of the stream before the deadline returns are
  arguments; a directory of files is a map from the names of the cases.
\<close>

section \<open>Building a request\<close>

definition trip_offset_days :: int where "trip_offset_days = 14"

definition prev_day :: "date \<Rightarrow> date" where
  "prev_day d =
     (if 1 < date_day d then Date (date_year d) (date_month d) (date_day d - 1)
      else if 1 < date_month d
      then Date (date_year d) (date_month d - 1) (days_in_month (date_year d) (date_month d - 1))
      else Date (date_year d - 1) 12 31)"

text \<open>A date plus a number of days; a result outside the years 1 to 9999 raises.\<close>

definition shift_date :: "date \<Rightarrow> int \<Rightarrow> pyexn + date" where
  "shift_date d n =
     (let d' = (if 0 \<le> n then add_days d (nat n) else (prev_day ^^ nat (- n)) d)
      in if 1 \<le> date_year d' \<and> date_year d' \<le> 9999 then Inr d' else Inl OverflowError)"

definition as_time :: "env \<Rightarrow> pyval \<Rightarrow> string \<Rightarrow> pyexn + pyval" where
  "as_time E v fallback =
     (if \<not> truthy v then Inr (PStr (lit fallback))
      else case v of
          PStr s \<Rightarrow> Inr (if count_list s 58 = 2 then v else PStr (s @ lit '':00''))
        | PList xs \<Rightarrow> Inr (if count_list xs (PStr (lit '':'')) = 2 then v else PStr (py_str E v @ lit '':00''))
        | _ \<Rightarrow> Inl AttributeError)"

text \<open>\<open>case.get(k) or {}\<close>, on which \<open>get\<close> is called.\<close>

definition part_of :: "pydict \<Rightarrow> string \<Rightarrow> pyexn + pydict" where
  "part_of c k =
     (case (if truthy (dget c k) then dget c k else PDict []) of PDict d \<Rightarrow> Inr d | _ \<Rightarrow> Inl AttributeError)"

definition passed_on :: "string \<Rightarrow> bool \<Rightarrow> pyval \<Rightarrow> pydict" where
  "passed_on k wanted v = (if wanted then [(lit k, v)] else [])"

definition build_request :: "env \<Rightarrow> date \<Rightarrow> pydict \<Rightarrow> pyexn + pydict" where
  "build_request E today c =
     bindE (part_of c ''request'') (\<lambda>req.
     bindE (part_of c ''expect'') (\<lambda>expect.
     bindE (if truthy (dget req ''days'') then int_or_zero E (dget req ''days'') else Inr 1) (\<lambda>days.
     bindE (shift_date today trip_offset_days) (\<lambda>start.
     bindE (shift_date start (days - 1)) (\<lambda>finish.
     bindE (as_time E (dget expect ''time_start'') ''10:00:00'') (\<lambda>t0.
     bindE (as_time E (dget expect ''time_end'') ''20:00:00'') (\<lambda>t1.
     bindE (need KeyError (map_of req (lit ''province''))) (\<lambda>province.
       Inr ([(lit ''date'', PDict [(lit ''date_start'', PStr (date_iso start)), (lit ''date_end'', PStr (date_iso finish)),
                                   (lit ''time_start'', t0), (lit ''time_end'', t1)]),
             (lit ''province'', province),
             (lit ''city'', case map_of req (lit ''city'') of None \<Rightarrow> PStr [] | Some v \<Rightarrow> v),
             (lit ''stage'', PStr (lit ''init''))]
            @ passed_on ''mobility'' (truthy (dget req ''mobility'')) (dget req ''mobility'')
            @ passed_on ''theme'' (truthy (dget req ''theme'')) (dget req ''theme'')
            @ passed_on ''budget'' (dget req ''budget'' \<noteq> PNone) (dget req ''budget''))))))))))"

section \<open>Reading the stream\<close>

record entry =
  mg_id :: nat
  mg_job :: "pystr option"
  mg_payload :: "pystr option"
  mg_training :: "pystr option"

record harvest =
  hv_wanted :: "(pystr \<times> pystr) list"      \<comment> \<open>job to case\<close>
  hv_out :: "(pystr \<times> entry) list"         \<comment> \<open>case to message\<close>
  hv_acked :: "nat list"

text \<open>One message: acknowledged in any case, kept if its job is waited for.\<close>

definition take_entry :: "entry \<Rightarrow> harvest \<Rightarrow> harvest" where
  "take_entry e h =
     (let h = h\<lparr>hv_acked := hv_acked h @ [mg_id e]\<rparr>
      in case mg_job e of
           None \<Rightarrow> h
         | Some job \<Rightarrow>
             (case map_of (hv_wanted h) job of
                None \<Rightarrow> h
              | Some cid \<Rightarrow> h\<lparr>hv_wanted := filter (\<lambda>jc. fst jc \<noteq> job) (hv_wanted h),
                              hv_out := AList.update cid e (hv_out h)\<rparr>))"

text \<open>The reads before the deadline, in turn; one that raises ends the loop.\<close>

fun harvest_loop :: "entry list option list \<Rightarrow> harvest \<Rightarrow> harvest" where
  "harvest_loop [] h = h"
| "harvest_loop (r # rs) h =
     (if hv_wanted h = [] then h
      else case r of None \<Rightarrow> h | Some es \<Rightarrow> harvest_loop rs (fold take_entry es h))"

definition collect :: "(pystr \<times> pystr) list \<Rightarrow> entry list option list \<Rightarrow> harvest" where
  "collect wanted reads = harvest_loop reads \<lparr>hv_wanted = wanted, hv_out = [], hv_acked = []\<rparr>"

section \<open>The program\<close>

record results_dir =
  rd_results :: "pystr \<rightharpoonup> pystr"
  rd_training :: "pystr \<rightharpoonup> pystr"

definition has_text :: "pystr option \<Rightarrow> bool" where
  "has_text v \<longleftrightarrow> v \<noteq> None \<and> v \<noteq> Some []"

definition write_result :: "pystr \<times> entry \<Rightarrow> results_dir \<Rightarrow> results_dir" where
  "write_result ce D =
     (let D = (if has_text (mg_payload (snd ce)) then D\<lparr>rd_results := (rd_results D)(fst ce := mg_payload (snd ce))\<rparr> else D)
      in if has_text (mg_training (snd ce)) then D\<lparr>rd_training := (rd_training D)(fst ce := mg_training (snd ce))\<rparr> else D)"

text \<open>
  The cases by their names, with the job id the service gave, if it took the request. The exit code and
  the directory after the run.
\<close>

definition submitted :: "(pystr \<times> pystr option) list \<Rightarrow> (pystr \<times> pystr) list" where
  "submitted cases = dict_of_pairs (List.map_filter (\<lambda>(cid, job). map_option (\<lambda>j. (j, cid)) job) cases)"

definition collect_main ::
    "(pystr \<times> pystr option) list \<Rightarrow> entry list option list \<Rightarrow> results_dir \<Rightarrow> int \<times> results_dir" where
  "collect_main cases reads D =
     (if cases = [] then (1, D)
      else
        (let wanted = submitted cases
         in if wanted = [] then (1, D)
            else
              (let h = collect wanted reads; D' = fold write_result (hv_out h) D
               in (if snd ` set wanted \<subseteq> fst ` set (hv_out h) then 0 else 1, D'))))"

section \<open>The gate\<close>

text \<open>
  The program of eval/run.py on the cases with the decoded files of their results and training signals.
  \<open>base\<close>: the baseline, absent when no path is given, and \<open>Some None\<close> when the file is missing. The
  exit code and the baseline that was written.
\<close>

definition joinable :: "pyval list \<Rightarrow> bool" where
  "joinable vs \<longleftrightarrow> list_all (\<lambda>v. as_str v \<noteq> None) vs"

definition present :: "pyval option \<Rightarrow> pyval option" where
  "present v = (case v of Some PNone \<Rightarrow> None | _ \<Rightarrow> v)"

type_synonym axes = "(string \<times> real option) list"

definition score_present ::
    "(pystr \<Rightarrow> int option) \<Rightarrow> eval_case \<times> pyval option \<times> pydict option \<Rightarrow> pyexn + case_score option" where
  "score_present rd e =
     (case present (fst (snd e)) of
        None \<Rightarrow> Inr None
      | Some p \<Rightarrow> bindE (score_case rd (fst e) p (snd (snd e))) (\<lambda>s. Inr (Some s)))"

definition eval_main ::
    "(pystr \<Rightarrow> int option) \<Rightarrow> real \<Rightarrow> bool \<Rightarrow> axes option option
     \<Rightarrow> (eval_case \<times> pyval option \<times> pydict option) list \<Rightarrow> pyexn + int \<times> axes option" where
  "eval_main rd tolerance write base entries =
     (if entries = [] then Inr (1, None)
      else bindE (mapE (score_present rd) entries) (\<lambda>found.
        (let missing = map (\<lambda>e. ec_id (fst e)) (filter (\<lambda>e. present (fst (snd e)) = None) entries);
             scored = List.map_filter (\<lambda>v. v) found;
             failed = map cs_id (filter case_fails scored);
             current = summarize_scores scored
         in if missing \<noteq> [] then (if joinable (take 5 missing) then Inr (1, None) else Inl TypeError)
            else if failed \<noteq> [] \<or> scored = [] then (if joinable failed then Inr (1, None) else Inl TypeError)
            else case base of
                None \<Rightarrow> Inr (0, None)
              | Some b \<Rightarrow>
                  if write then Inr (0, Some current)
                  else (case b of
                          None \<Rightarrow> Inr (1, None)
                        | Some b \<Rightarrow> Inr (if compare_axes current b tolerance \<noteq> [] then 1 else 0, None)))))"

section \<open>Lemmas\<close>

definition first_of :: "pystr \<Rightarrow> entry list \<Rightarrow> entry option" where
  "first_of job es = List.find (\<lambda>e. mg_job e = Some job) es"

lemma first_of_append: "first_of job (es @ es') = (case first_of job es of None \<Rightarrow> first_of job es' | Some e \<Rightarrow> Some e)"
  by (induction es) (simp_all add: first_of_def)

text \<open>What has been taken after some messages: the first of every job that is waited for.\<close>

definition taken :: "(pystr \<times> pystr) list \<Rightarrow> entry list \<Rightarrow> harvest \<Rightarrow> bool" where
  "taken wanted es h \<longleftrightarrow> hv_wanted h = filter (\<lambda>jc. first_of (fst jc) es = None) wanted
     \<and> (\<forall>job cid. (job, cid) \<in> set wanted \<longrightarrow> map_of (hv_out h) cid = first_of job es)
     \<and> hv_acked h = map mg_id es"

lemma taken_entry:
  assumes "distinct (map fst wanted)" and "distinct (map snd wanted)" and "taken wanted es h"
  shows "taken wanted (es @ [e]) (take_entry e h)"
proof -
  have w: "hv_wanted h = filter (\<lambda>jc. first_of (fst jc) es = None) wanted"
    and o: "\<And>job cid. (job, cid) \<in> set wanted \<Longrightarrow> map_of (hv_out h) cid = first_of job es"
    and a: "hv_acked h = map mg_id es"
    using assms(3) by (auto simp: taken_def)
  have one: "first_of job [e] = (if mg_job e = Some job then Some e else None)" for job by (simp add: first_of_def)
  show ?thesis
  proof (cases "Option.bind (mg_job e) (map_of (hv_wanted h))")
    case None
    then have "take_entry e h = h\<lparr>hv_acked := hv_acked h @ [mg_id e]\<rparr>"
      by (auto simp: take_entry_def Let_def split: option.splits)
    moreover have "first_of job (es @ [e]) = first_of job es" if "(job, cid) \<in> set wanted" for job cid
    proof (cases "first_of job es")
      case None': None
      have "(job, cid) \<in> set (hv_wanted h)" using that None' by (simp add: w)
      with None have "mg_job e \<noteq> Some job" by (force simp: map_of_eq_None_iff)
      then show ?thesis by (simp add: first_of_append one None')
    qed (simp add: first_of_append)
    ultimately show ?thesis using w o a by (auto simp: taken_def intro!: filter_cong)
  next
    case (Some cid)
    then obtain job where job: "mg_job e = Some job" "map_of (hv_wanted h) job = Some cid"
      by (auto simp: bind_eq_Some_conv)
    then have mem: "(job, cid) \<in> set wanted" "first_of job es = None" by (auto simp: w dest: map_of_SomeD)
    have run: "take_entry e h = h\<lparr>hv_acked := hv_acked h @ [mg_id e], hv_wanted := filter (\<lambda>jc. fst jc \<noteq> job) (hv_wanted h),
        hv_out := AList.update cid e (hv_out h)\<rparr>"
      using job by (simp add: take_entry_def Let_def)
    have "map_of (AList.update cid e (hv_out h)) c = first_of j (es @ [e])" if "(j, c) \<in> set wanted" for j c
    proof -
      have "j = job \<longleftrightarrow> c = cid"
        using assms(1,2) that mem(1) by (metis map_of_is_SomeI eq_key_imp_eq_value inj_on_eq_iff
            distinct_map fst_conv snd_conv prod.inject)
      then show ?thesis using o [OF that] mem(2) job(1)
        by (auto simp: update_conv' first_of_append one split: option.splits)
    qed
    moreover have "filter (\<lambda>jc. fst jc \<noteq> job) (hv_wanted h) = filter (\<lambda>jc. first_of (fst jc) (es @ [e]) = None) wanted"
      using mem(2) job(1) by (auto simp: w filter_filter first_of_append one intro!: filter_cong split: option.splits)
    ultimately show ?thesis using a by (simp add: taken_def run)
  qed
qed

lemma taken_fold:
  assumes "distinct (map fst wanted)" and "distinct (map snd wanted)"
  shows "taken wanted es h \<Longrightarrow> taken wanted (es @ es') (fold take_entry es' h)"
  using taken_entry [OF assms]
proof (induction es' arbitrary: es h)
  case (Cons e es')
  from Cons.IH [OF Cons.prems(2) [OF Cons.prems(1)] Cons.prems(2)] show ?case by simp
qed simp

lemma harvest_first:
  assumes "distinct (map fst wanted)" and "distinct (map snd wanted)" and "(job, cid) \<in> set wanted"
  shows "taken wanted es h \<Longrightarrow> map_of (hv_out (harvest_loop rs h)) cid
    = first_of job (es @ concat (map the (takeWhile (\<lambda>r. r \<noteq> None) rs)))"
proof (induction rs arbitrary: es h)
  case Nil
  then show ?case using assms(3) by (simp add: taken_def)
next
  case (Cons r rs)
  have now: "map_of (hv_out h) cid = first_of job es" using Cons.prems assms(3) by (simp add: taken_def)
  show ?case
  proof (cases "hv_wanted h = []")
    case True
    have "filter (\<lambda>jc. first_of (fst jc) es = None) wanted = []" using Cons.prems True by (simp add: taken_def)
    then have "first_of job es \<noteq> None" using assms(3) by (auto simp: filter_empty_conv)
    with True now show ?thesis by (auto simp: first_of_append)
  next
    case False
    show ?thesis
    proof (cases r)
      case None
      with False now show ?thesis by simp
    next
      case (Some es')
      from Cons.IH [OF taken_fold [OF assms(1,2) Cons.prems, of es']] False Some show ?thesis by simp
    qed
  qed
qed

text \<open>A case the service has refused leaves the file of an earlier run, and the exit code says nothing of it.\<close>

lemma refused_case_keeps_old_result:
  assumes "collect_main cases reads D = (code, D')" and "cid \<notin> snd ` set (submitted cases)"
  shows "rd_results D' cid = rd_results D cid"
proof -
  have step: "rd_results (write_result ce F) c = rd_results F c" if "fst ce \<noteq> c" for ce F c
    using that by (simp add: write_result_def Let_def)
  have "rd_results (fold write_result ces F) c = rd_results F c" if "c \<notin> fst ` set ces" for ces F c
    using that by (induction ces arbitrary: F) (auto simp: step)
  moreover have sub: "snd ` set (hv_wanted (take_entry e h)) \<union> fst ` set (hv_out (take_entry e h))
      \<subseteq> snd ` set (hv_wanted h) \<union> fst ` set (hv_out h)" for e h
  proof (cases "Option.bind (mg_job e) (map_of (hv_wanted h))")
    case None
    then show ?thesis by (auto simp: take_entry_def Let_def split: option.splits)
  next
    case (Some c)
    then obtain job where job: "mg_job e = Some job" "map_of (hv_wanted h) job = Some c" by (auto simp: bind_eq_Some_conv)
    have "c \<in> snd ` set (hv_wanted h)" using map_of_SomeD [OF job(2)] by force
    moreover have "fst ` set (AList.update c e (hv_out h)) \<subseteq> insert c (fst ` set (hv_out h))"
      using set_AList_update [of c e "hv_out h"] by auto
    ultimately show ?thesis using job by (auto simp: take_entry_def Let_def)
  qed
  have one: "snd ` set (hv_wanted (fold take_entry es h)) \<union> fst ` set (hv_out (fold take_entry es h))
      \<subseteq> snd ` set (hv_wanted h) \<union> fst ` set (hv_out h)" for es h
  proof (induction es arbitrary: h)
    case (Cons e es)
    from order_trans [OF Cons.IH [of "take_entry e h"] sub [of e h]] show ?case by simp
  qed simp
  have "fst ` set (hv_out (harvest_loop rs h)) \<subseteq> snd ` set (hv_wanted h) \<union> fst ` set (hv_out h)" for rs h
  proof (induction rs arbitrary: h)
    case (Cons r rs)
    show ?case
    proof (cases r)
      case (Some es)
      from order_trans [OF Cons.IH [of "fold take_entry es h"] one [of es h]] Some show ?thesis by simp
    qed simp
  qed simp
  from this [of reads "\<lparr>hv_wanted = submitted cases, hv_out = [], hv_acked = []\<rparr>"] assms(2)
  have "cid \<notin> fst ` set (hv_out (collect (submitted cases) reads))" by (auto simp: collect_def)
  ultimately show ?thesis using assms(1) by (auto simp: collect_main_def Let_def split: if_splits)
qed

lemma found_all:
  "mapE (score_present rd) entries = Inr found
   \<Longrightarrow> filter (\<lambda>e. present (fst (snd e)) = None) entries = []
   \<Longrightarrow> list_all2 (\<lambda>e sc. \<exists>p. present (fst (snd e)) = Some p \<and> score_case rd (fst e) p (snd (snd e)) = Inr sc)
         entries (List.map_filter (\<lambda>v. v) found)"
  by (induction entries arbitrary: found)
     (auto simp: bindE_Inr_iff score_present_def List.map_filter_simps split: option.splits if_splits)

lemma score_all:
  "list_all2 (\<lambda>e sc. \<exists>p. present (fst (snd e)) = Some p \<and> score_case rd (fst e) p (snd (snd e)) = Inr sc) entries scores
   \<Longrightarrow> mapE (score_present rd) entries = Inr (map Some scores) \<and> filter (\<lambda>e. present (fst (snd e)) = None) entries = []"
  by (induction rule: list_all2_induct) (auto simp: score_present_def)

lemma gate_zero:
  "(\<exists>w. eval_main rd tolerance write base entries = Inr (0, w)) \<longleftrightarrow>
     entries \<noteq> [] \<and> (\<exists>scores.
       list_all2 (\<lambda>e sc. \<exists>p. present (fst (snd e)) = Some p \<and> score_case rd (fst e) p (snd (snd e)) = Inr sc
                        \<and> \<not> case_fails sc) entries scores
       \<and> (base = None \<or> base \<noteq> None \<and> write
          \<or> (\<exists>b. base = Some (Some b) \<and> compare_axes (summarize_scores scores) b tolerance = [])))"
  (is "?zero \<longleftrightarrow> _ \<and> (\<exists>scores. ?all scores \<and> ?base scores)")
proof
  assume ?zero
  then obtain w where run: "eval_main rd tolerance write base entries = Inr (0, w)" by blast
  then have ne: "entries \<noteq> []" by (auto simp: eval_main_def)
  from run ne obtain found where found: "mapE (score_present rd) entries = Inr found"
    by (auto simp: eval_main_def bindE_Inr_iff)
  define scores where "scores = List.map_filter (\<lambda>v. v) found"
  from run ne found have here: "filter (\<lambda>e. present (fst (snd e)) = None) entries = []"
      "filter case_fails scores = []" "?base scores"
    by (auto simp: eval_main_def scores_def Let_def split: if_splits option.splits)
  from found_all [OF found here(1)] here(2) have "?all scores"
    by (fold scores_def) (force simp: list_all2_conv_all_nth filter_empty_conv)
  with ne here(3) show "entries \<noteq> [] \<and> (\<exists>scores. ?all scores \<and> ?base scores)" by blast
next
  assume "entries \<noteq> [] \<and> (\<exists>scores. ?all scores \<and> ?base scores)"
  then obtain scores where ne: "entries \<noteq> []" and all: "?all scores" and base: "?base scores" by blast
  from all have "list_all2 (\<lambda>e sc. \<exists>p. present (fst (snd e)) = Some p \<and> score_case rd (fst e) p (snd (snd e)) = Inr sc)
      entries scores" by (rule list_all2_mono) blast
  note s = score_all [OF this]
  have clean: "filter case_fails scores = []" "scores \<noteq> []"
    using all ne by (auto simp: list_all2_conv_all_nth filter_empty_conv in_set_conv_nth)
  have "List.map_filter (\<lambda>v. v) (map Some scores) = scores"
    by (induction scores) (simp_all add: List.map_filter_simps)
  with s clean ne base show ?zero
    by (auto simp: eval_main_def Let_def split: option.splits)
qed

text \<open>What it takes to pass, and not to fall behind the baseline, spelt out.\<close>

lemma case_passes:
  "\<not> case_fails sc \<longleftrightarrow> (\<exists>n. cs_schema sc = Inr n) \<and> cs_grounded sc \<and> rt_ok (cs_route sc)
     \<and> (if ru_applicable (cs_rules sc) then ru_violations (cs_rules sc) = 0 else True)
     \<and> (if ts_applicable (cs_timeline sc) then ts_ok (cs_timeline sc) else True)"
  by (auto simp: case_fails_def schema_ok_def split: sum.splits)

lemma axis_kept:
  "\<not> regressed current tolerance (axis, was) \<longleftrightarrow>
     (if axis = ''cases'' \<or> was = None then True
      else \<exists>now. map_of current axis = Some (Some now)
        \<and> (if axis = ''invented_ratio'' then now \<le> the was + tolerance else the was - tolerance \<le> now))"
  by (cases was; cases "map_of current axis"; cases "the (map_of current axis)")
     (auto simp: regressed_def algebra_simps)

lemma no_axis_regressed:
  "compare_axes current b tolerance = [] \<longleftrightarrow>
     list_all (\<lambda>(axis, was).
       if axis = ''cases'' \<or> was = None then True
       else \<exists>now. map_of current axis = Some (Some now)
         \<and> (if axis = ''invented_ratio'' then now \<le> the was + tolerance else the was - tolerance \<le> now)) b"
  unfolding compare_axes_def map_is_Nil_conv filter_empty_conv list_all_iff
  by (intro ball_cong refl) (simp only: split_paired_all case_prod_conv axis_kept)

section \<open>Properties\<close>

text \<open>
  C28: Every case gets the first message of its own job: for jobs and cases without repetitions, what is
  collected for a case is the first message with its job's id in the reads before the deadline and
  before one that fails, and nothing if there is none, whatever else is on the stream.
\<close>

theorem collect_first_message:
  assumes "distinct (map fst wanted)" and "distinct (map snd wanted)" and "(job, cid) \<in> set wanted"
  shows "map_of (hv_out (collect wanted reads)) cid
    = List.find (\<lambda>e. mg_job e = Some job) (concat (map the (takeWhile (\<lambda>r. r \<noteq> None) reads)))"
proof -
  have "taken wanted [] \<lparr>hv_wanted = wanted, hv_out = [], hv_acked = []\<rparr>"
    by (simp add: taken_def first_of_def)
  from harvest_first [OF assms this, of reads] show ?thesis by (simp add: collect_def first_of_def)
qed

theorem collect_first_message_witness:
  "let e = \<lparr>mg_id = 1, mg_job = Some [7], mg_payload = Some [1], mg_training = None\<rparr>;
       f = \<lparr>mg_id = 2, mg_job = Some [8], mg_payload = Some [2], mg_training = None\<rparr>
   in map_of (hv_out (collect [([7], [70]), ([8], [80])] [Some [f], Some [e, f], None, Some [e]])) [70] = Some e"
  using collect_first_message [of "[([7], [70]), ([8], [80])]" "[7]" "[70]"] by simp

text \<open>
  C29: The gate opens exactly when it should: the program ends with 0 if and only if there is a case,
  every case has a result that can be scored, and each of them meets the schema, has no invented place,
  keeps its route, breaks no rule where rules apply to it and keeps its times where it has a timetable;
  and the baseline, where one is given, is either being written, or is there and every axis it has a
  value for, the number of cases apart, has been measured this time too and is not worse by more than
  the tolerance, which for the share of invented places means higher and for every other axis lower.
  An axis of the baseline that this run could not measure closes the gate as well.
\<close>

theorem gate_zero_iff:
  "(\<exists>w. eval_main rd tolerance write base entries = Inr (0, w)) \<longleftrightarrow>
     entries \<noteq> [] \<and> (\<exists>scores.
       list_all2 (\<lambda>e sc. \<exists>p. present (fst (snd e)) = Some p \<and> score_case rd (fst e) p (snd (snd e)) = Inr sc
           \<and> (\<exists>n. cs_schema sc = Inr n) \<and> cs_grounded sc \<and> rt_ok (cs_route sc)
           \<and> (if ru_applicable (cs_rules sc) then ru_violations (cs_rules sc) = 0 else True)
           \<and> (if ts_applicable (cs_timeline sc) then ts_ok (cs_timeline sc) else True)) entries scores
       \<and> (base = None \<or> base \<noteq> None \<and> write
          \<or> (\<exists>b. base = Some (Some b)
              \<and> list_all (\<lambda>(axis, was).
                  if axis = ''cases'' \<or> was = None then True
                  else \<exists>now. map_of (summarize_scores scores) axis = Some (Some now)
                    \<and> (if axis = ''invented_ratio'' then now \<le> the was + tolerance
                       else the was - tolerance \<le> now)) b)))"
  unfolding case_passes [symmetric] no_axis_regressed [symmetric] by (rule gate_zero)

end
