(* ===== verification/Gemini.thy ===== *)
theory Gemini
  imports RateLimit StructuredCall Clients
begin

text \<open>
  The client of the model with its limiter: one call of \<open>GeminiClient\<close> in app/clients/agent_clients.py
  waits for a permit of app/llm/rate_limit.py before it sends, and all calls of all processes share the
  store of the limiter. The calls are the members of a fleet; each asks the store again and again until
  it may send, is refused or is interrupted. With a permit it calls the library once, and the library
  makes one HTTP request or, where the retry options the client was built with allow it, several: the
  limiter does not count those. Which call moves next, when its request reaches the store, and what the
  store and the model answer is not determined.
\<close>

section \<open>One call\<close>

text \<open>\<open>asyncio.wait_for\<close> around something that takes a time and has an outcome.\<close>

definition wait_for :: "real \<Rightarrow> real \<times> (pyexn + 'a) \<Rightarrow> pyexn + 'a" where
  "wait_for timeout tr = (if timeout < fst tr then Inl AsyncTimeoutError else snd tr)"

definition waiting_time :: "real \<Rightarrow> real \<times> (pyexn + 'a) \<Rightarrow> real" where
  "waiting_time timeout tr = min timeout (fst tr)"

text \<open>
  The reply to a prompt, before its body is validated: the permit, where there is a limiter, and then
  the request. \<open>answers\<close>: what the script answers to this call in turn.
\<close>

definition model_reply ::
    "limiter option \<Rightarrow> (nat \<Rightarrow> pyexn + verdict) \<Rightarrow> real \<Rightarrow> real \<times> (pyexn + reply) \<Rightarrow> pyexn + reply" where
  "model_reply limit answers timeout tr =
     (case limit of
        None \<Rightarrow> wait_for timeout tr
      | Some L \<Rightarrow> bindE (fst (acquire L answers)) (\<lambda>_. wait_for timeout tr))"

text \<open>The seconds it takes, apart from the requests to the store.\<close>

definition model_time ::
    "limiter option \<Rightarrow> (nat \<Rightarrow> pyexn + verdict) \<Rightarrow> real \<Rightarrow> real \<times> (pyexn + reply) \<Rightarrow> real" where
  "model_time limit answers timeout tr =
     (case limit of
        None \<Rightarrow> waiting_time timeout tr
      | Some L \<Rightarrow>
          (case acquire L answers of
             (Inl e, ws) \<Rightarrow> sum_list ws
           | (Inr _, ws) \<Rightarrow> sum_list ws + waiting_time timeout tr))"

text \<open>An environment whose model is this client: the calls of a job are numbered by its ledger.\<close>

definition with_limiter ::
    "limiter option \<Rightarrow> (nat \<Rightarrow> nat \<Rightarrow> pyexn + verdict) \<Rightarrow> real
     \<Rightarrow> (nat \<Rightarrow> pystr \<Rightarrow> pystr \<Rightarrow> real \<times> (pyexn + reply)) \<Rightarrow> env \<Rightarrow> env" where
  "with_limiter limit answers timeout transport E =
     E\<lparr>en_model := (\<lambda>call system prompt.
          model_reply limit (answers call) timeout (transport call system prompt))\<rparr>"

text \<open>A text without a schema; it asks for no permit.\<close>

definition generate_text :: "real \<Rightarrow> real \<times> (pyexn + reply) \<Rightarrow> pyexn + pystr" where
  "generate_text timeout tr =
     bindE (wait_for timeout tr) (\<lambda>r. Inr (case ry_text r of None \<Rightarrow> [] | Some t \<Rightarrow> t))"

section \<open>The fleet\<close>

text \<open>
  How many HTTP requests the library makes for one call at most: \<open>attempts\<close> of the retry options counts
  the first one too, and without retry options there is no other.
\<close>

definition library_attempts :: "http_options option \<Rightarrow> nat" where
  "library_attempts options =
     (case options of
        None \<Rightarrow> 1
      | Some opts \<Rightarrow> (case ho_retry opts of None \<Rightarrow> 1 | Some r \<Rightarrow> nat (rt_attempts r)))"

datatype phase =
    Asking real        \<comment> \<open>the seconds waited so far\<close>
  | Sending            \<comment> \<open>has its permit\<close>
  | Calling nat        \<comment> \<open>in the library, with the HTTP requests made so far\<close>
  | Refused pyexn
  | Stopped            \<comment> \<open>by an exception of the store or a cancellation\<close>
  | Answered           \<comment> \<open>the library returned, raised or ran out of time\<close>

text \<open>One turn of the loop of \<open>acquire\<close>.\<close>

definition after_verdict :: "limiter \<Rightarrow> real \<Rightarrow> verdict \<Rightarrow> phase" where
  "after_verdict L waited v =
     (case acquire_turn L waited v of
        Go \<Rightarrow> Sending | GiveUp e \<Rightarrow> Refused e | SleepFor w \<Rightarrow> Asking (waited + w))"

record fleet =
  ft_store :: rl_store
  ft_phase :: "nat \<Rightarrow> phase"
  ft_asked :: "(nat \<times> script_call \<times> verdict) list"   \<comment> \<open>what the store has run, in its order\<close>
  ft_called :: "nat list"                              \<comment> \<open>the calls of the library\<close>
  ft_requests :: "nat list"                            \<comment> \<open>the HTTP requests, by the call they belong to\<close>

definition new_fleet :: "rl_store \<Rightarrow> fleet" where
  "new_fleet st =
     \<lparr>ft_store = st, ft_phase = \<lambda>_. Asking 0, ft_asked = [], ft_called = [], ft_requests = []\<rparr>"

definition live_phase :: "phase \<Rightarrow> bool" where
  "live_phase p \<longleftrightarrow>
     (case p of Asking w \<Rightarrow> True | Sending \<Rightarrow> True | Calling n \<Rightarrow> True | _ \<Rightarrow> False)"

text \<open>\<open>att\<close>: the requests the library makes for one call at most.\<close>

inductive fleet_step :: "limiter \<Rightarrow> nat \<Rightarrow> fleet \<Rightarrow> fleet \<Rightarrow> bool" for L att where
  ask: "ft_phase s i = Asking w \<Longrightarrow> call_script L c (ft_store s) = (v, st) \<Longrightarrow>
    fleet_step L att s (s\<lparr>ft_store := st, ft_phase := (ft_phase s)(i := after_verdict L w v),
      ft_asked := ft_asked s @ [(i, c, v)]\<rparr>)"
| unheard: "ft_phase s i = Asking w \<Longrightarrow> call_script L c (ft_store s) = (v, st) \<Longrightarrow>
    fleet_step L att s (s\<lparr>ft_store := st, ft_phase := (ft_phase s)(i := Stopped),
      ft_asked := ft_asked s @ [(i, c, v)]\<rparr>)"
| stop: "live_phase (ft_phase s i) \<Longrightarrow> fleet_step L att s (s\<lparr>ft_phase := (ft_phase s)(i := Stopped)\<rparr>)"
| call: "ft_phase s i = Sending \<Longrightarrow>
    fleet_step L att s (s\<lparr>ft_phase := (ft_phase s)(i := Calling 0), ft_called := ft_called s @ [i]\<rparr>)"
| request: "ft_phase s i = Calling n \<Longrightarrow> n < att \<Longrightarrow>
    fleet_step L att s (s\<lparr>ft_phase := (ft_phase s)(i := Calling (Suc n)),
      ft_requests := ft_requests s @ [i]\<rparr>)"
| finish: "ft_phase s i = Calling n \<Longrightarrow>
    fleet_step L att s (s\<lparr>ft_phase := (ft_phase s)(i := Answered)\<rparr>)"

inductive fleet_reaches :: "limiter \<Rightarrow> nat \<Rightarrow> rl_store \<Rightarrow> fleet \<Rightarrow> bool" for L att st where
  start: "fleet_reaches L att st (new_fleet st)"
| more: "fleet_reaches L att st s \<Longrightarrow> fleet_step L att s s' \<Longrightarrow> fleet_reaches L att st s'"

text \<open>The calls the store has run, with their verdicts, and those of one member.\<close>

definition asked_calls :: "fleet \<Rightarrow> script_call list" where
  "asked_calls s = map (fst \<circ> snd) (ft_asked s)"

definition asked_verdicts :: "fleet \<Rightarrow> verdict list" where
  "asked_verdicts s = map (snd \<circ> snd) (ft_asked s)"

definition seen :: "fleet \<Rightarrow> nat \<Rightarrow> verdict list" where
  "seen s i = map (snd \<circ> snd) (filter (\<lambda>a. fst a = i) (ft_asked s))"

definition granted_to :: "fleet \<Rightarrow> nat list" where
  "granted_to s = map fst (filter (\<lambda>a. snd (snd a) = Granted) (ft_asked s))"

section \<open>Lemmas\<close>

text \<open>The store sees the calls as one sequence.\<close>

lemma call_scripts_snoc:
  "call_scripts L (cs @ [c]) st =
     (let (vs, st1) = call_scripts L cs st; (v, st2) = call_script L c st1 in (vs @ [v], st2))"
  by (induction cs arbitrary: st) (auto split: prod.splits)

lemma fleet_serial:
  "fleet_reaches L att st s \<Longrightarrow> call_scripts L (asked_calls s) st = (asked_verdicts s, ft_store s)"
proof (induction rule: fleet_reaches.induct)
  case start
  show ?case by (simp add: asked_calls_def asked_verdicts_def new_fleet_def)
next
  case (more s s')
  from more.hyps(2) more.IH show ?case
    by cases (auto simp: asked_calls_def asked_verdicts_def call_scripts_snoc)
qed

lemma grants_granted_to: "grants (asked_verdicts s) = length (granted_to s)"
  by (simp add: grants_def asked_verdicts_def granted_to_def filter_map comp_def)

text \<open>Every call of the library is paid for by a grant of its own.\<close>

definition paid :: "fleet \<Rightarrow> bool" where
  "paid s \<longleftrightarrow> (\<forall>i. count_list (ft_called s) i + (if ft_phase s i = Sending then 1 else 0)
     \<le> count_list (granted_to s) i)"

lemma after_verdict_cases:
  "after_verdict L w v = Sending \<longleftrightarrow> v = Granted"
  "after_verdict L w v = Refused e \<longleftrightarrow> acquire_turn L w v = GiveUp e"
  "after_verdict L w v = Asking u \<longleftrightarrow> (\<exists>d. acquire_turn L w v = SleepFor d \<and> u = w + d)"
  "after_verdict L w v \<noteq> Calling n" "after_verdict L w v \<noteq> Answered" "after_verdict L w v \<noteq> Stopped"
proof -
  have "after_verdict L w v = Sending \<longleftrightarrow> acquire_turn L w v = Go"
    by (simp add: after_verdict_def split: loop_turn.split)
  then show "after_verdict L w v = Sending \<longleftrightarrow> v = Granted" by (simp only: acquire_turn_cases)
qed (auto simp: after_verdict_def split: loop_turn.splits)

lemma count_list_snoc: "count_list (xs @ [y]) x = count_list xs x + (if x = y then 1 else 0)"
  by (induction xs) auto

lemma fleet_step_paid:
  assumes "fleet_step L att s s'" and "paid s"
  shows "paid s'"
proof -
  have "count_list (ft_called s') j + (if ft_phase s' j = Sending then 1 else 0) \<le> count_list (granted_to s') j" for j
  proof -
    from assms(2) have "count_list (ft_called s) j + (if ft_phase s j = Sending then 1 else 0)
        \<le> count_list (granted_to s) j" by (simp add: paid_def)
    with assms(1) show ?thesis
      by cases (auto simp: granted_to_def after_verdict_cases count_list_snoc split: if_splits)
  qed
  then show ?thesis by (simp add: paid_def)
qed

lemma fleet_paid: "fleet_reaches L att st s \<Longrightarrow> paid s"
proof (induction rule: fleet_reaches.induct)
  case start
  show ?case by (simp add: new_fleet_def paid_def granted_to_def)
qed (rule fleet_step_paid)

lemma count_list_mset: "count (mset xs) x = count_list xs x"
  by (induction xs) auto

lemma called_granted:
  assumes "fleet_reaches L att st s"
  shows "length (ft_called s) \<le> grants (asked_verdicts s)"
proof -
  have "count_list (ft_called s) i \<le> count_list (granted_to s) i" for i
    using fleet_paid [OF assms] by (auto simp: paid_def dest: spec [of _ i])
  then have "mset (ft_called s) \<subseteq># mset (granted_to s)"
    by (intro mset_subset_eqI) (simp add: count_list_mset)
  then show ?thesis by (metis size_mset_mono size_mset grants_granted_to)
qed

text \<open>
  A member calls the library once at most; its requests are those of that call, never more than the
  library makes for one.
\<close>

definition called_phase :: "phase \<Rightarrow> bool" where
  "called_phase p \<longleftrightarrow> (case p of Calling n \<Rightarrow> True | Answered \<Rightarrow> True | Stopped \<Rightarrow> True | _ \<Rightarrow> False)"

definition requests_ok :: "nat \<Rightarrow> fleet \<Rightarrow> bool" where
  "requests_ok att s \<longleftrightarrow> distinct (ft_called s) \<and> (\<forall>i \<in> set (ft_called s). called_phase (ft_phase s i))
     \<and> (\<forall>i n. ft_phase s i = Calling n \<longrightarrow> i \<in> set (ft_called s) \<and> count_list (ft_requests s) i = n)
     \<and> (\<forall>i. count_list (ft_requests s) i \<le> att)
     \<and> set (ft_requests s) \<subseteq> set (ft_called s)"

lemma fleet_requests: "fleet_reaches L att st s \<Longrightarrow> requests_ok att s"
proof (induction rule: fleet_reaches.induct)
  case (more s s')
  from more.hyps(2) more.IH show ?case
  proof cases
    case (ask i w c v st1)
    with more.IH show ?thesis
      by (auto simp: requests_ok_def called_phase_def after_verdict_cases split: if_splits phase.splits)
  next
    case (call i)
    with more.IH have "i \<notin> set (ft_called s)" by (auto simp: requests_ok_def called_phase_def)
    moreover from this more.IH have "count_list (ft_requests s) i = 0"
      by (auto simp: requests_ok_def count_list_0_iff)
    ultimately show ?thesis using call more.IH
      by (auto simp: requests_ok_def called_phase_def split: if_splits phase.splits)
  next
    case (request i n)
    with more.IH show ?thesis
      by (auto simp: requests_ok_def called_phase_def count_list_snoc split: if_splits)
  qed (auto simp: requests_ok_def called_phase_def live_phase_def split: if_splits phase.splits)
qed (simp add: new_fleet_def requests_ok_def)

lemma length_by_count:
  assumes "\<forall>i. count_list ys i \<le> n" and "set ys \<subseteq> set xs"
  shows "length ys \<le> n * length xs"
proof -
  have "length ys = sum (count_list ys) (set ys)" by (simp add: sum_count_set)
  also have "\<dots> \<le> sum (\<lambda>_. n) (set ys)" using assms(1) by (intro sum_mono) simp
  also have "\<dots> \<le> n * length xs"
    using card_mono [OF finite_set assms(2)] card_length [of xs] by (simp add: mult.commute)
  finally show ?thesis .
qed

lemma requests_bounded:
  assumes "fleet_reaches L att st s"
  shows "length (ft_requests s) \<le> att * length (ft_called s)"
  using fleet_requests [OF assms] by (intro length_by_count) (auto simp: requests_ok_def)

text \<open>
  What the verdicts of a member say about it. \<open>waits\<close>: all of them asked to wait; \<open>total_wait\<close>: the
  seconds they asked for, each a twentieth at least.
\<close>

definition waits :: "verdict list \<Rightarrow> bool" where
  "waits vs \<longleftrightarrow> (\<forall>v \<in> set vs. \<exists>ms. v = WaitFor ms)"

definition total_wait :: "verdict list \<Rightarrow> real" where
  "total_wait vs = sum_list (map (\<lambda>v. case v of WaitFor ms \<Rightarrow> max (1 / 20) (ms / 1000) | _ \<Rightarrow> 0) vs)"

lemma waits_simps [simp]:
  "waits []" "waits (us @ vs) \<longleftrightarrow> waits us \<and> waits vs" "waits [WaitFor ms]" "\<not> waits [Granted]" "\<not> waits [DailyCap]"
  by (auto simp: waits_def)

lemma total_wait_simps [simp]:
  "total_wait [] = 0" "total_wait (us @ vs) = total_wait us + total_wait vs"
  "total_wait [WaitFor ms] = max (1 / 20) (ms / 1000)"
  by (simp_all add: total_wait_def)

definition phase_of_verdicts :: "limiter \<Rightarrow> verdict list \<Rightarrow> phase \<Rightarrow> bool" where
  "phase_of_verdicts L vs p \<longleftrightarrow>
     (case p of
        Asking w \<Rightarrow> waits vs \<and> w = total_wait vs \<and> (vs = [] \<or> w \<le> lm_max_wait L)
      | Refused e \<Rightarrow> (\<exists>us v. vs = us @ [v] \<and> waits us \<and> (us = [] \<or> total_wait us \<le> lm_max_wait L)
          \<and> (if v = DailyCap then e = GeminiQuotaError (lit ''gemini_rpd_exceeded'')
             else waits [v] \<and> lm_max_wait L < total_wait vs
               \<and> e = GeminiQuotaError (lit ''gemini_rpm_exceeded'')))
      | Stopped \<Rightarrow> vs = [] \<or> waits (butlast vs) \<and> (butlast vs = [] \<or> total_wait (butlast vs) \<le> lm_max_wait L)
      | _ \<Rightarrow> (\<exists>us. vs = us @ [Granted] \<and> waits us \<and> (us = [] \<or> total_wait us \<le> lm_max_wait L)))"

lemma turn_phase:
  assumes "phase_of_verdicts L vs (Asking w)"
  shows "phase_of_verdicts L (vs @ [v]) (after_verdict L w v)"
proof (cases "acquire_turn L w v")
  case Go
  then have "v = Granted" by (simp only: acquire_turn_cases)
  moreover from Go have "after_verdict L w v = Sending" by (simp add: after_verdict_def)
  ultimately show ?thesis using assms by (auto simp: phase_of_verdicts_def)
next
  case (GiveUp e)
  then have "after_verdict L w v = Refused e" by (simp add: after_verdict_def)
  moreover have "v = DailyCap \<and> e = GeminiQuotaError (lit ''gemini_rpd_exceeded'')
      \<or> (\<exists>ms. v = WaitFor ms \<and> lm_max_wait L < w + max (1 / 20) (ms / 1000)
          \<and> e = GeminiQuotaError (lit ''gemini_rpm_exceeded''))"
    using GiveUp acquire_turn_cases(2) by blast
  ultimately show ?thesis using assms by (auto simp: phase_of_verdicts_def)
next
  case (SleepFor d)
  then have "after_verdict L w v = Asking (w + d)" by (simp add: after_verdict_def)
  moreover obtain ms where "v = WaitFor ms" "d = max (1 / 20) (ms / 1000)" "w + d \<le> lm_max_wait L"
    using SleepFor acquire_turn_cases(3) by blast
  ultimately show ?thesis using assms by (simp add: phase_of_verdicts_def)
qed

lemma total_wait_butlast: "total_wait (butlast vs) \<le> total_wait vs"
  by (cases vs rule: rev_cases) (auto simp: total_wait_def max_def split: verdict.splits)

lemma stopped_phase:
  assumes "phase_of_verdicts L vs p" and "live_phase p"
  shows "phase_of_verdicts L vs Stopped"
proof (cases p)
  case (Asking w)
  then show ?thesis using assms(1) total_wait_butlast [of vs]
    by (auto simp: phase_of_verdicts_def waits_def dest: in_set_butlastD)
qed (use assms in \<open>auto simp: phase_of_verdicts_def live_phase_def\<close>)

lemma seen_snoc: "seen (s\<lparr>ft_store := st, ft_phase := ph, ft_asked := ft_asked s @ [(j, c, v)]\<rparr>) i =
    seen s i @ (if j = i then [v] else [])"
  by (simp add: seen_def)

lemma fleet_phases:
  "fleet_reaches L att st s \<Longrightarrow> phase_of_verdicts L (seen s i) (ft_phase s i)"
proof (induction rule: fleet_reaches.induct)
  case start
  show ?case by (simp add: phase_of_verdicts_def new_fleet_def seen_def)
next
  case (more s s')
  from more.hyps(2) show ?case
  proof cases
    case (ask j w c v st1)
    with more.IH show ?thesis
      by (cases "j = i") (auto simp: seen_snoc intro: turn_phase)
  next
    case (unheard j w c v st1)
    with more.IH show ?thesis by (cases "j = i") (auto simp: seen_snoc phase_of_verdicts_def)
  next
    case (stop j)
    with more.IH show ?thesis by (cases "j = i") (auto simp: seen_def intro: stopped_phase)
  next
    case (call j)
    with more.IH show ?thesis by (cases "j = i") (auto simp: seen_def phase_of_verdicts_def)
  next
    case (request j n)
    with more.IH show ?thesis by (cases "j = i") (auto simp: seen_def phase_of_verdicts_def)
  next
    case (finish j n)
    with more.IH show ?thesis by (cases "j = i") (auto simp: seen_def phase_of_verdicts_def)
  qed
qed

lemma model_time_le:
  "0 \<le> timeout \<Longrightarrow> model_time limit answers timeout tr
     \<le> (case limit of None \<Rightarrow> 0 | Some L \<Rightarrow> max 0 (lm_max_wait L)) + timeout"
proof (cases limit)
  case (Some L)
  assume t: "0 \<le> timeout"
  obtain r ws where run: "acquire_loop L answers 0 0 = (r, ws)" by fastforce
  then have "sum_list ws \<le> max 0 (lm_max_wait L)" using acquire_loop_trace [OF run] by simp
  then show ?thesis using t
    by (auto simp: model_time_def Some acquire_def run waiting_time_def split: sum.splits)
qed (simp add: model_time_def waiting_time_def)

text \<open>A call that is refused a permit uses up budget, is not asked again and reaches the caller as it is.\<close>

lemma refused_call:
  assumes "fst (acquire L (answers (Suc (st_llm_used s)))) = Inl (GeminiQuotaError code)" and "st_llm_used s < m"
  shows "call_structured (with_limiter (Some L) answers timeout transport E) parse system prompt m s
    = (Inl (GeminiQuotaError code), s\<lparr>st_llm_used := Suc (st_llm_used s)\<rparr>)"
  using assms
  by (simp add: call_structured_def consume_budget_def call_inner_def generate_structured_def with_limiter_def
      model_reply_def)

section \<open>Properties\<close>

text \<open>
  C6: The library of the model is not called more often than the day allows, however many jobs and
  summaries of however many processes run at once and wherever they are interrupted: while the day's
  counter lives, the calls of the library, added to the calls counted before, stay within the cap, and a
  permit pays for one of them. The HTTP requests are bounded by it too, but not by the cap itself: the
  library repeats a refused request without asking for another permit, so there can be as many for each
  call as the retry options the client was built with allow (three as the settings come, one without
  retry options).
\<close>

theorem model_calls_capped:
  assumes "fleet_reaches L (library_attempts options) st s" and "t < X"
    and "\<forall>c \<in> set (asked_calls s). daily_key L (sc_date c) = key \<and> sc_server c < X
      \<and> X \<le> sc_server c + 1000 * seconds_until_midnight (sc_time c)"
    and "rl_daily st key = None \<or> (\<exists>n x. rl_daily st key = Some (n, x) \<and> X \<le> x)"
    and "0 \<le> daily_count t key st"
  shows "distinct (ft_called s)
    \<and> (ft_called s = [] \<or> daily_count t key st + int (length (ft_called s)) \<le> lm_cap L)
    \<and> set (ft_requests s) \<subseteq> set (ft_called s)
    \<and> (\<forall>i. count_list (ft_requests s) i \<le> library_attempts options)
    \<and> (ft_called s = [] \<or> int (length (ft_requests s))
         \<le> int (library_attempts options) * (lm_cap L - daily_count t key st))"
proof -
  note count = call_scripts_count [OF fleet_serial [OF assms(1)] assms(2-5)]
  have "ft_called s = [] \<or> grants (asked_verdicts s) \<noteq> 0" using called_granted [OF assms(1)] by auto
  then have cap: "ft_called s = [] \<or> daily_count t key st + int (length (ft_called s)) \<le> lm_cap L"
    using count called_granted [OF assms(1)] by auto
  moreover have "int (length (ft_requests s)) \<le> int (library_attempts options) * int (length (ft_called s))"
    using requests_bounded [OF assms(1)] by (simp flip: of_nat_mult)
  moreover have "int (library_attempts options) * int (length (ft_called s))
      \<le> int (library_attempts options) * (lm_cap L - daily_count t key st)" if "ft_called s \<noteq> []"
    using cap that by (intro mult_left_mono) auto
  ultimately show ?thesis
    using fleet_requests [OF assms(1)] unfolding requests_ok_def by (meson order_trans)
qed

text \<open>
  A fleet of which one member has called the library, which with three attempts made two requests.
\<close>

lemma small_fleet:
  "\<exists>s. fleet_reaches default_limiter 3 empty_store s \<and> ft_called s = [7] \<and> asked_calls s = [morning_call 0]
     \<and> seen s 7 = [Granted] \<and> ft_phase s 7 = Answered \<and> ft_requests s = [7, 7]"
proof -
  let ?L = "default_limiter" and ?s = "new_fleet empty_store"
  let ?R = "fleet_reaches ?L 3 empty_store"
  obtain v st where ask: "call_script ?L (morning_call 0) empty_store = (v, st)" by fastforce
  then have v: "v = Granted"
    by (auto simp: call_script_def lua_acquire_def default_limiter_def daily_count_def live_counter_def
        empty_store_def refilled_def Let_def split: if_splits)
  let ?s1 = "?s\<lparr>ft_store := st, ft_phase := (ft_phase ?s)(7 := after_verdict ?L 0 v),
    ft_asked := ft_asked ?s @ [(7, morning_call 0, v)]\<rparr>"
  let ?s2 = "?s1\<lparr>ft_phase := (ft_phase ?s1)(7 := Calling 0), ft_called := ft_called ?s1 @ [7]\<rparr>"
  let ?s3 = "?s2\<lparr>ft_phase := (ft_phase ?s2)(7 := Calling (Suc 0)), ft_requests := ft_requests ?s2 @ [7]\<rparr>"
  let ?s4 = "?s3\<lparr>ft_phase := (ft_phase ?s3)(7 := Calling (Suc (Suc 0))), ft_requests := ft_requests ?s3 @ [7]\<rparr>"
  let ?s5 = "?s4\<lparr>ft_phase := (ft_phase ?s4)(7 := Answered)\<rparr>"
  have "?R ?s" by (rule fleet_reaches.start)
  moreover have "fleet_step ?L 3 ?s ?s1" by (rule fleet_step.ask) (use ask in \<open>simp_all add: new_fleet_def\<close>)
  ultimately have "?R ?s1" by (rule fleet_reaches.more)
  moreover have "fleet_step ?L 3 ?s1 ?s2" by (rule fleet_step.call) (simp add: v after_verdict_cases)
  ultimately have "?R ?s2" by (rule fleet_reaches.more)
  moreover have "fleet_step ?L 3 ?s2 ?s3" by (rule fleet_step.request) simp_all
  ultimately have "?R ?s3" by (rule fleet_reaches.more)
  moreover have "fleet_step ?L 3 ?s3 ?s4" by (rule fleet_step.request) simp_all
  ultimately have "?R ?s4" by (rule fleet_reaches.more)
  moreover have "fleet_step ?L 3 ?s4 ?s5" by (rule fleet_step.finish) simp
  ultimately have "?R ?s5" by (rule fleet_reaches.more)
  then show ?thesis
    by (intro exI conjI) (assumption, simp_all add: new_fleet_def asked_calls_def seen_def v)
qed

text \<open>The options the client is built with as its settings come.\<close>

definition default_options :: "http_options option" where
  "default_options = Some \<lparr>ho_timeout_ms = Some 30000,
     ho_retry = Some \<lparr>rt_attempts = 3, rt_initial = 1, rt_max = 8, rt_codes = [503, 500]\<rparr>\<rparr>"

lemma default_attempts: "library_attempts default_options = 3"
  by (simp add: library_attempts_def default_options_def)

theorem model_calls_capped_witness:
  "\<exists>s. fleet_reaches default_limiter (library_attempts default_options) empty_store s
     \<and> ft_called s = [7] \<and> ft_requests s = [7, 7] \<and> int (length (ft_called s)) \<le> 200
     \<and> int (length (ft_requests s)) \<le> 600"
proof -
  obtain s where s: "fleet_reaches default_limiter (library_attempts default_options) empty_store s"
    "ft_called s = [7]" "asked_calls s = [morning_call 0]" "ft_requests s = [7, 7]"
    using small_fleet default_attempts by metis
  have "seconds_until_midnight (Time 9 0 0 0) = 54000"
    by (simp add: seconds_until_midnight_def micro_of_day_def)
  then have "(ft_called s = [] \<or> int (length (ft_called s)) \<le> 200)
      \<and> (ft_called s = [] \<or> int (length (ft_requests s)) \<le> 600)"
    using model_calls_capped [OF s(1), of 0 1 "daily_key default_limiter (Date 2026 3 1)"] s(3)
    by (simp add: morning_call_def empty_store_def daily_count_def live_counter_def default_limiter_def
        default_attempts)
  with s show ?thesis by auto
qed

text \<open>
  C16: Nor faster than the bucket refills: with clocks that do not run backwards, the calls of the
  library made so far are at most the capacity and what the time between the first and the last question
  to the store earns, up to the rounding of the stored texts; the HTTP requests are at most the attempts
  of the retry options times that.
\<close>

theorem model_calls_paced:
  fixes e :: real
  assumes "fleet_reaches L (library_attempts options) st s" and "asked_calls s = c # cs"
    and "bucket_ok (sc_client c) st" and "sorted (map sc_client (c # cs))" and "0 \<le> lm_refill L"
    and "0 \<le> lm_capacity L" and "\<forall>x. \<bar>lm_keep L x - x\<bar> \<le> e"
  shows "length (ft_called s) \<le> lm_capacity L
      + (sc_client (last (c # cs)) - sc_client c) * lm_refill L / 60000 + e * length (c # cs)
    \<and> length (ft_requests s) \<le> library_attempts options * (lm_capacity L
      + (sc_client (last (c # cs)) - sc_client c) * lm_refill L / 60000 + e * length (c # cs))"
proof -
  have "real (grants (asked_verdicts s)) \<le> max 0 (refilled L (sc_client c) st)
      + earned L (sc_client c) (sc_client (last (c # cs))) + e * (length cs + 1)"
    using call_scripts_grants [OF _ assms(3-5,7)] fleet_serial [OF assms(1)] assms(2) by metis
  then have calls: "length (ft_called s) \<le> lm_capacity L
      + (sc_client (last (c # cs)) - sc_client c) * lm_refill L / 60000 + e * length (c # cs)"
    using called_granted [OF assms(1)] refilled_capacity [of L "sc_client c" st] assms(6)
    by (simp add: earned_def max_def split: if_splits)
  have "real (length (ft_requests s)) \<le> library_attempts options * real (length (ft_called s))"
    using requests_bounded [OF assms(1)] by (simp flip: of_nat_mult)
  also have "\<dots> \<le> library_attempts options * (lm_capacity L
      + (sc_client (last (c # cs)) - sc_client c) * lm_refill L / 60000 + e * length (c # cs))"
    using calls by (intro mult_left_mono) simp_all
  finally show ?thesis using calls by blast
qed

theorem model_calls_paced_witness:
  "\<exists>s. fleet_reaches default_limiter (library_attempts default_options) empty_store s \<and> ft_called s = [7]
     \<and> length (ft_called s) \<le> (10 :: real) \<and> length (ft_requests s) \<le> (30 :: real)"
proof -
  obtain s where s: "fleet_reaches default_limiter (library_attempts default_options) empty_store s"
    "ft_called s = [7]" "asked_calls s = [morning_call 0]"
    using small_fleet default_attempts by metis
  have "real (length (ft_called s)) \<le> 10 \<and> real (length (ft_requests s)) \<le> 30"
    using model_calls_paced [OF s(1,3), of 0]
    by (simp add: bucket_ok_def empty_store_def default_limiter_def default_attempts)
  with s show ?thesis by blast
qed

text \<open>
  C7: Among all the others, what a call has done so far is what the answers the store gave to it alone
  say. While it asks, every answer told it to wait, the seconds it counts are the sum of those waits
  (each a twentieth at least), and they are within the bound. It has its permit, is in the library or is
  done only after such waits and then one grant. It was refused after such waits either with
  \<open>gemini_rpd_exceeded\<close>, when the last answer was that the day's cap is reached, or with
  \<open>gemini_rpm_exceeded\<close>, when the last answer asked for a wait that takes the sum over the bound. A call
  that was stopped has had at most one answer after such waits.
\<close>

theorem calls_follow_verdicts:
  assumes "fleet_reaches L att st s"
  shows "case ft_phase s i of
      Asking w \<Rightarrow> waits (seen s i) \<and> w = total_wait (seen s i) \<and> (seen s i = [] \<or> w \<le> lm_max_wait L)
    | Refused e \<Rightarrow> (\<exists>us v. seen s i = us @ [v] \<and> waits us \<and> (us = [] \<or> total_wait us \<le> lm_max_wait L)
        \<and> (if v = DailyCap then e = GeminiQuotaError (lit ''gemini_rpd_exceeded'')
           else waits [v] \<and> lm_max_wait L < total_wait (seen s i)
             \<and> e = GeminiQuotaError (lit ''gemini_rpm_exceeded'')))
    | Stopped \<Rightarrow> seen s i = [] \<or> waits (butlast (seen s i))
        \<and> (butlast (seen s i) = [] \<or> total_wait (butlast (seen s i)) \<le> lm_max_wait L)
    | _ \<Rightarrow> (\<exists>us. seen s i = us @ [Granted] \<and> waits us \<and> (us = [] \<or> total_wait us \<le> lm_max_wait L))"
  using fleet_phases [OF assms, of i] unfolding phase_of_verdicts_def .

theorem calls_follow_verdicts_witness:
  "\<exists>s. fleet_reaches default_limiter 3 empty_store s \<and> ft_phase s 7 = Answered
     \<and> (\<exists>us. seen s 7 = us @ [Granted] \<and> waits us)"
proof -
  obtain s where s: "fleet_reaches default_limiter 3 empty_store s" "ft_phase s 7 = Answered"
    using small_fleet by blast
  from calls_follow_verdicts [OF s(1), of 7] s show ?thesis by auto
qed

end
