(* ===== verification/Progress.thy ===== *)
theory Progress
  imports Pipeline Lifecycle Clients "HOL-Library.Sublist"
begin

text \<open>
  The progress events of a job: every node but the last begins with \<open>_emit_stage\<close> of
  app/nodes/agent_nodes.py, which hands its name to the status publisher and swallows what goes wrong.
  The run of the graph is repeated here with these events; what the stream answers to the events and the
  time they bear are arguments.
\<close>

section \<open>Events\<close>

fun stage_name :: "node_name \<Rightarrow> pystr" where
  "stage_name ParseInput = lit ''parse_input''"
| "stage_name FetchWeather = lit ''fetch_weather''"
| "stage_name PlanStrategy = lit ''plan_strategy''"
| "stage_name LoadGivenPlaces = lit ''load_given_places''"
| "stage_name SearchPlaces = lit ''search_places''"
| "stage_name RulesFilter = lit ''rules_filter''"
| "stage_name ScoreAndRank = lit ''score_and_rank''"
| "stage_name RecommendPlaces = lit ''recommend_places''"
| "stage_name RecommendRoute = lit ''recommend_route''"
| "stage_name BuildTimeline = lit ''build_timeline''"
| "stage_name FitTimeBudget = lit ''fit_time_budget''"
| "stage_name LlmReason = lit ''llm_reason''"
| "stage_name BuildPayload = lit ''build_payload''"
| "stage_name PublishDone = lit ''publish_done''"

text \<open>The slots, the settings of the status publisher, and the outcome of adding the event of a node.\<close>

record status =
  su_slots :: slots
  su_stream :: pystr
  su_maxlen :: int
  su_now :: "node_name \<Rightarrow> pystr"
  su_xadd :: "node_name \<Rightarrow> pyexn + unit"

definition emit_stage :: "status \<Rightarrow> agent_state \<Rightarrow> node_name \<Rightarrow> (pyexn + unit) \<times> stream_add list" where
  "emit_stage U s n =
     (let swallowed = (\<lambda>e. if is_exception e then (Inr (), []) else (Inl e, []))
      in case get_status_publisher (su_slots U) of
           Inl e \<Rightarrow> swallowed e
         | Inr publisher \<Rightarrow>
             (case su_xadd U n of
                Inl e \<Rightarrow> swallowed e
              | Inr _ \<Rightarrow>
                  (Inr (), [publish_status (su_stream U) (su_maxlen U) (su_now U n) (st_job s) (stage_name n)])))"

text \<open>A node with its event.\<close>

definition node_reporting ::
    "status \<Rightarrow> env \<Rightarrow> node_name \<Rightarrow> agent_state \<Rightarrow> (pyexn + agent_state) \<times> stream_add list" where
  "node_reporting U E n s =
     (case emit_stage U s n of (Inl e, es) \<Rightarrow> (Inl e, es) | (Inr _, es) \<Rightarrow> (node_of n E s, es))"

function run_reporting ::
    "status \<Rightarrow> publisher \<Rightarrow> env \<Rightarrow> node_name \<Rightarrow> agent_state \<Rightarrow> config \<times> stream_add list" where
  "run_reporting U P E n s =
     (if n = PublishDone
      then (case publish_done P E s of Inl e \<Rightarrow> (Raised e, []) | Inr (p, m) \<Rightarrow> (Published s p m, []))
      else
        (case node_reporting U E n s of
           (Inl e, es) \<Rightarrow> (Raised e, es)
         | (Inr s', es) \<Rightarrow>
             (case run_reporting U P E (edge n s') s' of (c, later) \<Rightarrow> (c, es @ later))))"
  by pat_completeness auto
termination by (relation "measure (\<lambda>(U, P, E, n, s). node_rank n)") (auto intro: edge_rank)

declare run_reporting.simps [simp del]

text \<open>The nodes a run enters, and the order of all nodes.\<close>

function entered :: "publisher \<Rightarrow> env \<Rightarrow> node_name \<Rightarrow> agent_state \<Rightarrow> node_name list" where
  "entered P E n s =
     (if n = PublishDone then [PublishDone]
      else n # (case node_of n E s of Inl e \<Rightarrow> [] | Inr s' \<Rightarrow> entered P E (edge n s') s'))"
  by pat_completeness auto
termination by (relation "measure (\<lambda>(P, E, n, s). node_rank n)") (auto intro: edge_rank)

declare entered.simps [simp del]

definition stage_order :: "node_name list" where
  "stage_order = [ParseInput, FetchWeather, LoadGivenPlaces, PlanStrategy, SearchPlaces, RulesFilter, ScoreAndRank,
     RecommendPlaces, RecommendRoute, BuildTimeline, FitTimeBudget, LlmReason, BuildPayload, PublishDone]"

definition event_stage :: "stream_add \<Rightarrow> pystr option" where
  "event_stage a = map_of (sa_fields a) (lit ''stage'')"

section \<open>Lemmas\<close>

text \<open>What the code catches: everything but a cancellation.\<close>

definition status_tame :: "status \<Rightarrow> bool" where
  "status_tame U \<longleftrightarrow> (\<forall>n e. su_xadd U n = Inl e \<longrightarrow> is_exception e)"

definition heard_of :: "status \<Rightarrow> node_name \<Rightarrow> bool" where
  "heard_of U n \<longleftrightarrow> n \<noteq> PublishDone \<and> dp_status (su_slots U) \<noteq> None \<and> su_xadd U n = Inr ()"

definition stage_event :: "status \<Rightarrow> pystr \<Rightarrow> node_name \<Rightarrow> stream_add" where
  "stage_event U job n = publish_status (su_stream U) (su_maxlen U) (su_now U n) job (stage_name n)"

lemma emit_stage_tame:
  "status_tame U \<Longrightarrow> n \<noteq> PublishDone \<Longrightarrow>
   emit_stage U s n = (Inr (), map (stage_event U (st_job s)) (filter (heard_of U) [n]))"
  by (auto simp: emit_stage_def status_tame_def heard_of_def stage_event_def get_status_publisher_def from_slot_def
      Let_def is_exception_def split: option.splits sum.splits)

lemma node_keeps_job: "node_of n E s = Inr s' \<Longrightarrow> st_job s' = st_job s"
  using node_tame by (auto simp: tame_def)

lemma run_reporting_tame:
  assumes "status_tame U"
  shows "run_reporting U P E n s
    = (run P E n s, map (stage_event U (st_job s)) (filter (heard_of U) (entered P E n s)))"
proof (induction P E n s rule: run.induct)
  case (1 P E n s)
  show ?case
  proof (cases "n = PublishDone")
    case True
    then show ?thesis
      by (simp add: run_reporting.simps [of U P E] run.simps [of P E] entered.simps [of P E] heard_of_def
          split: sum.splits prod.splits)
  next
    case False
    show ?thesis
    proof (cases "node_of n E s")
      case (Inl e)
      then show ?thesis using False
        by (simp add: run_reporting.simps [of U P E n] run.simps [of P E n] entered.simps [of P E n]
            node_reporting_def emit_stage_tame [OF assms False])
    next
      case (Inr s')
      then show ?thesis using False "1.IH" [OF False Inr] node_keeps_job [OF Inr]
        by (simp add: run_reporting.simps [of U P E n] run.simps [of P E n] entered.simps [of P E n]
            node_reporting_def emit_stage_tame [OF assms False])
    qed
  qed
qed

abbreviation order_from :: "node_name \<Rightarrow> node_name list" where
  "order_from n \<equiv> dropWhile (\<lambda>m. m \<noteq> n) stage_order"

lemma order_from_node: "\<exists>ms. order_from n = n # ms"
  by (cases n) (simp_all add: stage_order_def)

lemma edge_later: "n \<noteq> PublishDone \<Longrightarrow> suffix (order_from (edge n s)) (tl (order_from n))"
  by (cases n)
     (simp_all add: stage_order_def suffix_Cons route_after_def route_after_weather_def route_after_time_budget_def)

lemma entered_order: "subseq (entered P E n s) (order_from n)"
proof (induction P E n s rule: entered.induct)
  case (1 P E n s)
  obtain ms where ms: "order_from n = n # ms" using order_from_node by blast
  show ?case
  proof (cases "\<exists>s'. n \<noteq> PublishDone \<and> node_of n E s = Inr s'")
    case True
    then obtain s' where s': "n \<noteq> PublishDone" "node_of n E s = Inr s'" by blast
    from edge_later [OF s'(1)] have "suffix (order_from (edge n s')) ms" by (simp add: ms)
    then have "subseq (order_from (edge n s')) ms" by (rule suffix_imp_subseq)
    with "1.IH" [OF s'] have "subseq (entered P E (edge n s') s') ms" by (rule subseq_order.order_trans)
    then show ?thesis using s' by (simp add: entered.simps [of P E n] ms)
  next
    case False
    then show ?thesis by (auto simp: entered.simps [of P E n] ms split: sum.splits)
  qed
qed

lemma entered_hd: "\<exists>ns. entered P E n s = n # ns"
  by (simp add: entered.simps [of P E n])

text \<open>A run that publishes has been through the last two nodes.\<close>

lemma entered_published:
  "run P E n s = Published s' p m \<Longrightarrow> n \<noteq> PublishDone \<Longrightarrow> \<exists>ns. entered P E n s = ns @ [BuildPayload, PublishDone]"
proof (induction P E n s rule: run.induct)
  case (1 P E n s)
  from "1.prems" obtain s1 where s1: "node_of n E s = Inr s1"
    by (auto simp: run.simps [of P E n] split: sum.splits)
  have rest: "run P E (edge n s1) s1 = Published s' p m" using "1.prems" s1 by (simp add: run.simps [of P E n])
  have step: "entered P E n s = n # entered P E (edge n s1) s1" using "1.prems" s1 by (simp add: entered.simps [of P E n])
  show ?case
  proof (cases "edge n s1 = PublishDone")
    case True
    then have "n = BuildPayload" using "1.prems"(2)
      by (cases n) (auto simp: route_after_def route_after_weather_def route_after_time_budget_def split: if_splits)
    then show ?thesis using step True by (simp add: entered.simps [of P E PublishDone])
  next
    case False
    from "1.IH" [OF "1.prems"(2) s1 rest this] show ?thesis by (auto simp: step)
  qed
qed

text \<open>
  The way of a job through the graph before its last two nodes, and the positions on it from which a
  failed job may leave it: those of the conditional edges.
\<close>

definition job_nodes :: "request \<Rightarrow> node_name list" where
  "job_nodes r =
     (if rq_stage r = StageRoute
      then [ParseInput, FetchWeather, LoadGivenPlaces, RecommendRoute, BuildTimeline, FitTimeBudget]
      else [ParseInput, FetchWeather, PlanStrategy, SearchPlaces, RulesFilter, ScoreAndRank, RecommendPlaces,
        RecommendRoute, BuildTimeline, FitTimeBudget, LlmReason])"

definition exits :: "request \<Rightarrow> nat set" where
  "exits r = (if rq_stage r = StageRoute then {1, 2, 3, 4, 6} else {1, 2, 7, 8, 10, 11})"

lemma job_edge:
  assumes "i < length (job_nodes r)" and "st_request s = r"
  shows "(Suc i < length (job_nodes r) \<and> edge (job_nodes r ! i) s = job_nodes r ! Suc i)
    \<or> (edge (job_nodes r ! i) s = BuildPayload \<and> Suc i \<in> exits r
        \<and> (has_error s \<or> Suc i = length (job_nodes r)))"
  using assms
  by (auto simp: job_nodes_def exits_def less_Suc_eq nth_Cons' numeral_eq_Suc route_after_def
      route_after_weather_def route_after_time_budget_def split: if_splits)

lemma job_nodes_inner: "i < length (job_nodes r) \<Longrightarrow> job_nodes r ! i \<noteq> PublishDone"
proof -
  have "PublishDone \<notin> set (job_nodes r)" by (simp add: job_nodes_def)
  then show "i < length (job_nodes r) \<Longrightarrow> job_nodes r ! i \<noteq> PublishDone" by (metis nth_mem)
qed

lemma payload_end:
  assumes "run P E BuildPayload s = Published s' p m"
  shows "entered P E BuildPayload s = [BuildPayload, PublishDone]" and "has_error s \<Longrightarrow> has_error s'"
    and "publish_done P E s' = Inr (p, m)"
  using assms node_error [of s BuildPayload E]
  by (auto simp: run.simps [of P E BuildPayload] run.simps [of P E PublishDone]
      entered.simps [of P E BuildPayload] entered.simps [of P E PublishDone] split: sum.splits)

lemma entered_path:
  assumes "run P E (job_nodes r ! i) s = Published s' p m" and "i < length (job_nodes r)" and "st_request s = r"
  shows "\<exists>k. i < k \<and> k \<in> exits r \<and> k \<le> length (job_nodes r)
    \<and> entered P E (job_nodes r ! i) s = drop i (take k (job_nodes r)) @ [BuildPayload, PublishDone]
    \<and> (has_error s' \<or> k = length (job_nodes r)) \<and> publish_done P E s' = Inr (p, m)"
  using assms
proof (induction "length (job_nodes r) - i" arbitrary: i s rule: less_induct)
  case less
  let ?n = "job_nodes r ! i"
  have inner: "?n \<noteq> PublishDone" by (rule job_nodes_inner [OF less.prems(2)])
  with less.prems(1) obtain s1 where s1: "node_of ?n E s = Inr s1"
    by (auto simp: run.simps [of P E ?n] split: sum.splits)
  have rest: "run P E (edge ?n s1) s1 = Published s' p m"
    using less.prems(1) inner s1 by (simp add: run.simps [of P E ?n])
  have step: "entered P E ?n s = ?n # entered P E (edge ?n s1) s1"
    using inner s1 by (simp add: entered.simps [of P E ?n])
  have req: "st_request s1 = r" using node_tame [OF s1] less.prems(3) by (simp add: tame_def)
  from job_edge [OF less.prems(2) req] show ?case
  proof (rule disjE; elim conjE)
    assume next_node: "Suc i < length (job_nodes r)" "edge ?n s1 = job_nodes r ! Suc i"
    have "length (job_nodes r) - Suc i < length (job_nodes r) - i" using next_node(1) by simp
    from less.hyps [OF this rest [unfolded next_node(2)] next_node(1) req]
    obtain k where k: "Suc i < k" "k \<in> exits r" "k \<le> length (job_nodes r)"
      "entered P E (job_nodes r ! Suc i) s1 = drop (Suc i) (take k (job_nodes r)) @ [BuildPayload, PublishDone]"
      "has_error s' \<or> k = length (job_nodes r)" "publish_done P E s' = Inr (p, m)" by blast
    moreover have "drop i (take k (job_nodes r)) = ?n # drop (Suc i) (take k (job_nodes r))"
      using k(1,3) less.prems(2) by (simp flip: Cons_nth_drop_Suc [of i "take k (job_nodes r)"])
    ultimately show ?thesis using step next_node(2) by (intro exI [of _ k]) simp
  next
    assume exit: "edge ?n s1 = BuildPayload" "Suc i \<in> exits r"
      and why: "has_error s1 \<or> Suc i = length (job_nodes r)"
    note payload = payload_end [OF rest [unfolded exit(1)]]
    have "drop i (take (Suc i) (job_nodes r)) = [?n]"
      using less.prems(2) by (simp add: take_Suc_conv_app_nth)
    moreover have "entered P E ?n s = [?n] @ [BuildPayload, PublishDone]"
      using step exit(1) payload(1) by simp
    moreover have "has_error s' \<or> Suc i = length (job_nodes r)" using why payload(2) by blast
    ultimately show ?thesis
      using exit(2) payload(3) less.prems(2) by (intro exI [of _ "Suc i"] conjI) (simp_all only: lessI Suc_leI)
  qed
qed

lemma stage_name_inj: "inj stage_name"
proof (rule injI)
  fix a b assume "stage_name a = stage_name b"
  then show "a = b" by (cases a; cases b) simp_all
qed

lemma stage_event_fields:
  "event_stage (stage_event U job n) = Some (stage_name n)"
  "map_of (sa_fields (stage_event U job n)) (lit ''job_id'') = Some job"
  "map_of (sa_fields (stage_event U job n)) (lit ''status'') = Some (lit ''in_progress'')"
  by (simp_all add: event_stage_def stage_event_def publish_status_def lit_def)

section \<open>Properties\<close>

text \<open>
  C8: What the progress events tell. Whatever the status stream does, short of a cancellation, the job
  comes out as without it. The events bear the job's id, name each stage at most once and in the order of
  the graph, and never the end. When the stream takes them all, the first names \<open>parse_input\<close> and, for
  a job that publishes, the last \<open>build_payload\<close>.
\<close>

theorem progress_reported:
  assumes "status_tame U" and "run_reporting U P E ParseInput (start_state job r) = (c, es)"
  shows "c = run_pipeline P E job r
    \<and> (\<forall>a \<in> set es. map_of (sa_fields a) (lit ''job_id'') = Some job
        \<and> map_of (sa_fields a) (lit ''status'') = Some (lit ''in_progress''))
    \<and> distinct (map event_stage es)
    \<and> (\<exists>ns. subseq ns stage_order \<and> PublishDone \<notin> set ns \<and> map event_stage es = map (Some \<circ> stage_name) ns
        \<and> (dp_status (su_slots U) \<noteq> None \<and> (\<forall>n. su_xadd U n = Inr ()) \<longrightarrow>
            ns \<noteq> [] \<and> hd ns = ParseInput \<and> (\<forall>s p m. c = Published s p m \<longrightarrow> last ns = BuildPayload)))"
proof -
  let ?s = "start_state job r"
  define ns where "ns = filter (heard_of U) (entered P E ParseInput ?s)"
  have job: "st_job ?s = job" by (simp add: start_state_def)
  from assms(2) have c: "c = run P E ParseInput ?s" and es: "es = map (stage_event U job) ns"
    by (simp_all add: run_reporting_tame [OF assms(1)] job ns_def)
  have "stage_order = order_from ParseInput" by (simp add: stage_order_def)
  with entered_order [of P E ParseInput ?s] have sub: "subseq ns stage_order"
    unfolding ns_def by (metis subseq_filter_left subseq_order.order_trans)
  have "distinct stage_order" by (simp add: stage_order_def)
  with sub have dist: "distinct ns" by (auto simp: subseq_conv_nths distinct_nthsI)
  have stages: "map event_stage es = map (Some \<circ> stage_name) ns" by (simp add: es stage_event_fields)
  have "inj (Some \<circ> stage_name)" using stage_name_inj by (simp add: inj_compose)
  then have "distinct (map event_stage es)"
    unfolding stages using dist by (simp add: distinct_map inj_on_subset [of _ UNIV])
  moreover have "ns \<noteq> [] \<and> hd ns = ParseInput \<and> (\<forall>s p m. c = Published s p m \<longrightarrow> last ns = BuildPayload)"
    if up: "dp_status (su_slots U) \<noteq> None" "\<forall>n. su_xadd U n = Inr ()"
  proof -
    have heard: "heard_of U = (\<lambda>n. n \<noteq> PublishDone)" using up by (auto simp: heard_of_def fun_eq_iff)
    obtain ms where "entered P E ParseInput ?s = ParseInput # ms" using entered_hd by blast
    moreover have "last ns = BuildPayload" if "c = Published s p m" for s p m
      using entered_published [of P E ParseInput ?s s p m] that by (auto simp: c ns_def heard)
    ultimately show ?thesis by (simp add: ns_def heard)
  qed
  ultimately show ?thesis
    using sub by (auto simp: c run_pipeline_def es stage_event_fields stages [unfolded es] ns_def heard_of_def
        intro!: exI [of _ ns])
qed

text \<open>A status stream that takes everything, in a process that has started.\<close>

definition open_status :: status where
  "open_status = \<lparr>su_slots = fill_slots reset_all, su_stream = lit ''agent:jobs:status'', su_maxlen = 2000,
     su_now = \<lambda>_. [], su_xadd = \<lambda>_. Inr ()\<rparr>"

theorem progress_reported_witness:
  "\<exists>s p m es. run_reporting open_status plain_publisher dwell_env ParseInput (start_state [7] route_request)
       = (Published s p m, es)
     \<and> hd (map event_stage es) = Some (lit ''parse_input'') \<and> last (map event_stage es) = Some (lit ''build_payload'')"
proof -
  obtain s p m where run: "run_pipeline plain_publisher dwell_env [7] route_request = Published s p m"
    using route_job by blast
  obtain c es where rep: "run_reporting open_status plain_publisher dwell_env ParseInput (start_state [7] route_request)
      = (c, es)" by fastforce
  have tame: "status_tame open_status" by (simp add: status_tame_def open_status_def)
  have up: "dp_status (su_slots open_status) \<noteq> None" "\<forall>n. su_xadd open_status n = Inr ()"
    by (simp_all add: open_status_def)
  from progress_reported [OF tame rep] run up obtain ns where c: "c = Published s p m"
    and ns: "map event_stage es = map (Some \<circ> stage_name) ns" "ns \<noteq> []" "hd ns = ParseInput" "last ns = BuildPayload"
    by auto
  then have "hd (map event_stage es) = Some (lit ''parse_input'')" "last (map event_stage es) = Some (lit ''build_payload'')"
    by (simp_all add: hd_map last_map)
  with rep c show ?thesis by blast
qed

text \<open>
  C11: The way of every job. Where the status stream takes all events, those of a job that publishes name
  exactly the stages of its kind of trip, in this order and each once: with the user's own places the
  places are loaded and routed, otherwise they are planned, searched, filtered, ranked, chosen, routed and
  given reasons, and both are timed, fitted and assembled. A finished job has passed all of them; a failed
  one has left the way at one of its conditional edges, straight to the assembly.
\<close>

theorem job_path:
  assumes "dp_status (su_slots U) \<noteq> None" and "\<forall>n. su_xadd U n = Inr ()"
    and "run_reporting U P E ParseInput (start_state job r) = (Published s p m, es)"
  shows "if rq_stage r = StageRoute
    then \<exists>k. map event_stage es = map (Some \<circ> lit)
           (take k [''parse_input'', ''fetch_weather'', ''load_given_places'', ''recommend_route'',
              ''build_timeline'', ''fit_time_budget''] @ [''build_payload''])
         \<and> k \<in> {1, 2, 3, 4, 6} \<and> (jp_status p = Done \<longrightarrow> k = 6)
    else \<exists>k. map event_stage es = map (Some \<circ> lit)
           (take k [''parse_input'', ''fetch_weather'', ''plan_strategy'', ''search_places'', ''rules_filter'',
              ''score_and_rank'', ''recommend_places'', ''recommend_route'', ''build_timeline'',
              ''fit_time_budget'', ''llm_reason''] @ [''build_payload''])
         \<and> k \<in> {1, 2, 7, 8, 10, 11} \<and> (jp_status p = Done \<longrightarrow> k = 11)"
proof -
  let ?s = "start_state job r"
  have tame: "status_tame U" using assms(2) by (simp add: status_tame_def)
  from assms(3) have run: "run P E ParseInput ?s = Published s p m"
    and es: "es = map (stage_event U job) (filter (heard_of U) (entered P E ParseInput ?s))"
    by (simp_all add: run_reporting_tame [OF tame] start_state_def)
  have start: "job_nodes r ! 0 = ParseInput" "0 < length (job_nodes r)" by (simp_all add: job_nodes_def)
  obtain k where k: "k \<in> exits r"
      "entered P E ParseInput ?s = take k (job_nodes r) @ [BuildPayload, PublishDone]"
      "has_error s \<or> k = length (job_nodes r)" "publish_done P E s = Inr (p, m)"
    using entered_path [of P E r 0 ?s s p m] start run by (auto simp: start_state_def)
  have heard: "heard_of U = (\<lambda>n. n \<noteq> PublishDone)" using assms(1,2) by (auto simp: heard_of_def fun_eq_iff)
  have "filter (\<lambda>n. n \<noteq> PublishDone) (take k (job_nodes r)) = take k (job_nodes r)"
    by (rule filter_True) (auto dest!: in_set_takeD simp: job_nodes_def split: if_splits)
  then have stages: "map event_stage es = map (Some \<circ> stage_name) (take k (job_nodes r) @ [BuildPayload])"
    by (simp add: es k(2) heard stage_event_fields)
  have "jp_status p = Done \<Longrightarrow> \<not> has_error s"
    using k(4) by (auto simp: publish_done_def final_payload_def failed_payload_def bindE_Inr_iff split: if_splits)
  with k(3) have "jp_status p = Done \<Longrightarrow> k = length (job_nodes r)" by blast
  note facts = stages this k(1)
  show ?thesis
  proof (cases "rq_stage r = StageRoute")
    case True
    with facts show ?thesis by (intro if_P [THEN iffD2] exI [of _ k]) (simp_all add: job_nodes_def exits_def flip: take_map)
  next
    case False
    with facts show ?thesis by (intro if_not_P [THEN iffD2] exI [of _ k]) (simp_all add: job_nodes_def exits_def flip: take_map)
  qed
qed

theorem job_path_witness:
  "\<exists>s p m es. run_reporting open_status plain_publisher dwell_env ParseInput (start_state [7] route_request)
       = (Published s p m, es)
     \<and> map event_stage es = map (Some \<circ> lit) [''parse_input'', ''fetch_weather'', ''load_given_places'',
         ''recommend_route'', ''build_timeline'', ''fit_time_budget'', ''build_payload'']"
proof -
  obtain s p m where run: "run_pipeline plain_publisher dwell_env [7] route_request = Published s p m"
    and "done": "jp_status p = Done" using route_job by blast
  have up: "dp_status (su_slots open_status) \<noteq> None" "\<forall>n. su_xadd open_status n = Inr ()"
    by (simp_all add: open_status_def)
  then have "status_tame open_status" by (simp add: status_tame_def)
  with run obtain es where rep: "run_reporting open_status plain_publisher dwell_env ParseInput
      (start_state [7] route_request) = (Published s p m, es)"
    by (simp add: run_reporting_tame run_pipeline_def)
  have "rq_stage route_request = StageRoute" by (simp add: route_request_def)
  with job_path [OF up rep] "done" rep show ?thesis by auto
qed

end
