(* ===== verification/ProcessSetup.thy ===== *)
theory ProcessSetup
  imports Lifecycle Gemini Service Clients
begin

text \<open>
  app/agent_settings.py as a whole and what is made of it: the settings object with its cache, the parts
  of it that the other theories take, the arguments the clients are built from in app/main.py, the
  logging, the liveness answer, and the script app/scripts/gemini_smoke.py. Reading the environment and
  the file of settings is the library's: its outcome is an argument.
\<close>

section \<open>Settings\<close>

record agent_settings =
  as_gemini_api_key :: pystr
  as_gemini_model :: pystr
  as_gemini_rpm_limit :: int
  as_gemini_rpd_limit :: int
  as_gemini_rpd_cap :: int
  as_gemini_max_calls_per_request :: int
  as_gemini_temperature :: real
  as_gemini_max_output_tokens :: int
  as_gemini_thinking_budget :: int
  as_gemini_retry_attempts :: int
  as_gemini_retry_initial_delay :: real
  as_gemini_retry_max_delay :: real
  as_gemini_retry_status_codes :: pystr
  as_gemini_http_timeout_seconds :: real
  as_hub_base_url :: pystr
  as_hub_timeout_seconds :: real
  as_internal_service_token :: "pystr option"
  as_location_wire_key :: pystr
  as_auth_enforced :: bool
  as_reviews_enrich_enabled :: bool
  as_reviews_max_places :: int
  as_reviews_display :: int
  as_reviews_fetch_cap_per_job :: int
  as_summary_enabled :: bool
  as_summary_max_places :: int
  as_summary_max_llm_calls :: int
  as_candidates_max_base :: int
  as_candidates_per_day :: int
  as_personalization_enabled :: bool
  as_training_capture_enabled :: bool
  as_segment_stats_path :: pystr
  as_rules_enabled :: bool
  as_timeline_enabled :: bool
  as_timeline_buffer_minutes :: int
  as_redis_url :: pystr
  as_redis_db_streams :: int
  as_redis_db_ratelimit :: int
  as_stream_name :: pystr
  as_stream_maxlen :: int
  as_status_stream_name :: pystr
  as_status_stream_maxlen :: int
  as_checkpoint_enabled :: bool
  as_postgres_host :: pystr
  as_postgres_port :: int
  as_postgres_db :: pystr
  as_postgres_user :: pystr
  as_postgres_password :: pystr
  as_langgraph_schema :: pystr
  as_checkpoint_enc_keys :: pystr
  as_checkpoint_enc_active_kid :: pystr
  as_job_timeout_seconds :: real
  as_gemini_timeout_seconds :: real
  as_shutdown_grace_seconds :: real
  as_log_level :: pystr

definition agent_defaults :: agent_settings where
  "agent_defaults =
     \<lparr>as_gemini_api_key = [], as_gemini_model = lit ''gemini-3.8-flash'',
      as_gemini_rpm_limit = 10, as_gemini_rpd_limit = 250, as_gemini_rpd_cap = 200,
      as_gemini_max_calls_per_request = 3, as_gemini_temperature = 1 / 5,
      as_gemini_max_output_tokens = 8192, as_gemini_thinking_budget = 0,
      as_gemini_retry_attempts = 3, as_gemini_retry_initial_delay = 1,
      as_gemini_retry_max_delay = 8, as_gemini_retry_status_codes = lit ''503,500'',
      as_gemini_http_timeout_seconds = 30, as_hub_base_url = lit ''http://hub:8000'',
      as_hub_timeout_seconds = 5, as_internal_service_token = None, as_location_wire_key = [],
      as_auth_enforced = False, as_reviews_enrich_enabled = True, as_reviews_max_places = 3,
      as_reviews_display = 5, as_reviews_fetch_cap_per_job = 10, as_summary_enabled = True,
      as_summary_max_places = 7, as_summary_max_llm_calls = 2, as_candidates_max_base = 40,
      as_candidates_per_day = 12, as_personalization_enabled = True,
      as_training_capture_enabled = False, as_segment_stats_path = [], as_rules_enabled = True,
      as_timeline_enabled = True, as_timeline_buffer_minutes = 10,
      as_redis_url = lit ''redis://redis:6379'', as_redis_db_streams = 2,
      as_redis_db_ratelimit = 3, as_stream_name = lit ''agent:jobs:done'', as_stream_maxlen = 2000,
      as_status_stream_name = lit ''agent:jobs:status'', as_status_stream_maxlen = 2000,
      as_checkpoint_enabled = True, as_postgres_host = lit ''postgres'', as_postgres_port = 5432,
      as_postgres_db = lit ''map'', as_postgres_user = lit ''map_agent_runtime'',
      as_postgres_password = [], as_langgraph_schema = lit ''langgraph'',
      as_checkpoint_enc_keys = [], as_checkpoint_enc_active_kid = [], as_job_timeout_seconds = 300,
      as_gemini_timeout_seconds = 100, as_shutdown_grace_seconds = 310, as_log_level = lit ''INFO''\<rparr>"

text \<open>\<open>made\<close>: what the constructor gives; the second argument is the module's slot.\<close>

definition get_settings ::
    "pyexn + agent_settings \<Rightarrow> agent_settings option \<Rightarrow> (pyexn + agent_settings) \<times> agent_settings option" where
  "get_settings made slot =
     (case slot of
        Some A \<Rightarrow> (Inr A, slot)
      | None \<Rightarrow> (case made of Inl e \<Rightarrow> (Inl e, None) | Inr A \<Rightarrow> (Inr A, Some A)))"

text \<open>What the nodes, the summaries, startup and the clients read of them.\<close>

definition node_settings :: "agent_settings \<Rightarrow> settings" where
  "node_settings A =
     \<lparr>cf_max_calls = nat (as_gemini_max_calls_per_request A), cf_model = as_gemini_model A,
      cf_reviews_enrich = as_reviews_enrich_enabled A, cf_reviews_max_places = as_reviews_max_places A,
      cf_reviews_display = nat (as_reviews_display A), cf_reviews_cap = as_reviews_fetch_cap_per_job A,
      cf_cand_base = as_candidates_max_base A, cf_cand_per_day = as_candidates_per_day A,
      cf_personalization = as_personalization_enabled A, cf_training = as_training_capture_enabled A,
      cf_stats_path = as_segment_stats_path A, cf_rules = as_rules_enabled A,
      cf_timeline = as_timeline_enabled A, cf_buffer = as_timeline_buffer_minutes A\<rparr>"

definition summary_part :: "agent_settings \<Rightarrow> summary_settings" where
  "summary_part A =
     \<lparr>sc_enabled = as_summary_enabled A, sc_max_places = as_summary_max_places A,
      sc_max_calls = nat (as_summary_max_llm_calls A)\<rparr>"

definition boot_part :: "agent_settings \<Rightarrow> boot_settings" where
  "boot_part A =
     \<lparr>bt_api_key = as_gemini_api_key A, bt_token = as_internal_service_token A, bt_auth = as_auth_enforced A,
      bt_checkpoint = as_checkpoint_enabled A, bt_schema = as_langgraph_schema A,
      bt_enc_keys = as_checkpoint_enc_keys A, bt_active_kid = as_checkpoint_enc_active_kid A,
      bt_wire_key = as_location_wire_key A, bt_grace = as_shutdown_grace_seconds A\<rparr>"

text \<open>The hub client and the three clients of Redis, with the arguments startup gives them.\<close>

definition hub_of :: "agent_settings \<Rightarrow> hub" where
  "hub_of A = hub_client (as_hub_base_url A) (as_internal_service_token A)"

record stream_target =
  tg_url :: pystr
  tg_db :: int
  tg_stream :: pystr
  tg_maxlen :: int

definition done_target :: "agent_settings \<Rightarrow> stream_target" where
  "done_target A =
     \<lparr>tg_url = as_redis_url A, tg_db = as_redis_db_streams A, tg_stream = as_stream_name A,
      tg_maxlen = as_stream_maxlen A\<rparr>"

definition status_target :: "agent_settings \<Rightarrow> stream_target" where
  "status_target A =
     \<lparr>tg_url = as_redis_url A, tg_db = as_redis_db_streams A, tg_stream = as_status_stream_name A,
      tg_maxlen = as_status_stream_maxlen A\<rparr>"

definition limiter_of :: "(real \<Rightarrow> real) \<Rightarrow> agent_settings \<Rightarrow> limiter" where
  "limiter_of keep A =
     \<lparr>lm_capacity = as_gemini_rpm_limit A, lm_refill = as_gemini_rpm_limit A, lm_cap = as_gemini_rpd_cap A,
      lm_max_wait = 60, lm_prefix = lit ''gemini:daily:'', lm_keep = keep\<rparr>"

definition gemini_part :: "agent_settings \<Rightarrow> gemini_settings" where
  "gemini_part A =
     \<lparr>gm_attempts = as_gemini_retry_attempts A, gm_initial = as_gemini_retry_initial_delay A,
      gm_max = as_gemini_retry_max_delay A, gm_codes = as_gemini_retry_status_codes A,
      gm_http_timeout = as_gemini_http_timeout_seconds A, gm_thinking = as_gemini_thinking_budget A\<rparr>"

text \<open>The arguments of the connection text; how the library quotes them is its own.\<close>

definition checkpoint_conninfo :: "agent_settings \<Rightarrow> (string \<times> pyval) list" where
  "checkpoint_conninfo A =
     [(''user'', PStr (as_postgres_user A)), (''password'', PStr (as_postgres_password A)),
      (''host'', PStr (as_postgres_host A)), (''port'', PInt (as_postgres_port A)),
      (''dbname'', PStr (as_postgres_db A))]"

section \<open>Logging, starting\<close>

text \<open>
  The root logger. \<open>upper\<close> is \<open>str.upper\<close> and \<open>known\<close> says of which texts the library knows a level;
  it has added the handler by the time it refuses a level.
\<close>

datatype handler = Foreign | Stdout pystr

record root_logger =
  lg_handlers :: "handler list"
  lg_level :: pystr

definition log_format :: pystr where
  "log_format = lit ''%(asctime)s %(levelname)s %(name)s %(message)s''"

definition configure_logging ::
    "(pystr \<Rightarrow> pystr) \<Rightarrow> (pystr \<Rightarrow> bool) \<Rightarrow> pystr \<Rightarrow> root_logger \<Rightarrow> (pyexn + unit) \<times> root_logger" where
  "configure_logging upper known level lg =
     (if lg_handlers lg \<noteq> [] then (Inr (), lg)
      else if known (upper level)
      then (Inr (), lg\<lparr>lg_handlers := [Stdout log_format], lg_level := upper level\<rparr>)
      else (Inl ValueError, lg\<lparr>lg_handlers := [Stdout log_format]\<rparr>))"

text \<open>The start of \<open>lifespan\<close>: settings, logging, and the boot of \<open>Lifecycle\<close>.\<close>

definition start_process ::
    "(pystr \<Rightarrow> pystr) \<Rightarrow> (pystr \<Rightarrow> bool) \<Rightarrow> 'd world \<Rightarrow> pyexn + agent_settings
     \<Rightarrow> agent_settings option \<times> root_logger \<Rightarrow> (pyexn option \<times> process) \<times> agent_settings option \<times> root_logger" where
  "start_process upper known W made m =
     (case get_settings made (fst m) of
        (Inl e, slot) \<Rightarrow> ((Some e, idle), slot, snd m)
      | (Inr A, slot) \<Rightarrow>
          (case configure_logging upper known (as_log_level A) (snd m) of
             (Inl e, lg) \<Rightarrow> ((Some e, idle), slot, lg)
           | (Inr _, lg) \<Rightarrow> (boot W (boot_part A), slot, lg)))"

definition health :: pyval where
  "health = PDict [(lit ''status'', PStr (lit ''ok'')), (lit ''service'', PStr (lit ''agent''))]"

text \<open>
  The script: one text without a schema and so without a permit, by a client of its own. The number of
  characters it prints.
\<close>

definition smoke_main :: "pyexn + agent_settings \<Rightarrow> real \<times> (pyexn + reply) \<Rightarrow> pyexn + nat" where
  "smoke_main made tr =
     bindE (fst (get_settings made None)) (\<lambda>A.
       if as_gemini_api_key A = [] then Inl RuntimeError
       else bindE (generate_text (as_gemini_timeout_seconds A) tr) (\<lambda>t. Inr (length t)))"

section \<open>Lemmas\<close>

text \<open>The settings the other theories take as defaults are these.\<close>

lemma defaults_agree:
  "node_settings agent_defaults = default_settings" "summary_part agent_defaults = default_summary"
  "limiter_of (\<lambda>x. x) agent_defaults = default_limiter"
  by (simp_all add: node_settings_def summary_part_def limiter_of_def agent_defaults_def default_settings_def
      default_summary_def default_limiter_def)

text \<open>
  What startup has checked is what the process goes on with: once read, the settings stay, whatever the
  environment says later; and a process that got through its start has a handler for its logs.
\<close>

lemma get_settings_kept: "get_settings made slot = (Inr A, slot') \<Longrightarrow> get_settings made' slot' = (Inr A, slot')"
  by (auto simp: get_settings_def split: option.splits sum.splits)

lemma started_settings:
  assumes "start_process upper known W made (slot, lg) = ((None, p), slot', lg')"
  shows "\<exists>A. boot W (boot_part A) = (None, p) \<and> get_settings made' slot' = (Inr A, slot') \<and> lg_handlers lg' \<noteq> []"
proof -
  from assms obtain A where get: "get_settings made slot = (Inr A, slot')" and "boot W (boot_part A) = (None, p)"
    and "lg_handlers lg' \<noteq> []"
    by (auto simp: start_process_def configure_logging_def split: prod.splits sum.splits if_splits)
  with get_settings_kept [OF get] show ?thesis by blast
qed

text \<open>Configuring twice is configuring once.\<close>

lemma configure_logging_again:
  "configure_logging upper known l lg = (r, lg') \<Longrightarrow> configure_logging upper known l' lg' = (Inr (), lg')"
  by (auto simp: configure_logging_def split: if_splits)

text \<open>
  With the defaults one call of the model, the wait for its permit included, takes at most 160 seconds
  beside its requests to the store.
\<close>

lemma default_call_time:
  "model_time (Some (limiter_of keep agent_defaults)) answers (as_gemini_timeout_seconds agent_defaults) tr \<le> 160"
  using model_time_le [of "as_gemini_timeout_seconds agent_defaults" "Some (limiter_of keep agent_defaults)" answers tr]
  by (simp add: agent_defaults_def limiter_of_def)

text \<open>
  A regular shutdown cancels no job: where every task needs at most the time limit of a job and some
  more for its last message, and the grace of the shutdown covers both, as the defaults do with ten
  seconds to spare, every task has ended by itself when the clients are closed.
\<close>

lemma graceful_shutdown:
  assumes "boot W (boot_part A) = (None, p)" and "\<forall>c. wd_close W c = None"
    and "\<forall>t \<in> set ts. tk_done t \<or> (\<exists>l. tk_left t = Some l \<and> l \<le> as_job_timeout_seconds A + extra)"
    and "as_job_timeout_seconds A + extra \<le> as_shutdown_grace_seconds A"
  shows "\<exists>p'. shutdown W (boot_part A) ts p = Some (None, map (\<lambda>t. t\<lparr>tk_done := True\<rparr>) ts, p')
    \<and> pc_open p' = [] \<and> pc_slots p' = reset_all \<and> \<not> pc_serving p'"
proof -
  let ?g = "bt_grace (boot_part A)"
  have time: "in_time ?g t" if "t \<in> set ts" for t
    using assms(3,4) that by (force simp: in_time_def boot_part_def)
  then have "drain ?g ts = Some (map (end_task ?g) ts)" by (intro drain_ok) (simp add: list_all_iff)
  moreover have "map (end_task ?g) ts = map (\<lambda>t. t\<lparr>tk_done := True\<rparr>) ts"
    using time by (auto simp: end_task_def)
  moreover have "pc_open p = clients @ (if bt_checkpoint (boot_part A) then [Pool] else [])"
    by (rule boot_open(1) [OF assms(1)])
  ultimately show ?thesis using assms(2) by (simp add: shutdown_def close_all_ok clients_def closing_order_def)
qed

end
