(* ===== verification/EvalPrograms.thy ===== *)
theory EvalPrograms
  imports Collect SegmentStats Clients "HOL-Library.List_Lexorder"
begin

text \<open>
  The outer parts of the programs of eval/: the files of eval/run.py and eval/collect.py, the submission
  of a case over HTTP, and the program of eval/segment_stats.py. A directory is a list of names with
  texts; what \<open>json.loads\<close> makes of a text is a parameter, and so is what comes back over the wire.
\<close>

section \<open>Files\<close>

type_synonym json_reader = "pystr \<Rightarrow> pyval option"

definition loads :: "json_reader \<Rightarrow> pystr \<Rightarrow> pyexn + pyval" where
  "loads js text = (case js text of None \<Rightarrow> Inl JSONDecodeError | Some v \<Rightarrow> Inr v)"

text \<open>\<open>glob("*.json")\<close>: names that end so, in the order of the names.\<close>

definition json_name :: "pystr \<Rightarrow> bool" where
  "json_name n \<longleftrightarrow> suffix (lit ''.json'') n"

definition load_cases :: "json_reader \<Rightarrow> (pystr \<times> pystr) list \<Rightarrow> pyexn + pyval list" where
  "load_cases js files =
     mapE (\<lambda>f. loads js (snd f)) (sort_key fst (filter (\<lambda>f. json_name (fst f)) files))"

text \<open>A file that is missing or cut off counts as none.\<close>

definition load_json :: "json_reader \<Rightarrow> (pystr \<times> pystr) list \<Rightarrow> pystr \<Rightarrow> pyval option" where
  "load_json js files name = Option.bind (map_of files name) js"

section \<open>Submitting a case\<close>

text \<open>How \<open>urlopen\<close> and the reading of its body end; the body may be no JSON.\<close>

datatype sent = Body "pyval option" | Refusal int | NoConnection

definition submit_request :: "pystr \<Rightarrow> pydict \<Rightarrow> pystr option \<Rightarrow> hub_request" where
  "submit_request base body token =
     \<lparr>hr_method = Post, hr_url = base @ lit ''/v1/recommend'',
      hr_headers = (lit ''Content-Type'', lit ''application/json'')
        # (case token of None \<Rightarrow> [] | Some t \<Rightarrow> if t = [] then [] else [(lit ''X-Internal-Token'', t)]),
      hr_params = [], hr_body = PDict body\<rparr>"

definition submit :: "(hub_request \<Rightarrow> sent) \<Rightarrow> pystr \<Rightarrow> pydict \<Rightarrow> pystr option \<Rightarrow> pyexn + pyval" where
  "submit post base body token =
     (case post (submit_request base body token) of
        Refusal status \<Rightarrow> Inr PNone
      | NoConnection \<Rightarrow> Inr PNone
      | Body None \<Rightarrow> Inl JSONDecodeError
      | Body (Some v) \<Rightarrow> (case v of PDict d \<Rightarrow> Inr (dget d ''job_id'') | _ \<Rightarrow> Inl AttributeError))"

text \<open>
  The submissions of all cases, in turn. An id that is no text is not \<open>None\<close> and is kept by the code;
  the model stops there, as the service only sends texts.
\<close>

definition submit_case ::
    "env \<Rightarrow> date \<Rightarrow> (hub_request \<Rightarrow> sent) \<Rightarrow> pystr \<Rightarrow> pystr option \<Rightarrow> pystr \<times> pydict \<Rightarrow> pyexn + pystr \<times> pystr option" where
  "submit_case E today post base token c =
     bindE (build_request E today (snd c)) (\<lambda>body.
     bindE (submit post base body token) (\<lambda>job.
       case job of PStr j \<Rightarrow> Inr (fst c, Some j) | PNone \<Rightarrow> Inr (fst c, None) | _ \<Rightarrow> Inl TypeError))"

definition submit_all ::
    "env \<Rightarrow> date \<Rightarrow> (hub_request \<Rightarrow> sent) \<Rightarrow> pystr \<Rightarrow> pystr option \<Rightarrow> (pystr \<times> pydict) list
     \<Rightarrow> pyexn + (pystr \<times> pystr option) list" where
  "submit_all E today post base token cases = mapE (submit_case E today post base token) cases"

section \<open>The statistics program\<close>

text \<open>\<open>text\<close>: the lines of the input, when it is there. The exit code, and the file that is written.\<close>

definition segment_main :: "env \<Rightarrow> json_reader \<Rightarrow> pystr list option \<Rightarrow> int \<Rightarrow> pyexn + int \<times> pyval option" where
  "segment_main E js input m =
     (case input of
        None \<Rightarrow> Inr (1, None)
      | Some lines \<Rightarrow>
          bindE (mapE (loads js) (filter (\<lambda>l. strip l \<noteq> []) lines)) (\<lambda>rows.
          bindE (build_stats E rows m) (\<lambda>st. Inr (0, Some (stats_json E st)))))"

section \<open>Lemmas\<close>

lemma mapE_keys: "mapE f xs = Inr ys \<Longrightarrow> (\<And>x y. f x = Inr y \<Longrightarrow> k y = h x) \<Longrightarrow> map k ys = map h xs"
  by (induction xs arbitrary: ys) (auto simp: bindE_Inr_iff)

text \<open>Every case has its place in the list, a refused one with no job.\<close>

lemma submit_case_name:
  assumes "submit_case E today post base token c = Inr y"
  shows "fst y = fst c"
proof -
  from assms obtain job where
    "(case job of PStr j \<Rightarrow> Inr (fst c, Some j) | PNone \<Rightarrow> Inr (fst c, None) | _ \<Rightarrow> Inl TypeError) = Inr y"
    by (auto simp: submit_case_def bindE_Inr_iff)
  then show ?thesis by (cases job) auto
qed

lemma submit_all_cases: "submit_all E today post base token cases = Inr subs \<Longrightarrow> map fst subs = map fst cases"
  unfolding submit_all_def by (erule mapE_keys) (rule submit_case_name)

text \<open>What the agent reads is what the program wrote, blank lines apart.\<close>

lemma segment_main_written:
  assumes "segment_main E js (Some lines) m = Inr (code, out)"
  shows "\<exists>rows st. mapE (loads js) (filter (\<lambda>l. strip l \<noteq> []) lines) = Inr rows \<and> build_stats E rows m = Inr st
    \<and> code = 0 \<and> out = Some (stats_json E st)"
  using assms by (auto simp: segment_main_def bindE_Inr_iff)

lemma blank_lines_ignored:
  "strip l = [] \<Longrightarrow> segment_main E js (Some (xs @ l # ys)) m = segment_main E js (Some (xs @ ys)) m"
  by (simp add: segment_main_def)

text \<open>The order of the cases is that of their names, whatever order the directory lists them in.\<close>

lemma load_cases_order:
  assumes "distinct (map fst files)" and "mset files = mset files'"
  shows "load_cases js files = load_cases js files'"
proof -
  let ?P = "\<lambda>f :: pystr \<times> pystr. json_name (fst f)"
  have inj: "inj_on fst (set (filter ?P files))"
    using assms(1) by (auto simp: distinct_map intro: inj_on_subset)
  have "mset (filter ?P files) = mset (filter ?P files')" using assms(2) by (simp add: mset_filter)
  then have "sort_key fst (filter ?P files) = sort_key fst (filter ?P files')"
    using inj by (intro sort_key_inj_key_eq) simp_all
  then show ?thesis by (simp add: load_cases_def)
qed

end
