(* ===== verification/Spec2Isabelle.thy ===== *)
theory Spec2Isabelle
  imports Prompts Ranking Scoring Pipeline RateLimit Seal Summary Service Scorer
    SegmentStats Lifecycle Clients Collect Gemini Progress ProcessSetup EvalPrograms
begin

text \<open>
  The trip planning agent of the map service: a FastAPI process (app/main.py) that takes a request for
  a trip, runs a graph of nodes in the background (app/graph, app/nodes), calls the hub and a language
  model on the way (app/clients, app/llm), and publishes one message for the job on a Redis stream.
  Beside the jobs it answers two endpoints that summarise blog reviews. The programs of eval/ send
  recorded cases to the service, collect the messages and judge them.

  A job. \<open>recommend\<close> (Service) checks the caller's token and that the graph is ready, opens the
  envelope of the chosen places (Seal), and starts \<open>run_job\<close>, which runs the graph under a time limit
  and publishes a failure when the graph raised, the limit struck or a checkpoint could not be written. \<open>run_pipeline\<close> (Graph) starts at
  \<open>parse_input\<close> and follows \<open>edge\<close> from node to node:

    \<^item> \<open>parse_input\<close>, \<open>fetch_weather\<close>, \<open>plan_strategy\<close> (Planning);
    \<^item> \<open>search_places\<close> (Ranking), \<open>rules_filter\<close> and \<open>score_and_rank\<close> (Scoring);
    \<^item> \<open>load_given_places\<close>, \<open>fetch_reviews\<close>, \<open>recommend_places\<close> (Selection);
    \<^item> \<open>recommend_route\<close> (Route), \<open>build_timeline\<close>, \<open>fit_time_budget\<close> (Timeline);
    \<^item> \<open>llm_reason\<close> (Reasons), \<open>build_payload\<close>, \<open>publish_done\<close> (Publish).

  A node is a function from the environment and the state to an exception or the new state
  (\<open>node\<close> in State). Failures a node handles become the keys \<open>error\<close>, \<open>code\<close> and \<open>retryable\<close> of the
  state; an exception it does not handle is \<open>Inl\<close> and ends the run. The graph library merges the
  partial update a node returns into the state; here the node returns the updated state. The step
  relation \<open>step\<close> has one rule for a node that returns and one for a node that raises, and \<open>run\<close> is
  the function that follows it.

  Theories and sources.

    \<^item> Prelude, PyValue, Calendar: Python text as lists of code points, dicts as association lists in
      insertion order, the values of decoded JSON, dates and times with their parsing;
    \<^item> Errors: app/errors.py and the exceptions; Schemas: app/schemas/agent_schemas.py; State:
      \<open>AgentState\<close>, the settings of app/agent_settings.py that the nodes read, and the contracts of a
      node as locales;
    \<^item> Sanitize: app/security/sanitize.py; PromptJson: app/llm/prompt_json.py; StructuredCall:
      app/llm/structured_call.py with the call of \<open>GeminiClient\<close>; SystemText and Prompts: the prompts
      of app/nodes/agent_nodes.py;
    \<^item> Planning, Ranking, Scoring, Route, Selection, Timeline, Reasons, Publish: the nodes of
      app/nodes/agent_nodes.py; Graph and Pipeline: app/graph/agent_graph.py;
    \<^item> RateLimit: app/llm/rate_limit.py, the script kept in Redis included; Gemini: the calls of
      \<open>GeminiClient\<close> of all processes under that limiter, as a step relation on a fleet of calls;
    \<^item> Base64 and Seal: app/crypto/location_seal.py and app/crypto/checkpoint_seal.py;
    \<^item> Summary: app/nodes/summary_nodes.py and app/graph/summary_graph.py;
    \<^item> Service: the handlers and the jobs of app/main.py; Lifecycle: its \<open>lifespan\<close> and the slots of
      app/agent_dependencies.py; CheckpointDb: app/checkpoint_db.py and app/checkpoint_migrate.py;
      Clients: the requests of app/clients/agent_clients.py; Progress: the progress events of the
      nodes; ProcessSetup: app/agent_settings.py as a whole, what each part of the program takes of
      it, the logging, the start of the process, and app/scripts/gemini_smoke.py;
    \<^item> Scorer: eval/scorer.py and the comparison of eval/run.py; Collect: eval/collect.py and the
      program of eval/run.py; SegmentStats: eval/segment_stats.py and its reader in the nodes;
      EvalPrograms: the files these programs read and the submission of a case.
\<close>

text \<open>
  What the lemmas show.

    \<^item> The contracts of a node (locales \<open>pipeline_node\<close>, \<open>quiet_node\<close>, \<open>early_node\<close>,
      \<open>quiet_early_node\<close> in State): a node keeps the job and the request, stays within the budget of
      model calls, fails with one of the fixed codes only, leaves a failed state alone, or makes no
      call at all. Each node is an interpretation, and Graph composes them along the edges.
    \<^item> Each node's function: the checks of \<open>parse_input\<close>, the merge of the searches, ranking as a
      permutation, the balanced cut of the candidates, places only from verified sources, the tour of
      a day, the timetable of a route against a plain schedule, and the shortening of a day.
    \<^item> The invariant \<open>sound\<close> of Pipeline holds at every node that a job with a valid request reaches,
      by rule induction on \<open>reached\<close>; what a published message promises follows from it, and Scorer
      shows that the payload of such a job passes the gate of the evaluation.
    \<^item> Prompts contain foreign text only inside their data sections: the angle brackets of a prompt
      are those of its own tags.
    \<^item> Limits: the grants of the script against a bucket refilled by the clock, the daily cap, the
      number of turns of the waiting loop; and for the fleet, by an invariant that every call of the
      library is paid for by a grant of its own, the same bounds on these calls, and for the HTTP requests
      the multiple that the retry options of the client allow, because the library repeats a request
      without asking for a permit; and what the answers of the store say about each call.
    \<^item> Progress: a run with events has the outcome of the run without, and its events are exactly the
      stages of the way its kind of trip takes, up to the conditional edge where a failed job leaves it.
    \<^item> Envelopes: what one service seals another opens, nothing else opens, and the key ring of the
      checkpoints can be rotated. The three readings of base64 are interpretations of \<open>byte_codec\<close>.
    \<^item> The process: a job that has started is answered unless its report itself is cancelled, a process
      that serves has passed its checks, every client that was made is closed once where the code
      provides for it, a shutdown with enough grace cancels no job, and the migration runs under its lock
      and its role. The slots of the clients are interpretations of \<open>client_slot\<close>. The checks of
      the database are interpretations of \<open>one_question\<close>, so startup only reads.
    \<^item> The evaluation: which message a case gets, when the gate opens, and that the statistics file is
      read back as it was counted.

  Bounds. The graph has no cycle; \<open>run\<close> is defined for every state by the rank of the nodes, and no
  run is longer than 13 steps. The tour of a day, the 2-opt rounds and the dropping of places end by
  measures in their theories, or by the number of rounds the code itself sets. The loop of \<open>acquire\<close>
  ends by the remaining wait: every turn takes a twentieth of a second at least. No other fuel is used. The
  loops over the stream in Collect and over the background tasks in Lifecycle run over the list of
  what the environment gives them before the deadline.

  Parameters. Code outside the repository is an argument: in the record \<open>env\<close> the answers of the hub
  and the model, the coercions of pydantic, the decimal text of a float and the parsing of one; in
  \<open>publisher\<close> the serialisation, the sealing and the stream; in \<open>wire\<close> and the ring of checkpoint keys
  the cipher and the JSON text; in \<open>world\<close> of Lifecycle the constructors, the pool and the database.
  What a theorem needs of them (a cipher that opens what it sealed, a serialisation that is read back,
  clocks that do not run backwards) is a hypothesis of that theorem, and its witness gives concrete
  functions.

  Choices. Python's integers are \<open>int\<close>. Floats are reals with two infinities and NaN: comparisons,
  sums and the special values are as in Python, the rounding of a double is not modelled, and where
  the code rounds itself the rounding is written out. Parallel searches and reviews are evaluated in
  the order in which the code gathers their results, which is the order of the calls. The interleaving
  of processes is modelled where state is shared: the calls of the Redis script are a list in any
  order, the calls of the model are a relation in which any of them may move, and the interruption of
  a job by its time limit, by a cancellation or by a failed checkpoint may come before any of its steps
  or after the last, and a cancellation during its report as well. Python's order of a sorted list with
  a NaN among the keys is the environment's. Between the trimming of the days and the end of a job the
  graph keeps a key that \<open>fit_time_budget\<close> takes out of its own copy of the state; the model clears it,
  and no later node reads it.

  Not modelled: the messages of the logs, the connection pool of the checkpoint database, the
  instrumentation, and the argument parsing, printing and directories of the programs of eval/: they
  call libraries and decide nothing; and in \<open>harvest_loop\<close> an acknowledgement that raises, which ends the
  program of eval/collect.py with a traceback.
  The saving of a checkpoint between the nodes is the graph library's; its records are those of Seal.
  Of the HTTP, Redis and model libraries only what is passed to them and what is done with their
  answers is modelled.
\<close>

end
